(* ===== verification/Zeos_Prelude.thy ===== *)
theory Zeos_Prelude
  imports Main "HOL-Library.Word" "HOL-Library.Monad_Syntax"
begin

unbundle bit_operations_syntax

text \<open>
  Shared vocabulary of the ZeOS development: the machine integer types of the source
  (\<open>include/types.h\<close>), C integer division, the fault monad of the kernel model, and the
  generic lemmas on options, lists and loops that the component theories rely on.

  A kernel operation returns an \<open>option\<close>: \<open>None\<close> is a page fault in kernel mode, raised by
  a load or a store through a NULL pointer (page 0 is left unmapped by
  \<open>init_table_pages\<close>). A theorem of the shape \<open>\<exists>s'. op s = Some s' \<and> \<dots>\<close> therefore also
  states that the operation never dereferences NULL.
\<close>

named_theorems ring_intros "introduction rules for the intrusive lists"
named_theorems kernel_simps "unfolding of kernel helper operations"
named_theorems game_simps "unfolding of game helper operations"

type_synonym u8 = "8 word"
type_synonym u16 = "16 word"
type_synonym u32 = "32 word"

text \<open>Loops over literal ranges stay folded; evaluation unfolds them on demand.\<close>

declare upt_rec_numeral [simp del]

section \<open>C integer division\<close>

text \<open>C divides towards zero, HOL towards minus infinity.\<close>

definition cdiv :: "int \<Rightarrow> int \<Rightarrow> int" where
  "cdiv a b = sgn a * sgn b * (\<bar>a\<bar> div \<bar>b\<bar>)"

definition cmod :: "int \<Rightarrow> int \<Rightarrow> int" where
  "cmod a b = a - b * cdiv a b"

lemma cdiv_nonneg [simp]: "0 \<le> a \<Longrightarrow> 0 < b \<Longrightarrow> cdiv a b = a div b"
  by (cases "a = 0") (auto simp: cdiv_def)

lemma cmod_nonneg [simp]: "0 \<le> a \<Longrightarrow> 0 < b \<Longrightarrow> cmod a b = a mod b"
  by (simp add: cmod_def minus_mult_div_eq_mod)

text \<open>Addition of two \<open>unsigned int\<close> kept as naturals.\<close>

definition uadd :: "nat \<Rightarrow> nat \<Rightarrow> nat" where
  "uadd a b = (a + b) mod 2 ^ 32"

lemma uadd_small [simp]: "a + b < 2 ^ 32 \<Longrightarrow> uadd a b = a + b"
  by (simp add: uadd_def)

section \<open>Option and list facts\<close>

lemma bind_eq_SomeE:
  assumes "Option.bind m f = Some y"
  obtains x where "m = Some x" and "f x = Some y"
  using assms by (auto simp: bind_eq_Some_conv)

lemma bind_SomeI: "m = Some x \<Longrightarrow> f x = Some y \<Longrightarrow> Option.bind m f = Some y"
  by simp

text \<open>A C loop whose body may fault: run \<open>f\<close> over a list of indices, stop at a fault.\<close>

fun ofold :: "('a \<Rightarrow> 's \<Rightarrow> 's option) \<Rightarrow> 'a list \<Rightarrow> 's \<Rightarrow> 's option" where
  "ofold f [] s = Some s"
| "ofold f (x # xs) s = Option.bind (f x s) (ofold f xs)"

lemma ofold_append: "ofold f (xs @ ys) s = Option.bind (ofold f xs s) (ofold f ys)"
  by (induction xs arbitrary: s) (auto split: bind_splits)

text \<open>A loop that stores one array element per iteration.\<close>

lemma fold_fun_upd:
  "fold (\<lambda>i f. f(i := v i)) [a..<b] f = (\<lambda>i. if a \<le> i \<and> i < b then v i else f i)"
proof (induction b)
  case 0
  then show ?case by simp
next
  case (Suc b)
  then show ?case by (auto simp: fun_eq_iff)
qed

lemma fold_list_update:
  "n \<le> length xs \<Longrightarrow> fold (\<lambda>i s. s[i := v]) [0..<n] xs = replicate n v @ drop n xs"
proof (induction n)
  case 0
  then show ?case by simp
next
  case (Suc n)
  then show ?case
    by (simp add: list_update_append replicate_append_same Cons_nth_drop_Suc [symmetric])
qed

text \<open>A loop over a record whose body only changes one field.\<close>

lemma fold_field:
  assumes "\<And>i s. upd (g i (get s)) s = body i s"
    and "\<And>x s. get (upd x s) = x" and "\<And>x y s. upd x (upd y s) = upd x s" and "\<And>s. upd (get s) s = s"
  shows "fold body xs s = upd (fold g xs (get s)) s"
proof (induction xs arbitrary: s)
  case Nil
  then show ?case by (simp add: assms(4))
next
  case (Cons x xs)
  have "fold body (x # xs) s = upd (fold g xs (get (body x s))) (body x s)"
    using Cons.IH by simp
  also have "\<dots> = upd (fold g xs (g x (get s))) s"
    by (simp add: assms(1) [symmetric] assms(2,3))
  finally show ?case by simp
qed

lemma distinct_split_unique:
  "distinct (xs @ a # ys) \<Longrightarrow> xs @ a # ys = us @ a # vs \<Longrightarrow> us = xs \<and> vs = ys"
  by (metis append_Cons_eq_iff distinct_append distinct.simps(2) disjoint_insert(1) list.simps(15))

lemma map_inj_Cons_split:
  assumes "inj f" and "map f zs = xs @ f a # ys"
  obtains us vs where "zs = us @ a # vs" and "xs = map f us" and "ys = map f vs"
  using assms by (fastforce simp: map_eq_append_conv map_eq_Cons_conv dest: injD)

end
