(* ===== verification/Zeos_List.thy ===== *)
theory Zeos_List
  imports Zeos_Prelude
begin

text \<open>
  The intrusive doubly-linked lists of \<open>project/list.c\<close> and \<open>project/include/list.h\<close>, at
  the level of the pointer store. A node is an address of the type \<open>'n\<close>, a pointer is a
  \<open>'n option\<close> (\<open>None\<close> is NULL), the store keeps the \<open>next\<close> and \<open>prev\<close> fields of every
  node. Loads and stores through NULL fault.

  The second half relates the store to abstract sequences. \<open>dlist h q xs\<close> says that the
  head \<open>q\<close> anchors a well-formed circular list with the entries \<open>xs\<close>; \<open>rings h R\<close> says
  that every head in the domain of \<open>R\<close> anchors its own list and that no two lists share a
  node. The locale \<open>list_ops\<close> is the contract the queues of the scheduler rely on.
\<close>

section \<open>The store\<close>

record 'n list_head =
  next_of :: "'n \<Rightarrow> 'n option"
  prev_of :: "'n \<Rightarrow> 'n option"

definition load_next :: "'n option \<Rightarrow> 'n list_head \<Rightarrow> 'n option option" where
  "load_next p h = (case p of None \<Rightarrow> None | Some n \<Rightarrow> Some (next_of h n))"

definition load_prev :: "'n option \<Rightarrow> 'n list_head \<Rightarrow> 'n option option" where
  "load_prev p h = (case p of None \<Rightarrow> None | Some n \<Rightarrow> Some (prev_of h n))"

definition store_next :: "'n option \<Rightarrow> 'n option \<Rightarrow> 'n list_head \<Rightarrow> 'n list_head option" where
  "store_next p v h =
     (case p of None \<Rightarrow> None | Some n \<Rightarrow> Some (h\<lparr>next_of := (next_of h)(n := v)\<rparr>))"

definition store_prev :: "'n option \<Rightarrow> 'n option \<Rightarrow> 'n list_head \<Rightarrow> 'n list_head option" where
  "store_prev p v h =
     (case p of None \<Rightarrow> None | Some n \<Rightarrow> Some (h\<lparr>prev_of := (prev_of h)(n := v)\<rparr>))"

section \<open>The operations of list.c\<close>

text \<open>\<open>list_add_between\<close> and \<open>list_del_between\<close> are the static helpers
  \<^verbatim>\<open>__list_add\<close> and \<^verbatim>\<open>__list_del\<close>.\<close>

definition list_add_between ::
  "'n option \<Rightarrow> 'n option \<Rightarrow> 'n option \<Rightarrow> 'n list_head \<Rightarrow> 'n list_head option" where
  "list_add_between new prev next h = do {
     h \<leftarrow> store_prev next new h;
     h \<leftarrow> store_next new next h;
     h \<leftarrow> store_prev new prev h;
     store_next prev new h }"

definition list_del_between ::
  "'n option \<Rightarrow> 'n option \<Rightarrow> 'n list_head \<Rightarrow> 'n list_head option" where
  "list_del_between prev next h = do {
     h \<leftarrow> store_prev next prev h;
     store_next prev next h }"

definition INIT_LIST_HEAD :: "'n option \<Rightarrow> 'n list_head \<Rightarrow> 'n list_head option" where
  "INIT_LIST_HEAD l h = do {
     h \<leftarrow> store_next l l h;
     store_prev l l h }"

definition list_add :: "'n option \<Rightarrow> 'n option \<Rightarrow> 'n list_head \<Rightarrow> 'n list_head option" where
  "list_add new head h = do {
     next \<leftarrow> load_next head h;
     list_add_between new head next h }"

definition list_add_tail :: "'n option \<Rightarrow> 'n option \<Rightarrow> 'n list_head \<Rightarrow> 'n list_head option" where
  "list_add_tail new head h = do {
     prev \<leftarrow> load_prev head h;
     list_add_between new prev head h }"

definition list_del :: "'n option \<Rightarrow> 'n list_head \<Rightarrow> 'n list_head option" where
  "list_del entry h = do {
     prev \<leftarrow> load_prev entry h;
     next \<leftarrow> load_next entry h;
     h \<leftarrow> list_del_between prev next h;
     h \<leftarrow> store_next entry None h;
     store_prev entry None h }"

definition list_is_last :: "'n option \<Rightarrow> 'n option \<Rightarrow> 'n list_head \<Rightarrow> bool option" where
  "list_is_last l head h = do {
     next \<leftarrow> load_next l h;
     Some (next = head) }"

definition list_empty :: "'n option \<Rightarrow> 'n list_head \<Rightarrow> bool option" where
  "list_empty head h = do {
     next \<leftarrow> load_next head h;
     Some (next = head) }"

definition list_first :: "'n option \<Rightarrow> 'n list_head \<Rightarrow> 'n option option" where
  "list_first head h = load_next head h"

text \<open>
  \<open>list_for_each\<close> visits the entries from \<open>pos\<close> until the cursor is back at the head; the
  model returns the visited nodes in order. The loop of the source does not end on a
  corrupted ring, hence \<open>partial_function\<close>; \<open>list_for_each_dlist\<close> below shows that it ends
  on every well-formed list.
\<close>

partial_function (option) list_walk ::
  "'n option \<Rightarrow> 'n option \<Rightarrow> 'n list_head \<Rightarrow> 'n list option" where
  "list_walk pos head h =
     (if pos = head then Some []
      else Option.bind (load_next pos h) (\<lambda>next.
        Option.bind (list_walk next head h) (\<lambda>rest.
          Some (the pos # rest))))"

definition list_for_each :: "'n option \<Rightarrow> 'n list_head \<Rightarrow> 'n list option" where
  "list_for_each head h = do {
     pos \<leftarrow> load_next head h;
     list_walk pos head h }"

lemmas list_head_simps [simp] =
  load_next_def load_prev_def store_next_def store_prev_def

lemmas list_op_defs =
  list_add_between_def list_del_between_def INIT_LIST_HEAD_def list_add_def list_add_tail_def
  list_del_def list_is_last_def list_empty_def list_first_def list_for_each_def

section \<open>Well-formed lists\<close>

text \<open>\<open>chain h a xs b\<close>: from \<open>a\<close> the next pointers lead through \<open>xs\<close> to \<open>b\<close>, and the
  prev pointers lead back.\<close>

fun chain :: "'n list_head \<Rightarrow> 'n \<Rightarrow> 'n list \<Rightarrow> 'n \<Rightarrow> bool" where
  "chain h a [] b \<longleftrightarrow> next_of h a = Some b \<and> prev_of h b = Some a"
| "chain h a (x # xs) b \<longleftrightarrow> next_of h a = Some x \<and> prev_of h x = Some a \<and> chain h x xs b"

definition dlist :: "'n list_head \<Rightarrow> 'n \<Rightarrow> 'n list \<Rightarrow> bool" where
  "dlist h q xs \<longleftrightarrow> chain h q xs q \<and> distinct (q # xs)"

lemma chain_append: "chain h a (xs @ y # ys) b \<longleftrightarrow> chain h a xs y \<and> chain h y ys b"
  by (induction xs arbitrary: a) auto

lemma chain_next_frame:
  "n \<notin> set (a # xs) \<Longrightarrow> chain (h\<lparr>next_of := (next_of h)(n := v)\<rparr>) a xs b = chain h a xs b"
  by (induction xs arbitrary: a) auto

lemma chain_prev_frame:
  "n \<notin> set (b # xs) \<Longrightarrow> chain (h\<lparr>prev_of := (prev_of h)(n := v)\<rparr>) a xs b = chain h a xs b"
  by (induction xs arbitrary: a) auto

lemma chain_cong:
  assumes "\<forall>n \<in> set (a # xs). next_of h' n = next_of h n"
    and "\<forall>n \<in> set (b # xs). prev_of h' n = prev_of h n"
  shows "chain h' a xs b = chain h a xs b"
  using assms by (induction xs arbitrary: a) auto

lemma chain_last_prev: "chain h a xs b \<Longrightarrow> prev_of h b = Some (last (a # xs))"
  by (induction xs arbitrary: a) auto

lemma chain_first_next: "chain h a xs b \<Longrightarrow> next_of h a = Some (hd (xs @ [b]))"
  by (cases xs) auto

lemma chain_butlast:
  assumes "chain h a xs b" and "xs \<noteq> []"
  shows "chain h a (butlast xs) (last xs)" and "next_of h (last xs) = Some b"
proof -
  have "chain h a (butlast xs @ [last xs]) b"
    using assms by simp
  then show "chain h a (butlast xs) (last xs)" and "next_of h (last xs) = Some b"
    unfolding chain_append by auto
qed

lemma dlist_Nil: "dlist h q [] \<longleftrightarrow> next_of h q = Some q \<and> prev_of h q = Some q"
  by (simp add: dlist_def)

lemma dlist_cong:
  assumes "\<forall>n \<in> set (q # xs). next_of h' n = next_of h n \<and> prev_of h' n = prev_of h n"
  shows "dlist h' q xs = dlist h q xs"
  using assms chain_cong [of q xs h' h q] by (auto simp: dlist_def)

lemma dlist_first: "dlist h q xs \<Longrightarrow> next_of h q = Some (hd (xs @ [q]))"
  by (auto simp: dlist_def dest: chain_first_next)

lemma dlist_last: "dlist h q xs \<Longrightarrow> prev_of h q = Some (last (q # xs))"
  by (auto simp: dlist_def dest: chain_last_prev)

lemma list_empty_dlist: "dlist h q xs \<Longrightarrow> list_empty (Some q) h = Some (xs = [])"
  by (cases xs) (auto simp: list_empty_def dlist_def)

lemma list_first_dlist: "dlist h q (x # xs) \<Longrightarrow> list_first (Some q) h = Some (Some x)"
  by (auto simp: list_first_def dlist_def)

lemma list_is_last_dlist:
  assumes "dlist h q (xs @ y # ys)"
  shows "list_is_last (Some y) (Some q) h = Some (ys = [])"
  using assms by (cases ys) (auto simp: list_is_last_def dlist_def chain_append)

section \<open>The walk of list_for_each ends\<close>

lemma list_walk_chain:
  "chain h a xs q \<Longrightarrow> q \<notin> set xs \<Longrightarrow> list_walk (next_of h a) (Some q) h = Some xs"
proof (induction xs arbitrary: a)
  case Nil
  then show ?case by (subst list_walk.simps) simp
next
  case (Cons x xs)
  then show ?case by (subst list_walk.simps) auto
qed

lemma list_for_each_dlist: "dlist h q xs \<Longrightarrow> list_for_each (Some q) h = Some xs"
  by (simp add: list_for_each_def dlist_def list_walk_chain)

section \<open>Insertion and removal\<close>

lemma INIT_LIST_HEAD_eq:
  "INIT_LIST_HEAD (Some q) h =
     Some (h\<lparr>next_of := (next_of h)(q := Some q), prev_of := (prev_of h)(q := Some q)\<rparr>)"
  by (simp add: INIT_LIST_HEAD_def)

text \<open>The general insertion: \<open>new\<close> goes between two neighbours of a chain.\<close>

lemma list_add_tail_dlist:
  assumes "dlist h q xs" and "n \<notin> set (q # xs)"
  obtains h' where "list_add_tail (Some n) (Some q) h = Some h'"
    and "dlist h' q (xs @ [n])"
    and "\<And>m. m \<notin> set (n # q # xs) \<Longrightarrow> next_of h' m = next_of h m \<and> prev_of h' m = prev_of h m"
proof -
  define l where "l = last (q # xs)"
  define h' where "h' = h\<lparr>next_of := (next_of h)(n := Some q, l := Some n),
    prev_of := (prev_of h)(q := Some n, n := Some l)\<rparr>"
  have l: "l \<in> set (q # xs)" "l \<noteq> n"
    unfolding l_def using assms(2) last_in_set [of "q # xs"] by auto
  have "list_add_tail (Some n) (Some q) h = Some h'"
    using dlist_last [OF assms(1)] l
    by (simp add: list_add_tail_def list_add_between_def h'_def l_def)
  moreover have "dlist h' q (xs @ [n])"
  proof (cases "xs = []")
    case True
    with assms show ?thesis by (auto simp: dlist_def h'_def l_def)
  next
    case False
    define ys where "ys = butlast xs"
    have xs: "xs = ys @ [l]" using False by (simp add: l_def ys_def)
    have "chain h q ys l" using assms(1) by (simp add: dlist_def xs chain_append)
    then have "chain h' q ys l"
      using assms(1,2) by (subst chain_cong [of _ _ h' h]) (auto simp: dlist_def xs h'_def)
    then show ?thesis
      using assms by (auto simp: dlist_def xs chain_append h'_def)
  qed
  moreover have "next_of h' m = next_of h m \<and> prev_of h' m = prev_of h m"
    if "m \<notin> set (n # q # xs)" for m
    using that l by (auto simp: h'_def)
  ultimately show ?thesis using that by blast
qed

lemma list_add_dlist:
  assumes "dlist h q xs" and "n \<notin> set (q # xs)"
  obtains h' where "list_add (Some n) (Some q) h = Some h'"
    and "dlist h' q (n # xs)"
proof -
  define f where "f = hd (xs @ [q])"
  define h' where "h' = h\<lparr>next_of := (next_of h)(n := Some f, q := Some n),
    prev_of := (prev_of h)(f := Some n, n := Some q)\<rparr>"
  have f: "f \<noteq> n" using assms(2) by (cases xs) (auto simp: f_def)
  have "list_add (Some n) (Some q) h = Some h'"
    using dlist_first [OF assms(1)] f
    by (simp add: list_add_def list_add_between_def h'_def f_def)
  moreover have "dlist h' q (n # xs)"
  proof (cases xs)
    case Nil
    with assms show ?thesis by (auto simp: dlist_def h'_def f_def)
  next
    case (Cons y ys)
    then have "chain h y ys q" using assms(1) by (simp add: dlist_def)
    then have "chain h' y ys q"
      using assms Cons by (subst chain_cong [of _ _ h' h]) (auto simp: dlist_def h'_def f_def)
    then show ?thesis
      using assms Cons by (auto simp: dlist_def h'_def f_def)
  qed
  ultimately show ?thesis using that by blast
qed

lemma list_del_dlist:
  assumes "dlist h q (xs @ n # ys)"
  obtains h' where "list_del (Some n) h = Some h'"
    and "dlist h' q (xs @ ys)" and "next_of h' n = None" and "prev_of h' n = None"
    and "\<And>m. m \<notin> set (q # xs @ n # ys) \<Longrightarrow> next_of h' m = next_of h m \<and> prev_of h' m = prev_of h m"
proof -
  define l where "l = last (q # xs)"
  define f where "f = hd (ys @ [q])"
  define h' where "h' = h\<lparr>next_of := (next_of h)(l := Some f, n := None),
    prev_of := (prev_of h)(f := Some l, n := None)\<rparr>"
  have c: "chain h q xs n" "chain h n ys q" and d: "distinct (q # xs @ n # ys)"
    using assms by (auto simp: dlist_def chain_append)
  have l: "l \<in> set (q # xs)" "l \<noteq> n"
    using d last_in_set [of "q # xs"] by (auto simp: l_def)
  have f: "f \<in> set (q # ys)" "f \<noteq> n"
    using d by (cases ys; auto simp: f_def)+
  have "list_del (Some n) h = Some h'"
    using chain_last_prev [OF c(1)] chain_first_next [OF c(2)] l f
    by (simp add: list_del_def list_del_between_def h'_def l_def f_def)
  moreover have "dlist h' q (xs @ ys)"
  proof (cases "xs = []"; cases ys)
    assume "xs = []" "ys = []"
    with d show ?thesis by (auto simp: dlist_def h'_def l_def f_def)
  next
    fix y zs assume e: "xs = []" "ys = y # zs"
    then have "chain h y zs q" using c by simp
    then have "chain h' y zs q"
      using d e by (subst chain_cong [of _ _ h' h]) (auto simp: h'_def f_def l_def)
    then show ?thesis using d e by (auto simp: dlist_def h'_def l_def f_def)
  next
    assume e: "xs \<noteq> []" "ys = []"
    define zs where "zs = butlast xs"
    have xs: "xs = zs @ [l]" using e by (simp add: l_def zs_def)
    have "chain h q zs l" using c(1) by (simp add: xs chain_append)
    then have "chain h' q zs l"
      using d e by (subst chain_cong [of _ _ h' h]) (auto simp: h'_def f_def xs)
    then show ?thesis using d e by (auto simp: dlist_def xs chain_append h'_def f_def)
  next
    fix y ws assume e: "xs \<noteq> []" "ys = y # ws"
    define zs where "zs = butlast xs"
    have xs: "xs = zs @ [l]" using e by (simp add: l_def zs_def)
    have "chain h q zs l" "chain h y ws q" using c e by (simp_all add: xs chain_append)
    moreover have "chain h' q zs l = chain h q zs l"
      using d e by (intro chain_cong) (auto simp: h'_def f_def xs)
    moreover have "chain h' y ws q = chain h y ws q"
      using d e by (intro chain_cong) (auto simp: h'_def f_def xs)
    ultimately show ?thesis using d e by (auto simp: dlist_def xs chain_append h'_def f_def)
  qed
  moreover have "next_of h' m = next_of h m \<and> prev_of h' m = prev_of h m"
    if "m \<notin> set (q # xs @ n # ys)" for m
    using that l f by (auto simp: h'_def)
  ultimately show ?thesis using that by (simp add: h'_def)
qed

text \<open>A node that was removed and not inserted again cannot be removed a second time:
  its NULL links fault.\<close>

lemma list_del_detached: "next_of h n = None \<Longrightarrow> prev_of h n = None \<Longrightarrow> list_del (Some n) h = None"
  by (simp add: list_del_def list_del_between_def)

section \<open>Disjoint lists\<close>

definition rings :: "'n list_head \<Rightarrow> ('n \<rightharpoonup> 'n list) \<Rightarrow> bool" where
  "rings h R \<longleftrightarrow> (\<forall>q xs. R q = Some xs \<longrightarrow> dlist h q xs) \<and>
     (\<forall>q p xs ys. R q = Some xs \<longrightarrow> R p = Some ys \<longrightarrow> q \<noteq> p \<longrightarrow>
        set (q # xs) \<inter> set (p # ys) = {})"

definition fresh :: "('n \<rightharpoonup> 'n list) \<Rightarrow> 'n \<Rightarrow> bool" where
  "fresh R n \<longleftrightarrow> (\<forall>q xs. R q = Some xs \<longrightarrow> n \<notin> set (q # xs))"

lemma ringsD: "rings h R \<Longrightarrow> R q = Some xs \<Longrightarrow> dlist h q xs"
  by (simp add: rings_def)

lemma rings_disjoint:
  "rings h R \<Longrightarrow> R q = Some xs \<Longrightarrow> R p = Some ys \<Longrightarrow> q \<noteq> p \<Longrightarrow> set (q # xs) \<inter> set (p # ys) = {}"
  unfolding rings_def by blast

lemma rings_forget: "rings h R \<Longrightarrow> rings h (R(n := None))"
  unfolding rings_def by (auto split: if_splits)

lemma fresh_forget: "fresh R n \<Longrightarrow> fresh (R(q := None)) n"
  unfolding fresh_def by (auto split: if_splits)

lemma fresh_upd: "fresh R n \<Longrightarrow> n \<notin> set (q # xs) \<Longrightarrow> fresh (R(q \<mapsto> xs)) n"
  unfolding fresh_def by (auto split: if_splits)

lemma fresh_after_del:
  assumes "rings h R" and "R q = Some (xs @ n # ys)"
  shows "fresh (R(q \<mapsto> xs @ ys)) n"
  unfolding fresh_def
proof (intro allI impI)
  fix p zs assume p: "(R(q \<mapsto> xs @ ys)) p = Some zs"
  show "n \<notin> set (p # zs)"
  proof (cases "p = q")
    case True
    with p ringsD [OF assms] show ?thesis by (auto simp: dlist_def)
  next
    case False
    with p rings_disjoint [OF assms(1,2), of p zs] show ?thesis by auto
  qed
qed

lemma fresh_head: "rings h R \<Longrightarrow> R n = Some xs \<Longrightarrow> fresh (R(n := None)) n"
  unfolding fresh_def using rings_disjoint [of h R n xs] by (auto split: if_splits)

lemma rings_update:
  assumes R: "rings h R" and d: "dlist h' q xs'" and q: "R q = Some xs \<or> R q = None \<and> xs = []"
    and sub: "set xs' \<subseteq> set (n # xs)" and f: "fresh (R(q := None)) n" "fresh (R(q := None)) q"
    and frame: "\<And>m. m \<notin> set (n # q # xs) \<Longrightarrow> next_of h' m = next_of h m \<and> prev_of h' m = prev_of h m"
  shows "rings h' (R(q \<mapsto> xs'))"
proof -
  have dis: "set (n # q # xs) \<inter> set (p # ys) = {}" if "R p = Some ys" "p \<noteq> q" for p ys
  proof -
    have "n \<notin> set (p # ys)" "q \<notin> set (p # ys)"
      using f that unfolding fresh_def by (metis fun_upd_other)+
    moreover have "set xs \<inter> set (p # ys) = {}"
      using q rings_disjoint [OF R, of q xs p ys] that by auto
    ultimately show ?thesis by auto
  qed
  have "dlist h' p ys" if "R p = Some ys" "p \<noteq> q" for p ys
  proof -
    have "dlist h' p ys = dlist h p ys"
      using dis [OF that] frame by (intro dlist_cong) blast
    then show ?thesis using ringsD [OF R that(1)] by simp
  qed
  moreover have "set (q # xs') \<inter> set (p # ys) = {}" if "R p = Some ys" "p \<noteq> q" for p ys
    using dis [OF that] sub by auto
  moreover have "set (p # ys) \<inter> set (r # zs) = {}"
    if "R p = Some ys" "R r = Some zs" "p \<noteq> r" for p r ys zs
    using rings_disjoint [OF R] that by blast
  moreover have "set (p # ys) \<inter> set (q # xs') = {}" if "R p = Some ys" "p \<noteq> q" for p ys
    using dis [OF that] sub by auto
  ultimately show ?thesis
    using d unfolding rings_def by (simp only: fun_upd_apply split: if_splits) blast
qed

section \<open>The contract of the list operations\<close>

lemma rings_INIT_LIST_HEAD:
  assumes "rings h R" and "fresh (R(n := None)) n"
  shows "\<exists>h'. INIT_LIST_HEAD (Some n) h = Some h' \<and> rings h' (R(n \<mapsto> []))"
proof -
  let ?h = "h\<lparr>next_of := (next_of h)(n := Some n), prev_of := (prev_of h)(n := Some n)\<rparr>"
  have "rings ?h ((R(n := None))(n \<mapsto> []))"
    by (rule rings_update [OF rings_forget [OF assms(1)], where n = n and xs = "[]"])
      (use assms(2) in \<open>auto simp: dlist_Nil\<close>)
  then show ?thesis by (simp add: INIT_LIST_HEAD_eq)
qed

lemma rings_list_add_tail:
  assumes "rings h R" and "R q = Some xs" and "fresh R n"
  shows "\<exists>h'. list_add_tail (Some n) (Some q) h = Some h' \<and> rings h' (R(q \<mapsto> xs @ [n]))"
proof -
  have "n \<notin> set (q # xs)" using assms(2,3) by (auto simp: fresh_def)
  with ringsD [OF assms(1,2)] obtain h' where
    h': "list_add_tail (Some n) (Some q) h = Some h'" "dlist h' q (xs @ [n])"
      "\<And>m. m \<notin> set (n # q # xs) \<Longrightarrow> next_of h' m = next_of h m \<and> prev_of h' m = prev_of h m"
    by (rule list_add_tail_dlist) blast
  have "rings h' (R(q \<mapsto> xs @ [n]))"
    by (rule rings_update [OF assms(1) h'(2), where n = n and xs = xs])
      (use assms h'(3) fresh_head [OF assms(1,2)] in \<open>auto simp: fresh_forget\<close>)
  with h'(1) show ?thesis by blast
qed

lemma rings_list_del:
  assumes "rings h R" and "R q = Some (xs @ n # ys)"
  shows "\<exists>h'. list_del (Some n) h = Some h' \<and> rings h' (R(q \<mapsto> xs @ ys)) \<and>
    next_of h' n = None \<and> prev_of h' n = None"
proof -
  from ringsD [OF assms] obtain h' where
    h': "list_del (Some n) h = Some h'" "dlist h' q (xs @ ys)"
      "next_of h' n = None" "prev_of h' n = None"
      "\<And>m. m \<notin> set (q # xs @ n # ys) \<Longrightarrow> next_of h' m = next_of h m \<and> prev_of h' m = prev_of h m"
    by (rule list_del_dlist) blast
  have f: "fresh (R(q := None)) n"
    using fresh_forget [OF fresh_after_del [OF assms], of q] by simp
  have "rings h' (R(q \<mapsto> xs @ ys))"
    by (rule rings_update [OF assms(1) h'(2), where n = n and xs = "xs @ n # ys"])
      (use assms f h'(5) fresh_head [OF assms] in auto)
  with h' show ?thesis by blast
qed

lemma rings_list_del_alone:
  assumes "rings h R" and "R n = Some []"
  shows "\<exists>h'. list_del (Some n) h = Some h' \<and> rings h' (R(n := None))"
proof -
  let ?h = "h\<lparr>next_of := (next_of h)(n := None), prev_of := (prev_of h)(n := None)\<rparr>"
  have n: "next_of h n = Some n" "prev_of h n = Some n"
    using ringsD [OF assms] by (auto simp: dlist_Nil)
  then have "list_del (Some n) h = Some ?h"
    by (simp add: list_del_def list_del_between_def)
  moreover have "dlist ?h q xs" if "(R(n := None)) q = Some xs" for q xs
  proof -
    have q: "R q = Some xs" "q \<noteq> n" using that by (auto split: if_splits)
    have "n \<notin> set (q # xs)" using rings_disjoint [OF assms q(1)] q(2) by auto
    then have "dlist ?h q xs = dlist h q xs" by (intro dlist_cong) auto
    then show ?thesis using ringsD [OF assms(1) q(1)] by simp
  qed
  then have "rings ?h (R(n := None))"
    using rings_forget [OF assms(1), of n] unfolding rings_def by blast
  ultimately show ?thesis by blast
qed

text \<open>
  What the process queues and the family lists rely on. \<open>R\<close> maps every list head to the
  sequence of its entries. A client never looks at a pointer: it calls the six operations
  and reasons about the sequences.
\<close>

locale list_ops =
  fixes repr :: "'h \<Rightarrow> ('n \<rightharpoonup> 'n list) \<Rightarrow> bool"
    and init :: "'n option \<Rightarrow> 'h \<Rightarrow> 'h option"
    and add_tail :: "'n option \<Rightarrow> 'n option \<Rightarrow> 'h \<Rightarrow> 'h option"
    and del :: "'n option \<Rightarrow> 'h \<Rightarrow> 'h option"
    and is_empty :: "'n option \<Rightarrow> 'h \<Rightarrow> bool option"
    and first :: "'n option \<Rightarrow> 'h \<Rightarrow> 'n option option"
    and for_each :: "'n option \<Rightarrow> 'h \<Rightarrow> 'n list option"
  assumes init: "repr h R \<Longrightarrow> fresh (R(n := None)) n \<Longrightarrow>
      \<exists>h'. init (Some n) h = Some h' \<and> repr h' (R(n \<mapsto> []))"
    and add_tail: "repr h R \<Longrightarrow> R q = Some xs \<Longrightarrow> fresh R n \<Longrightarrow>
      \<exists>h'. add_tail (Some n) (Some q) h = Some h' \<and> repr h' (R(q \<mapsto> xs @ [n]))"
    and del: "repr h R \<Longrightarrow> R q = Some (xs @ n # ys) \<Longrightarrow>
      \<exists>h'. del (Some n) h = Some h' \<and> repr h' (R(q \<mapsto> xs @ ys))"
    and del_alone: "repr h R \<Longrightarrow> R n = Some [] \<Longrightarrow>
      \<exists>h'. del (Some n) h = Some h' \<and> repr h' (R(n := None))"
    and is_empty: "repr h R \<Longrightarrow> R q = Some xs \<Longrightarrow> is_empty (Some q) h = Some (xs = [])"
    and first: "repr h R \<Longrightarrow> R q = Some (x # xs) \<Longrightarrow> first (Some q) h = Some (Some x)"
    and for_each: "repr h R \<Longrightarrow> R q = Some xs \<Longrightarrow> for_each (Some q) h = Some xs"
    and forget: "repr h R \<Longrightarrow> repr h (R(n := None))"
    and disjoint: "repr h R \<Longrightarrow> R q = Some xs \<Longrightarrow> R p = Some ys \<Longrightarrow> q \<noteq> p \<Longrightarrow>
      set (q # xs) \<inter> set (p # ys) = {}"
    and distinct: "repr h R \<Longrightarrow> R q = Some xs \<Longrightarrow> distinct (q # xs)"
begin

lemma fresh_removed:
  assumes "repr h R" and "R q = Some (xs @ n # ys)"
  shows "fresh (R(q \<mapsto> xs @ ys)) n"
  unfolding fresh_def
proof (intro allI impI)
  fix p zs assume p: "(R(q \<mapsto> xs @ ys)) p = Some zs"
  show "n \<notin> set (p # zs)"
  proof (cases "p = q")
    case True
    with p distinct [OF assms] show ?thesis by auto
  next
    case False
    with p disjoint [OF assms, of p zs] show ?thesis by auto
  qed
qed

lemma fresh_dropped_head: "repr h R \<Longrightarrow> R n = Some xs \<Longrightarrow> fresh (R(n := None)) n"
  unfolding fresh_def using disjoint [of h R n xs] by (auto split: if_splits)

text \<open>Moving an entry from one list to the tail of another.\<close>

lemma move_tail:
  assumes "repr h R" and "R p = Some (xs @ n # ys)" and "R q = Some zs" and "p \<noteq> q"
  shows "\<exists>h1 h'. del (Some n) h = Some h1 \<and> add_tail (Some n) (Some q) h1 = Some h' \<and>
    repr h' (R(p \<mapsto> xs @ ys, q \<mapsto> zs @ [n]))"
proof -
  from del [OF assms(1,2)] obtain h1 where
    h1: "del (Some n) h = Some h1" "repr h1 (R(p \<mapsto> xs @ ys))" by blast
  have "(R(p \<mapsto> xs @ ys)) q = Some zs" using assms(3,4) by simp
  from add_tail [OF h1(2) this fresh_removed [OF assms(1,2)]] h1(1) show ?thesis by blast
qed

text \<open>Popping the first entry.\<close>

lemma pop_front:
  assumes "repr h R" and "R q = Some (n # xs)"
  shows "first (Some q) h = Some (Some n)" and "is_empty (Some q) h = Some False"
    and "\<exists>h'. del (Some n) h = Some h' \<and> repr h' (R(q \<mapsto> xs)) \<and> fresh (R(q \<mapsto> xs)) n"
  using first [OF assms] is_empty [OF assms] del [of h R q "[]" n xs] assms
    fresh_removed [of h R q "[]" n xs] by auto

text \<open>Linking a node whose own link field was initialised to the empty ring.\<close>

lemma add_tail_initialised:
  assumes "repr h R" and "R n = Some []" and "R q = Some xs" and "n \<noteq> q"
  shows "\<exists>h'. add_tail (Some n) (Some q) h = Some h' \<and> repr h' (R(n := None, q \<mapsto> xs @ [n]))"
  using add_tail [OF forget [OF assms(1)], of n q xs n] fresh_dropped_head [OF assms(1,2)]
    assms(3,4) by auto

end

interpretation zl: list_ops rings INIT_LIST_HEAD list_add_tail list_del list_empty list_first
  list_for_each
proof (unfold_locales, goal_cases)
  case 1 then show ?case by (rule rings_INIT_LIST_HEAD)
next
  case 2 then show ?case by (rule rings_list_add_tail)
next
  case 3 from rings_list_del [OF 3] show ?case by blast
next
  case 4 then show ?case by (rule rings_list_del_alone)
next
  case 5 then show ?case by (rule list_empty_dlist [OF ringsD])
next
  case 6 then show ?case by (rule list_first_dlist [OF ringsD])
next
  case 7 then show ?case by (rule list_for_each_dlist [OF ringsD])
next
  case 8 then show ?case by (rule rings_forget)
next
  case 9 then show ?case by (rule rings_disjoint)
next
  case 10 from ringsD [OF 10] show ?case by (simp add: dlist_def)
qed

section \<open>Properties\<close>

text \<open>Property C8 (list_move_refines). Unlinking an entry from the middle of one list and appending
  it to another never dereferences NULL, has exactly the effect of the two operations on
  the represented sequences, leaves every other list alone, and a later traversal with
  \<open>list_for_each\<close> ends and visits the target list in order.\<close>

theorem list_move_refines:
  assumes "rings h R" and "R p = Some (xs @ n # ys)" and "R q = Some zs" and "p \<noteq> q"
  shows "\<exists>h1 h'. list_del (Some n) h = Some h1 \<and> list_add_tail (Some n) (Some q) h1 = Some h' \<and>
    rings h' (R(p \<mapsto> xs @ ys, q \<mapsto> zs @ [n])) \<and>
    list_for_each (Some q) h' = Some (zs @ [n]) \<and> list_for_each (Some p) h' = Some (xs @ ys)"
proof -
  let ?R = "R(p \<mapsto> xs @ ys, q \<mapsto> zs @ [n])"
  from zl.move_tail [OF assms] obtain h1 h' where
    h: "list_del (Some n) h = Some h1" "list_add_tail (Some n) (Some q) h1 = Some h'" "rings h' ?R"
    by blast
  have "list_for_each (Some q) h' = Some (zs @ [n])" "list_for_each (Some p) h' = Some (xs @ ys)"
    using zl.for_each [OF h(3), of q] zl.for_each [OF h(3), of p] assms(4) by simp_all
  with h show ?thesis by blast
qed

definition two_lists :: "nat list_head" where
  "two_lists = \<lparr>next_of = [0 \<mapsto> 2, 2 \<mapsto> 3, 3 \<mapsto> 0, 1 \<mapsto> 1], prev_of = [0 \<mapsto> 3, 3 \<mapsto> 2, 2 \<mapsto> 0, 1 \<mapsto> 1]\<rparr>"

theorem list_move_refines_witness:
  "\<exists>h1 h'. list_del (Some 3) two_lists = Some h1 \<and> list_add_tail (Some 3) (Some 1) h1 = Some h' \<and>
    list_for_each (Some 0) h' = Some [2] \<and> list_for_each (Some 1) h' = Some [3]"
proof -
  have "rings two_lists [0 \<mapsto> [2, 3], 1 \<mapsto> []]"
    unfolding rings_def dlist_def two_lists_def by (auto split: if_splits)
  from list_move_refines [OF this, of 0 "[2]" 3 "[]" 1 "[]"] show ?thesis by auto
qed

end
