(* ===== verification/Zeos_Mm.thy ===== *)
theory Zeos_Mm
  imports Zeos_Prelude
begin

text \<open>
  Physical frames, page tables and address translation: \<open>project/mm.c\<close> with the constants
  of \<open>include/mm_address.h\<close>.

  \<open>phys_mem\<close> is the byte map of frames, \<open>pagusr_table\<close> the page table of every task slot
  and \<open>dir_pages\<close> its directory. A page table is addressed by its index; the frame number
  that a directory entry stores is \<open>pagusr_frame + index\<close>, where \<open>pagusr_frame\<close> stands for
  the address the linker gives the array. \<open>ram\<close> holds the words of every frame. The
  translation look-aside buffer caches translations until \<open>cr3\<close> is loaded, as the
  processor does: a change of a page table entry is not visible through a cached one.
\<close>

section \<open>Constants of mm_address.h and mm.h\<close>

abbreviation (input) NR_TASKS :: nat where "NR_TASKS \<equiv> 25"
abbreviation (input) TOTAL_PAGES :: nat where "TOTAL_PAGES \<equiv> 1024"
abbreviation (input) NUM_PAG_KERNEL :: nat where "NUM_PAG_KERNEL \<equiv> 256"
abbreviation (input) NUM_PAG_CODE :: nat where "NUM_PAG_CODE \<equiv> 30"
abbreviation (input) NUM_PAG_DATA :: nat where "NUM_PAG_DATA \<equiv> 24"
abbreviation (input) PAG_LOG_INIT_DATA :: nat where "PAG_LOG_INIT_DATA \<equiv> 256"
abbreviation (input) PAG_LOG_INIT_CODE :: nat where "PAG_LOG_INIT_CODE \<equiv> PAG_LOG_INIT_DATA + NUM_PAG_DATA"
abbreviation (input) USER_FIRST_PAGE :: nat where "USER_FIRST_PAGE \<equiv> 256"
abbreviation (input) PAGE_SIZE :: nat where "PAGE_SIZE \<equiv> 4096"
abbreviation (input) ENTRY_DIR_PAGES :: nat where "ENTRY_DIR_PAGES \<equiv> 0"
abbreviation (input) THREAD_STACK_REGION_PAGES :: nat where "THREAD_STACK_REGION_PAGES \<equiv> 8"
abbreviation (input) THREAD_STACK_INITIAL_PAGES :: nat where "THREAD_STACK_INITIAL_PAGES \<equiv> 1"
abbreviation (input) THREAD_STACK_BASE_PAGE :: nat where
  "THREAD_STACK_BASE_PAGE \<equiv> PAG_LOG_INIT_CODE + NUM_PAG_CODE"
abbreviation (input) TEMP_STACK_MAPPING_PAGE :: nat where
  "TEMP_STACK_MAPPING_PAGE \<equiv> TOTAL_PAGES - THREAD_STACK_INITIAL_PAGES - 1"
abbreviation (input) FORK_TEMP_MAPPING_PAGE :: nat where
  "FORK_TEMP_MAPPING_PAGE \<equiv> TOTAL_PAGES - NUM_PAG_DATA - 2"
abbreviation (input) FREE_FRAME :: u8 where "FREE_FRAME \<equiv> 0"
abbreviation (input) USED_FRAME :: u8 where "USED_FRAME \<equiv> 1"

section \<open>State\<close>

text \<open>\<open>pbase_addr\<close> is a 20-bit field: every assignment to it is reduced. \<open>other_bits\<close> are
  the caching, accessed, dirty and available bits, which the source only ever clears.\<close>

record page_table_entry =
  present :: bool
  rw :: bool
  user :: bool
  other_bits :: nat
  pbase_addr :: nat

record mm_state =
  phys_mem :: "nat \<Rightarrow> u8"
  dir_pages :: "nat \<Rightarrow> nat \<Rightarrow> page_table_entry"
  pagusr_table :: "nat \<Rightarrow> nat \<Rightarrow> page_table_entry"
  pagusr_frame :: nat
  ram :: "nat \<Rightarrow> nat \<Rightarrow> u32"
  cr3 :: nat
  tlb :: "nat \<rightharpoonup> nat"
  paging :: bool

definition entry_zero :: page_table_entry where
  "entry_zero = \<lparr>present = False, rw = False, user = False, other_bits = 0, pbase_addr = 0\<rparr>"

text \<open>An \<open>int\<close> of the source passed where an \<open>unsigned\<close> is expected.\<close>

definition unsigned_of :: "int \<Rightarrow> nat" where
  "unsigned_of i = nat (i mod 2 ^ 32)"

section \<open>Page table entries\<close>

definition pt_write :: "nat \<Rightarrow> nat \<Rightarrow> page_table_entry \<Rightarrow> mm_state \<Rightarrow> mm_state" where
  "pt_write PT page e m =
     m\<lparr>pagusr_table := (pagusr_table m)(PT := (pagusr_table m PT)(page := e))\<rparr>"

definition set_ss_pag :: "nat \<Rightarrow> nat \<Rightarrow> nat \<Rightarrow> mm_state \<Rightarrow> mm_state" where
  "set_ss_pag PT page frame m =
     pt_write PT page
       (entry_zero\<lparr>pbase_addr := frame mod 2 ^ 20, user := True, rw := True, present := True\<rparr>) m"

definition del_ss_pag :: "nat \<Rightarrow> nat \<Rightarrow> mm_state \<Rightarrow> mm_state" where
  "del_ss_pag PT logical_page m = pt_write PT logical_page entry_zero m"

definition get_frame :: "nat \<Rightarrow> nat \<Rightarrow> mm_state \<Rightarrow> nat" where
  "get_frame PT logical_page m = pbase_addr (pagusr_table m PT logical_page)"

text \<open>\<open>get_PT\<close> follows the first entry of the task's directory.\<close>

definition get_PT :: "nat \<Rightarrow> mm_state \<Rightarrow> nat" where
  "get_PT dir m = pbase_addr (dir_pages m dir ENTRY_DIR_PAGES) - pagusr_frame m"

definition set_cr3 :: "nat \<Rightarrow> mm_state \<Rightarrow> mm_state" where
  "set_cr3 dir m = m\<lparr>cr3 := dir, tlb := Map.empty\<rparr>"

section \<open>Frames\<close>

definition init_frames :: "mm_state \<Rightarrow> mm_state" where
  "init_frames m =
     (let m = fold (\<lambda>i m. m\<lparr>phys_mem := (phys_mem m)(i := FREE_FRAME)\<rparr>) [0..<TOTAL_PAGES] m
      in fold (\<lambda>i m. m\<lparr>phys_mem := (phys_mem m)(i := USED_FRAME)\<rparr>) [0..<NUM_PAG_KERNEL] m)"

text \<open>The scan of \<open>alloc_frame\<close>: every second frame only, so frames of odd number stay holes.\<close>

function alloc_scan :: "nat \<Rightarrow> mm_state \<Rightarrow> int \<times> mm_state" where
  "alloc_scan i m =
     (if i < TOTAL_PAGES then
        if phys_mem m i = FREE_FRAME
        then (int i, m\<lparr>phys_mem := (phys_mem m)(i := USED_FRAME)\<rparr>)
        else alloc_scan (i + 2) m
      else (-1, m))"
  by pat_completeness auto
termination
  by (relation "measure (\<lambda>(i, m). TOTAL_PAGES - i)") auto

declare alloc_scan.simps [simp del]

definition alloc_frame :: "mm_state \<Rightarrow> int \<times> mm_state" where
  "alloc_frame m = alloc_scan NUM_PAG_KERNEL m"

definition free_frame :: "nat \<Rightarrow> mm_state \<Rightarrow> mm_state" where
  "free_frame frame m =
     (if frame > NUM_PAG_KERNEL \<and> frame < TOTAL_PAGES
      then m\<lparr>phys_mem := (phys_mem m)(frame := FREE_FRAME)\<rparr> else m)"

section \<open>Initialisation\<close>

definition init_dir_pages :: "mm_state \<Rightarrow> mm_state" where
  "init_dir_pages m =
     fold (\<lambda>i m. m\<lparr>dir_pages := (dir_pages m)(i := (dir_pages m i)(ENTRY_DIR_PAGES :=
         entry_zero\<lparr>pbase_addr := (pagusr_frame m + i) mod 2 ^ 20,
                     user := True, rw := True, present := True\<rparr>))\<rparr>)
       [0..<NR_TASKS] m"

definition init_table_pages :: "mm_state \<Rightarrow> mm_state" where
  "init_table_pages m =
     fold (\<lambda>j m.
         let m = fold (\<lambda>i m. pt_write j i entry_zero m) [0..<TOTAL_PAGES] m
         in fold (\<lambda>i m. pt_write j i
                ((pagusr_table m j i)\<lparr>pbase_addr := i, rw := True, present := True\<rparr>) m)
              [1..<NUM_PAG_KERNEL] m)
       [0..<NR_TASKS] m"

definition set_user_page :: "nat \<Rightarrow> bool \<Rightarrow> nat \<Rightarrow> mm_state \<Rightarrow> mm_state" where
  "set_user_page PT writable page m =
     (let (new_ph_pag, m) = alloc_frame m
      in pt_write PT page (entry_zero\<lparr>pbase_addr := unsigned_of new_ph_pag mod 2 ^ 20,
            user := True, rw := writable, present := True\<rparr>) m)"

definition set_user_pages :: "nat \<Rightarrow> mm_state \<Rightarrow> mm_state" where
  "set_user_pages dir m =
     (let process_PT = get_PT dir m;
          m = fold (\<lambda>pag. set_user_page process_PT False (PAG_LOG_INIT_CODE + pag))
                [0..<NUM_PAG_CODE] m
      in fold (\<lambda>pag. set_user_page process_PT True (PAG_LOG_INIT_DATA + pag))
           [0..<NUM_PAG_DATA] m)"

definition free_user_pages :: "nat \<Rightarrow> mm_state \<Rightarrow> mm_state" where
  "free_user_pages dir m =
     (let process_PT = get_PT dir m in
      fold (\<lambda>pag m. del_ss_pag process_PT (PAG_LOG_INIT_DATA + pag)
              (free_frame (get_frame process_PT (PAG_LOG_INIT_DATA + pag) m) m))
        [0..<NUM_PAG_DATA] m)"

definition set_pe_flag :: "mm_state \<Rightarrow> mm_state" where
  "set_pe_flag m = m\<lparr>paging := True\<rparr>"

definition init_mm :: "mm_state \<Rightarrow> mm_state" where
  "init_mm m = set_pe_flag (set_cr3 0 (init_dir_pages (init_frames (init_table_pages m))))"

section \<open>Translation\<close>

text \<open>An access to a page under the loaded directory: a cached translation is used as it is;
  otherwise the entry must be present and is cached. \<open>None\<close> is a page fault.\<close>

definition translate :: "nat \<Rightarrow> mm_state \<Rightarrow> (nat \<times> mm_state) option" where
  "translate page m =
     (case tlb m page of
        Some frame \<Rightarrow> Some (frame, m)
      | None \<Rightarrow>
          let e = pagusr_table m (get_PT (cr3 m) m) page
          in if page < TOTAL_PAGES \<and> present e
             then Some (pbase_addr e, m\<lparr>tlb := (tlb m)(page \<mapsto> pbase_addr e)\<rparr>)
             else None)"

text \<open>\<open>copy_data\<close> between two page-aligned addresses for \<open>PAGE_SIZE\<close> bytes.\<close>

definition copy_page :: "nat \<Rightarrow> nat \<Rightarrow> mm_state \<Rightarrow> mm_state option" where
  "copy_page src dst m = do {
     (fs, m) \<leftarrow> translate src m;
     (fd, m) \<leftarrow> translate dst m;
     Some (m\<lparr>ram := (ram m)(fd := ram m fs)\<rparr>) }"

definition store_word :: "nat \<Rightarrow> nat \<Rightarrow> u32 \<Rightarrow> mm_state \<Rightarrow> mm_state option" where
  "store_word page w v m = do {
     (f, m) \<leftarrow> translate page m;
     Some (m\<lparr>ram := (ram m)(f := (ram m f)(w := v))\<rparr>) }"

section \<open>Page table lemmas\<close>

lemma pt_write_simps [simp]:
  "pagusr_table (pt_write PT p e m) PT' p' = (if PT' = PT \<and> p' = p then e else pagusr_table m PT' p')"
  "phys_mem (pt_write PT p e m) = phys_mem m" "dir_pages (pt_write PT p e m) = dir_pages m"
  "pagusr_frame (pt_write PT p e m) = pagusr_frame m" "ram (pt_write PT p e m) = ram m"
  "cr3 (pt_write PT p e m) = cr3 m" "tlb (pt_write PT p e m) = tlb m"
  "paging (pt_write PT p e m) = paging m"
  by (simp_all add: pt_write_def)

lemma set_ss_pag_simps [simp]:
  "pagusr_table (set_ss_pag PT p f m) PT' p' =
     (if PT' = PT \<and> p' = p then \<lparr>present = True, rw = True, user = True, other_bits = 0,
        pbase_addr = f mod 2 ^ 20\<rparr> else pagusr_table m PT' p')"
  "phys_mem (set_ss_pag PT p f m) = phys_mem m" "dir_pages (set_ss_pag PT p f m) = dir_pages m"
  "pagusr_frame (set_ss_pag PT p f m) = pagusr_frame m" "ram (set_ss_pag PT p f m) = ram m"
  "cr3 (set_ss_pag PT p f m) = cr3 m" "tlb (set_ss_pag PT p f m) = tlb m"
  "paging (set_ss_pag PT p f m) = paging m"
  by (simp_all add: set_ss_pag_def entry_zero_def)

lemma del_ss_pag_simps [simp]:
  "pagusr_table (del_ss_pag PT p m) PT' p' =
     (if PT' = PT \<and> p' = p then entry_zero else pagusr_table m PT' p')"
  "phys_mem (del_ss_pag PT p m) = phys_mem m" "dir_pages (del_ss_pag PT p m) = dir_pages m"
  "pagusr_frame (del_ss_pag PT p m) = pagusr_frame m" "ram (del_ss_pag PT p m) = ram m"
  "cr3 (del_ss_pag PT p m) = cr3 m" "tlb (del_ss_pag PT p m) = tlb m"
  "paging (del_ss_pag PT p m) = paging m"
  by (simp_all add: del_ss_pag_def)

lemma get_frame_set_ss_pag [simp]:
  "get_frame PT' p' (set_ss_pag PT p f m) =
     (if PT' = PT \<and> p' = p then f mod 2 ^ 20 else get_frame PT' p' m)"
  by (simp add: get_frame_def)

lemma get_frame_del_ss_pag [simp]:
  "get_frame PT' p' (del_ss_pag PT p m) = (if PT' = PT \<and> p' = p then 0 else get_frame PT' p' m)"
  by (simp add: get_frame_def entry_zero_def)

lemma get_PT_cong:
  "dir_pages m' = dir_pages m \<Longrightarrow> pagusr_frame m' = pagusr_frame m \<Longrightarrow> get_PT d m' = get_PT d m"
  by (simp add: get_PT_def)

lemma get_PT_simps [simp]:
  "get_PT d (pt_write PT p e m) = get_PT d m" "get_PT d (set_ss_pag PT p f m) = get_PT d m"
  "get_PT d (del_ss_pag PT p m) = get_PT d m" "get_PT d (m\<lparr>phys_mem := x\<rparr>) = get_PT d m"
  "get_PT d (m\<lparr>ram := y\<rparr>) = get_PT d m" "get_PT d (m\<lparr>tlb := z\<rparr>) = get_PT d m"
  "get_PT d (m\<lparr>cr3 := c\<rparr>) = get_PT d m"
  by (rule get_PT_cong; simp)+

lemma set_cr3_simps [simp]:
  "cr3 (set_cr3 d m) = d" "tlb (set_cr3 d m) = Map.empty" "phys_mem (set_cr3 d m) = phys_mem m"
  "dir_pages (set_cr3 d m) = dir_pages m" "pagusr_table (set_cr3 d m) = pagusr_table m"
  "pagusr_frame (set_cr3 d m) = pagusr_frame m" "ram (set_cr3 d m) = ram m"
  "get_PT e (set_cr3 d m) = get_PT e m" "get_frame t q (set_cr3 d m) = get_frame t q m"
  by (simp_all add: set_cr3_def get_frame_def)

section \<open>The frame allocator\<close>

definition avail :: "mm_state \<Rightarrow> nat set" where
  "avail m = {k. NUM_PAG_KERNEL \<le> k \<and> k < TOTAL_PAGES \<and> even k \<and> phys_mem m k = FREE_FRAME}"

definition mark_used :: "nat \<Rightarrow> mm_state \<Rightarrow> mm_state" where
  "mark_used k m = m\<lparr>phys_mem := (phys_mem m)(k := USED_FRAME)\<rparr>"

lemma finite_avail [simp]: "finite (avail m)"
  by (rule finite_subset [of _ "{..<TOTAL_PAGES}"]) (auto simp: avail_def)

lemma alloc_scan_result:
  "alloc_scan i m =
     (if \<exists>k \<ge> i. k < TOTAL_PAGES \<and> even (k - i) \<and> phys_mem m k = FREE_FRAME
      then let k = (LEAST k. i \<le> k \<and> k < TOTAL_PAGES \<and> even (k - i) \<and> phys_mem m k = FREE_FRAME)
           in (int k, mark_used k m)
      else (-1, m))"
proof (induction i m rule: alloc_scan.induct)
  case (1 i m)
  let ?P = "\<lambda>i k. i \<le> k \<and> k < TOTAL_PAGES \<and> even (k - i) \<and> phys_mem m k = FREE_FRAME"
  consider (out) "\<not> i < TOTAL_PAGES" | (hit) "i < TOTAL_PAGES" "phys_mem m i = FREE_FRAME"
    | (skip) "i < TOTAL_PAGES" "phys_mem m i \<noteq> FREE_FRAME" by blast
  then show ?case
  proof cases
    case out
    then show ?thesis by (subst alloc_scan.simps) auto
  next
    case hit
    have "(LEAST k. ?P i k) = i" by (rule Least_equality) (use hit in auto)
    with hit show ?thesis by (subst alloc_scan.simps) (auto simp: mark_used_def)
  next
    case skip
    have eq: "?P (i + 2) k = ?P i k" for k
    proof
      assume "?P (i + 2) k"
      moreover from this have "k - i = Suc (Suc (k - (i + 2)))" by arith
      ultimately show "?P i k" by auto
    next
      assume k: "?P i k"
      with skip have "k \<noteq> i" by auto
      moreover have "k \<noteq> Suc i" using k by auto
      ultimately have "i + 2 \<le> k" using k by arith
      moreover from this have "k - i = Suc (Suc (k - (i + 2)))" by arith
      ultimately show "?P (i + 2) k" using k by auto
    qed
    have "alloc_scan i m = alloc_scan (i + 2) m"
      using skip by (subst alloc_scan.simps) simp
    also have "\<dots> = (if \<exists>k. ?P (i + 2) k then let k = (LEAST k. ?P (i + 2) k) in (int k, mark_used k m)
        else (-1, m))"
      using "1.IH" skip by simp
    finally show ?thesis unfolding eq by simp
  qed
qed

lemma alloc_frame_eq:
  "alloc_frame m =
     (if avail m = {} then (-1, m) else (int (Min (avail m)), mark_used (Min (avail m)) m))"
proof -
  have a: "avail m = {k. NUM_PAG_KERNEL \<le> k \<and> k < TOTAL_PAGES \<and> even (k - NUM_PAG_KERNEL) \<and>
      phys_mem m k = FREE_FRAME}"
    by (auto simp: avail_def)
  have "(LEAST k. k \<in> avail m) = Min (avail m)" if "avail m \<noteq> {}"
    using that by (intro Least_equality) (auto simp: Min_in)
  then show ?thesis
    unfolding alloc_frame_def by (subst alloc_scan_result) (auto simp: a Let_def)
qed

lemma avail_mark_used: "avail (mark_used k m) = avail m - {k}"
  by (auto simp: avail_def mark_used_def)

lemma avail_free_frame:
  "avail (free_frame k m) =
     (if NUM_PAG_KERNEL < k \<and> k < TOTAL_PAGES \<and> even k then insert k (avail m) else avail m)"
  by (auto simp: avail_def free_frame_def)

definition mm_rest :: "mm_state \<Rightarrow> mm_state" where
  "mm_rest m = m\<lparr>phys_mem := (\<lambda>_. 0)\<rparr>"

lemma mm_rest_mark_used [simp]: "mm_rest (mark_used k m) = mm_rest m"
  by (simp add: mm_rest_def mark_used_def)

lemma mm_rest_free_frame [simp]: "mm_rest (free_frame k m) = mm_rest m"
  by (simp add: mm_rest_def free_frame_def)

lemma avail_cong: "phys_mem m' = phys_mem m \<Longrightarrow> avail m' = avail m"
  by (simp add: avail_def)

lemma avail_simps [simp]:
  "avail (pt_write PT p e m) = avail m" "avail (set_ss_pag PT p f m) = avail m"
  "avail (del_ss_pag PT p m) = avail m" "avail (set_cr3 d m) = avail m"
  "avail (m\<lparr>ram := r\<rparr>) = avail m" "avail (m\<lparr>tlb := l\<rparr>) = avail m"
  by (rule avail_cong; simp)+

lemma free_frame_simps [simp]:
  "pagusr_table (free_frame f m) = pagusr_table m" "dir_pages (free_frame f m) = dir_pages m"
  "pagusr_frame (free_frame f m) = pagusr_frame m" "ram (free_frame f m) = ram m"
  "cr3 (free_frame f m) = cr3 m" "tlb (free_frame f m) = tlb m"
  "get_frame PT p (free_frame f m) = get_frame PT p m" "get_PT d (free_frame f m) = get_PT d m"
  by (simp_all add: free_frame_def get_frame_def get_PT_def)

lemma mm_rest_eqD:
  assumes "mm_rest m' = mm_rest m"
  shows "pagusr_table m' = pagusr_table m" "dir_pages m' = dir_pages m"
    "pagusr_frame m' = pagusr_frame m" "ram m' = ram m" "cr3 m' = cr3 m" "tlb m' = tlb m"
    "get_frame PT p m' = get_frame PT p m" "get_PT d m' = get_PT d m"
proof -
  show "pagusr_table m' = pagusr_table m" "dir_pages m' = dir_pages m"
    "pagusr_frame m' = pagusr_frame m" "ram m' = ram m" "cr3 m' = cr3 m" "tlb m' = tlb m"
    using assms by (cases m; cases m'; simp add: mm_rest_def)+
  then show "get_frame PT p m' = get_frame PT p m" "get_PT d m' = get_PT d m"
    by (simp_all add: get_frame_def get_PT_def)
qed

lemma availD: "k \<in> avail m \<Longrightarrow> NUM_PAG_KERNEL \<le> k \<and> k < TOTAL_PAGES \<and> even k"
  by (simp add: avail_def)

text \<open>
  The contract of the allocator. \<open>avail\<close> is the set of frames the scan can still hand out,
  \<open>pool\<close> the frames that \<open>free\<close> gives back, \<open>rest\<close> everything else in the state.
\<close>

locale frame_pool =
  fixes alloc :: "'m \<Rightarrow> int \<times> 'm" and free :: "nat \<Rightarrow> 'm \<Rightarrow> 'm"
    and avail :: "'m \<Rightarrow> nat set" and pool :: "nat set" and rest :: "'m \<Rightarrow> 'r"
  assumes alloc_fail: "avail m = {} \<Longrightarrow> alloc m = (-1, m)"
    and alloc_ok: "avail m \<noteq> {} \<Longrightarrow> \<exists>k m'. alloc m = (int k, m') \<and> k \<in> avail m \<and>
      avail m' = avail m - {k} \<and> rest m' = rest m"
    and free_in: "k \<in> pool \<Longrightarrow> avail (free k m) = insert k (avail m)"
    and free_out: "k \<notin> pool \<Longrightarrow> avail (free k m) = avail m"
    and rest_free: "rest (free k m) = rest m"
    and finite_avail: "finite (avail m)"
begin

lemma alloc_cases:
  obtains (none) "avail m = {}" "alloc m = (-1, m)"
  | (one) k m' where "alloc m = (int k, m')" "k \<in> avail m" "avail m' = avail m - {k}"
      "rest m' = rest m"
  using alloc_fail alloc_ok by metis

text \<open>A failed reservation that gives everything back leaves the pool as it was.\<close>

lemma avail_free_all: "avail (fold free ks m) = avail m \<union> (set ks \<inter> pool)"
proof (induction ks arbitrary: m)
  case Nil
  then show ?case by simp
next
  case (Cons k ks)
  then show ?case by (cases "k \<in> pool") (auto simp: free_in free_out)
qed

lemma rest_free_all: "rest (fold free ks m) = rest m"
  by (induction ks arbitrary: m) (simp_all add: rest_free)

end

interpretation fp: frame_pool alloc_frame free_frame avail
  "{k. NUM_PAG_KERNEL < k \<and> k < TOTAL_PAGES \<and> even k}" mm_rest
proof (unfold_locales, goal_cases)
  case (1 m) then show ?case by (simp add: alloc_frame_eq)
next
  case (2 m)
  then have "alloc_frame m = (int (Min (avail m)), mark_used (Min (avail m)) m)"
    by (simp add: alloc_frame_eq)
  moreover have "Min (avail m) \<in> avail m" using 2 by simp
  ultimately show ?case by (simp add: avail_mark_used)
next
  case (3 k m) then show ?case by (simp add: avail_free_frame)
next
  case (4 k m) then show ?case by (auto simp: avail_free_frame)
next
  case 5 show ?case by simp
next
  case 6 show ?case by simp
qed

section \<open>Properties\<close>


text \<open>Property C19 (alloc_free_roundtrip). Freeing the frame that \<open>alloc_frame\<close> has just returned
  restores the whole memory manager state, except for the first user frame, number
  \<open>NUM_PAG_KERNEL\<close>: \<open>free_frame\<close> ignores it, so it can be allocated but never released.\<close>

theorem alloc_free_roundtrip:
  assumes "alloc_frame m = (int k, m')"
  shows "free_frame k m' = (if k = NUM_PAG_KERNEL then m' else m)"
proof -
  have ne: "avail m \<noteq> {}" and k: "k = Min (avail m)" "m' = mark_used k m"
    using assms by (auto simp: alloc_frame_eq split: if_splits)
  have "k \<in> avail m" using ne by (simp add: k(1))
  then have a: "NUM_PAG_KERNEL \<le> k" "k < TOTAL_PAGES" "phys_mem m k = FREE_FRAME" by (simp_all add: avail_def)
  then have "(phys_mem m)(k := FREE_FRAME) = phys_mem m" by (metis fun_upd_triv)
  then show ?thesis using a by (simp add: k(2) free_frame_def mark_used_def)
qed

theorem alloc_free_roundtrip_witness:
  "let m = \<lparr>phys_mem = (\<lambda>i. if i < 258 then USED_FRAME else FREE_FRAME), dir_pages = (\<lambda>_ _. entry_zero),
       pagusr_table = (\<lambda>_ _. entry_zero), pagusr_frame = 64, ram = (\<lambda>_ _. 0), cr3 = 0,
       tlb = Map.empty, paging = False\<rparr>
   in fst (alloc_frame m) = 258 \<and> free_frame 258 (snd (alloc_frame m)) = m"
proof -
  let ?m = "\<lparr>phys_mem = (\<lambda>i. if i < 258 then USED_FRAME else FREE_FRAME), dir_pages = (\<lambda>_ _. entry_zero),
       pagusr_table = (\<lambda>_ _. entry_zero), pagusr_frame = 64, ram = (\<lambda>_ _. 0), cr3 = 0,
       tlb = Map.empty, paging = False\<rparr>"
  have f: "fst (alloc_frame ?m) = 258"
    by (simp add: alloc_frame_def alloc_scan.simps [of 256] alloc_scan.simps [of 258])
  then have a: "alloc_frame ?m = (int 258, snd (alloc_frame ?m))" by (simp add: prod_eq_iff)
  from alloc_free_roundtrip [OF a] show ?thesis using f by (simp add: Let_def)
qed

end
