(* ===== verification/Zeos_Task.thy ===== *)
theory Zeos_Task
  imports Zeos_List Zeos_Mm
begin

text \<open>
  The process control block of \<open>include/sched.h\<close>, the kernel's global state and the
  operations that only touch one control block: thread identifiers, page directory
  assignment (\<open>sched.c\<close>) and the keyboard fields (\<open>keyboard.c\<close>).

  A \<open>struct task_struct *\<close> is the index of its slot in \<open>tasks[]\<close>. The five \<open>list_head\<close>
  members of a slot and the four global queue heads are the nodes \<open>lnode\<close> of one pointer
  store. The kernel stack of slot \<open>t\<close> is the memory at \<open>stack_addr k t i\<close>; \<open>kmem\<close> holds the
  words of kernel memory by address.
\<close>

section \<open>Constants of sched.h, sys.h, keyboard.h and errno.h\<close>

abbreviation (input) KERNEL_STACK_SIZE :: nat where "KERNEL_STACK_SIZE \<equiv> 1024"
abbreviation (input) DEFAULT_QUANTUM :: int where "DEFAULT_QUANTUM \<equiv> 1"
abbreviation (input) MAX_TIDS_PER_PROCESS :: nat where "MAX_TIDS_PER_PROCESS \<equiv> 10"
abbreviation (input) KBD_CTX_SIZE :: nat where "KBD_CTX_SIZE \<equiv> 16"
abbreviation (input) KBD_AUX_STACK_PAGE :: nat where "KBD_AUX_STACK_PAGE \<equiv> TOTAL_PAGES - 3"

abbreviation (input) STACK_EBX :: nat where "STACK_EBX \<equiv> KERNEL_STACK_SIZE - 16"
abbreviation (input) STACK_ECX :: nat where "STACK_ECX \<equiv> KERNEL_STACK_SIZE - 15"
abbreviation (input) STACK_EDX :: nat where "STACK_EDX \<equiv> KERNEL_STACK_SIZE - 14"
abbreviation (input) STACK_ESI :: nat where "STACK_ESI \<equiv> KERNEL_STACK_SIZE - 13"
abbreviation (input) STACK_EDI :: nat where "STACK_EDI \<equiv> KERNEL_STACK_SIZE - 12"
abbreviation (input) STACK_EBP :: nat where "STACK_EBP \<equiv> KERNEL_STACK_SIZE - 11"
abbreviation (input) STACK_EAX :: nat where "STACK_EAX \<equiv> KERNEL_STACK_SIZE - 10"
abbreviation (input) STACK_DS :: nat where "STACK_DS \<equiv> KERNEL_STACK_SIZE - 9"
abbreviation (input) STACK_ES :: nat where "STACK_ES \<equiv> KERNEL_STACK_SIZE - 8"
abbreviation (input) STACK_FS :: nat where "STACK_FS \<equiv> KERNEL_STACK_SIZE - 7"
abbreviation (input) STACK_GS :: nat where "STACK_GS \<equiv> KERNEL_STACK_SIZE - 6"
abbreviation (input) STACK_USER_EIP :: nat where "STACK_USER_EIP \<equiv> KERNEL_STACK_SIZE - 5"
abbreviation (input) STACK_USER_CS :: nat where "STACK_USER_CS \<equiv> KERNEL_STACK_SIZE - 4"
abbreviation (input) STACK_EFLAGS :: nat where "STACK_EFLAGS \<equiv> KERNEL_STACK_SIZE - 3"
abbreviation (input) STACK_USER_ESP :: nat where "STACK_USER_ESP \<equiv> KERNEL_STACK_SIZE - 2"
abbreviation (input) STACK_USER_SS :: nat where "STACK_USER_SS \<equiv> KERNEL_STACK_SIZE - 1"
abbreviation (input) STACK_RET_ADDR :: nat where "STACK_RET_ADDR \<equiv> KERNEL_STACK_SIZE - 18"
abbreviation (input) STACK_FAKE_EBP :: nat where "STACK_FAKE_EBP \<equiv> KERNEL_STACK_SIZE - 19"

abbreviation (input) ESRCH :: int where "ESRCH \<equiv> 3"
abbreviation (input) EBADF :: int where "EBADF \<equiv> 9"
abbreviation (input) EAGAIN :: int where "EAGAIN \<equiv> 11"
abbreviation (input) ENOMEM :: int where "ENOMEM \<equiv> 12"
abbreviation (input) EACCES :: int where "EACCES \<equiv> 13"
abbreviation (input) EFAULT :: int where "EFAULT \<equiv> 14"
abbreviation (input) EINVAL :: int where "EINVAL \<equiv> 22"
abbreviation (input) ENOSYS :: int where "ENOSYS \<equiv> 38"
abbreviation (input) EINPROGRESS :: int where "EINPROGRESS \<equiv> 115"

section \<open>State\<close>

datatype state_t = ST_RUN | ST_READY | ST_BLOCKED

datatype lnode =
    Freequeue | Readyqueue | Blockedqueue | Tick_blockedqueue
  | Task_list nat | Children nat | Child_list nat | Threads nat | Thread_list nat

record task_struct =
  PID :: int
  dir_pages_baseAddr :: nat
  kernel_esp :: u32
  quantum :: int
  status :: state_t
  parent :: "nat option"
  pending_unblocks :: int
  TID :: int
  thread_count :: int
  master_thread :: nat
  tid_slots :: "int list"
  user_stack_ptr :: u32
  user_stack_frames :: int
  user_stack_region_start :: nat
  user_stack_region_pages :: nat
  user_initial_esp :: u32
  user_entry :: u32
  kbd_handler :: u32
  kbd_wrapper :: u32
  kbd_aux_stack :: u32
  in_kbd_context :: int
  kbd_saved_ctx :: "u32 list"

text \<open>The callee-saved registers, the frame and stack pointers and the instruction pointer.\<close>

record cpu_regs =
  eip :: u32
  esp :: u32
  ebp :: u32
  ebx :: u32
  esi :: u32
  edi :: u32

text \<open>
  \<open>cpu_task\<close> is the slot whose kernel stack the processor is on, what \<open>current()\<close> computes
  from the stack pointer. The \<open>sym_\<close> fields are code addresses fixed by the linker.
\<close>

record kernel =
  tasks :: "nat \<Rightarrow> task_struct"
  lists :: "lnode list_head"
  next_pid :: int
  current_quantum :: int
  current_task :: "nat option"
  idle_task :: nat
  init_task :: nat
  mm :: mm_state
  kmem :: "u32 \<Rightarrow> u32"
  tasks_base :: u32
  cpu_task :: nat
  regs :: cpu_regs
  tss_esp0 :: u32
  msr_175 :: u32
  sym_ret_from_fork :: u32
  sym_cpu_idle :: u32
  sym_after_inner_task_switch :: u32
  sym_after_task_switch :: u32

text \<open>The image at power-on: \<open>.data\<close> and \<open>.bss\<close> as the linker leaves them. The addresses
  are arbitrary but fixed; the code addresses are distinct.\<close>

definition mm_zero :: mm_state where
  "mm_zero = \<lparr>phys_mem = (\<lambda>_. 0), dir_pages = (\<lambda>_ _. entry_zero), pagusr_table = (\<lambda>_ _. entry_zero),
     pagusr_frame = 64, ram = (\<lambda>_ _. 0), cr3 = 0, tlb = Map.empty, paging = False\<rparr>"

definition task_zero :: task_struct where
  "task_zero = \<lparr>PID = 0, dir_pages_baseAddr = 0, kernel_esp = 0, quantum = 0, status = ST_RUN,
     parent = None, pending_unblocks = 0, TID = 0, thread_count = 0, master_thread = 0,
     tid_slots = replicate MAX_TIDS_PER_PROCESS 0, user_stack_ptr = 0, user_stack_frames = 0,
     user_stack_region_start = 0, user_stack_region_pages = 0, user_initial_esp = 0,
     user_entry = 0, kbd_handler = 0, kbd_wrapper = 0, kbd_aux_stack = 0, in_kbd_context = 0,
     kbd_saved_ctx = replicate KBD_CTX_SIZE 0\<rparr>"

definition kernel_zero :: kernel where
  "kernel_zero = \<lparr>tasks = (\<lambda>_. task_zero), lists = \<lparr>next_of = (\<lambda>_. None), prev_of = (\<lambda>_. None)\<rparr>,
     next_pid = 1, current_quantum = 0, current_task = None, idle_task = 0, init_task = 0,
     mm = mm_zero, kmem = (\<lambda>_. 0), tasks_base = 0x20000, cpu_task = 3,
     regs = \<lparr>eip = 0, esp = 0x24000, ebp = 0, ebx = 0, esi = 0, edi = 0\<rparr>, tss_esp0 = 0, msr_175 = 0,
     sym_ret_from_fork = 0x10100, sym_cpu_idle = 0x10200, sym_after_inner_task_switch = 0x10300,
     sym_after_task_switch = 0x10400\<rparr>"

abbreviation (input) NULL :: u32 where "NULL \<equiv> 0"

section \<open>Access\<close>

definition task_update :: "nat \<Rightarrow> (task_struct \<Rightarrow> task_struct) \<Rightarrow> kernel \<Rightarrow> kernel" where
  "task_update t f k = k\<lparr>tasks := (tasks k)(t := f (tasks k t))\<rparr>"

definition on_lists ::
  "(lnode list_head \<Rightarrow> lnode list_head option) \<Rightarrow> kernel \<Rightarrow> kernel option" where
  "on_lists f k = do { h \<leftarrow> f (lists k); Some (k\<lparr>lists := h\<rparr>) }"

text \<open>The address of \<open>stack[i]\<close> of slot \<open>t\<close>; \<open>KERNEL_ESP\<close> is the one past the last word.\<close>

definition stack_addr :: "kernel \<Rightarrow> nat \<Rightarrow> nat \<Rightarrow> u32" where
  "stack_addr k t i = tasks_base k + of_nat (4096 * t + 4 * i)"

definition KERNEL_ESP :: "kernel \<Rightarrow> nat \<Rightarrow> u32" where
  "KERNEL_ESP k t = stack_addr k t KERNEL_STACK_SIZE"

definition stack_get :: "nat \<Rightarrow> nat \<Rightarrow> kernel \<Rightarrow> u32" where
  "stack_get t i k = kmem k (stack_addr k t i)"

definition stack_set :: "nat \<Rightarrow> nat \<Rightarrow> u32 \<Rightarrow> kernel \<Rightarrow> kernel" where
  "stack_set t i v k = k\<lparr>kmem := (kmem k)(stack_addr k t i := v)\<rparr>"

text \<open>\<open>list_entry\<close>: the control block that holds a given node.\<close>

fun list_head_to_task_struct :: "lnode option \<Rightarrow> nat option" where
  "list_head_to_task_struct (Some (Task_list t)) = Some t"
| "list_head_to_task_struct _ = None"

fun child_list_entry :: "lnode \<Rightarrow> nat option" where
  "child_list_entry (Child_list t) = Some t"
| "child_list_entry _ = None"

fun thread_list_entry :: "lnode \<Rightarrow> nat option" where
  "thread_list_entry (Thread_list t) = Some t"
| "thread_list_entry _ = None"

definition get_DIR :: "nat \<Rightarrow> kernel \<Rightarrow> nat" where
  "get_DIR t k = dir_pages_baseAddr (tasks k t)"

definition task_PT :: "nat \<Rightarrow> kernel \<Rightarrow> nat" where
  "task_PT t k = get_PT (get_DIR t k) (mm k)"

text \<open>\<open>allocate_DIR\<close> computes the slot number from the address of the control block.\<close>

definition allocate_DIR :: "nat \<Rightarrow> kernel \<Rightarrow> kernel" where
  "allocate_DIR t k = task_update t (dir_pages_baseAddr_update (\<lambda>_. t)) k"

section \<open>Thread identifiers\<close>

definition init_tid_slots :: "task_struct \<Rightarrow> task_struct" where
  "init_tid_slots m =
     m\<lparr>tid_slots := (fold (\<lambda>i s. s[i := 0]) [0..<MAX_TIDS_PER_PROCESS] (tid_slots m))[0 := 1]\<rparr>"

fun allocate_tid_from :: "nat list \<Rightarrow> task_struct \<Rightarrow> int \<times> task_struct" where
  "allocate_tid_from [] m = (-1, m)"
| "allocate_tid_from (i # is) m =
     (if tid_slots m ! i = 0
      then (PID m * 10 + int i, m\<lparr>tid_slots := (tid_slots m)[i := 1]\<rparr>)
      else allocate_tid_from is m)"

definition allocate_tid :: "task_struct \<Rightarrow> int \<times> task_struct" where
  "allocate_tid m = allocate_tid_from [0..<MAX_TIDS_PER_PROCESS] m"

definition free_tid :: "int \<Rightarrow> task_struct \<Rightarrow> task_struct" where
  "free_tid tid m =
     (let slot = tid - PID m * 10
      in if slot \<ge> 0 \<and> slot < int MAX_TIDS_PER_PROCESS
         then m\<lparr>tid_slots := (tid_slots m)[nat slot := 0]\<rparr> else m)"

definition get_quantum :: "task_struct \<Rightarrow> int" where
  "get_quantum t = quantum t"

definition set_quantum :: "int \<Rightarrow> task_struct \<Rightarrow> task_struct" where
  "set_quantum new_quantum t = t\<lparr>quantum := new_quantum\<rparr>"

section \<open>Keyboard fields\<close>

definition clear_kbd_saved_ctx :: "task_struct \<Rightarrow> task_struct" where
  "clear_kbd_saved_ctx t =
     t\<lparr>kbd_saved_ctx := fold (\<lambda>i c. c[i := 0]) [0..<KBD_CTX_SIZE] (kbd_saved_ctx t)\<rparr>"

definition init_keyboard_fields :: "task_struct \<Rightarrow> task_struct" where
  "init_keyboard_fields t =
     clear_kbd_saved_ctx
       (t\<lparr>kbd_handler := NULL, kbd_wrapper := NULL, kbd_aux_stack := NULL, in_kbd_context := 0\<rparr>)"

section \<open>Lemmas\<close>

lemma task_update_simps [simp]:
  "tasks (task_update t f k) u = (if u = t then f (tasks k t) else tasks k u)"
  "lists (task_update t f k) = lists k" "next_pid (task_update t f k) = next_pid k"
  "current_quantum (task_update t f k) = current_quantum k"
  "current_task (task_update t f k) = current_task k" "idle_task (task_update t f k) = idle_task k"
  "init_task (task_update t f k) = init_task k" "mm (task_update t f k) = mm k"
  "kmem (task_update t f k) = kmem k" "tasks_base (task_update t f k) = tasks_base k"
  "cpu_task (task_update t f k) = cpu_task k" "regs (task_update t f k) = regs k"
  "tss_esp0 (task_update t f k) = tss_esp0 k" "msr_175 (task_update t f k) = msr_175 k"
  "sym_ret_from_fork (task_update t f k) = sym_ret_from_fork k"
  "sym_cpu_idle (task_update t f k) = sym_cpu_idle k"
  "sym_after_inner_task_switch (task_update t f k) = sym_after_inner_task_switch k"
  "sym_after_task_switch (task_update t f k) = sym_after_task_switch k"
  by (simp_all add: task_update_def)

lemma stack_set_simps [simp]:
  "tasks (stack_set t i v k) = tasks k" "lists (stack_set t i v k) = lists k"
  "next_pid (stack_set t i v k) = next_pid k" "current_task (stack_set t i v k) = current_task k"
  "current_quantum (stack_set t i v k) = current_quantum k"
  "idle_task (stack_set t i v k) = idle_task k" "init_task (stack_set t i v k) = init_task k"
  "mm (stack_set t i v k) = mm k" "tasks_base (stack_set t i v k) = tasks_base k"
  "cpu_task (stack_set t i v k) = cpu_task k" "regs (stack_set t i v k) = regs k"
  "sym_ret_from_fork (stack_set t i v k) = sym_ret_from_fork k"
  "kmem (stack_set t i v k) = (kmem k)(stack_addr k t i := v)"
  by (simp_all add: stack_set_def)

lemma stack_addr_cong: "tasks_base k' = tasks_base k \<Longrightarrow> stack_addr k' t i = stack_addr k t i"
  by (simp add: stack_addr_def)

lemma stack_addr_simps [simp]:
  "stack_addr (task_update u f k) t i = stack_addr k t i"
  "stack_addr (stack_set u j v k) t i = stack_addr k t i"
  by (rule stack_addr_cong; simp)+

text \<open>Distinct words of the slots of \<open>tasks[]\<close> have distinct addresses.\<close>

lemma stack_addr_inj:
  assumes "t < NR_TASKS" "u < NR_TASKS" "i < KERNEL_STACK_SIZE" "j < KERNEL_STACK_SIZE"
  shows "stack_addr k t i = stack_addr k u j \<longleftrightarrow> t = u \<and> i = j"
proof
  assume "stack_addr k t i = stack_addr k u j"
  then have "(of_nat (4096 * t + 4 * i) :: u32) = of_nat (4096 * u + 4 * j)"
    by (simp add: stack_addr_def)
  then have "unat (of_nat (4096 * t + 4 * i) :: u32) = unat (of_nat (4096 * u + 4 * j) :: u32)"
    by (rule arg_cong)
  then have "(4096 * t + 4 * i) mod 4294967296 = (4096 * u + 4 * j) mod 4294967296"
    unfolding unat_of_nat by simp
  moreover have "4096 * t + 4 * i < 4294967296" using assms by linarith
  moreover have "4096 * u + 4 * j < 4294967296" using assms by linarith
  ultimately have "1024 * t + i = 1024 * u + j" by simp
  then have "(1024 * t + i) div 1024 = (1024 * u + j) div 1024" "(1024 * t + i) mod 1024 = (1024 * u + j) mod 1024"
    by (rule arg_cong)+
  then show "t = u \<and> i = j" using assms(3,4) by simp
qed simp

subsection \<open>Thread identifiers\<close>

definition tid_slots_wf :: "task_struct \<Rightarrow> bool" where
  "tid_slots_wf m \<longleftrightarrow> length (tid_slots m) = MAX_TIDS_PER_PROCESS"

lemma init_tid_slots_eq:
  assumes "tid_slots_wf m"
  shows "tid_slots (init_tid_slots m) = 1 # replicate 9 0"
proof -
  have "fold (\<lambda>i s. s[i := 0]) [0..<MAX_TIDS_PER_PROCESS] (tid_slots m) = replicate MAX_TIDS_PER_PROCESS 0"
    using assms by (subst fold_list_update) (simp_all add: tid_slots_wf_def)
  moreover have "replicate MAX_TIDS_PER_PROCESS 0 = 0 # replicate 9 (0 :: int)"
    by (simp add: numeral_eq_Suc)
  ultimately show ?thesis unfolding init_tid_slots_def by simp
qed

lemma allocate_tid_from_find:
  "allocate_tid_from is m = (case List.find (\<lambda>i. tid_slots m ! i = 0) is of
     None \<Rightarrow> (-1, m) | Some i \<Rightarrow> (PID m * 10 + int i, m\<lparr>tid_slots := (tid_slots m)[i := 1]\<rparr>))"
  by (induction "is") auto

lemma find_upt_None: "List.find P [0..<n] = None \<Longrightarrow> \<forall>i < n. \<not> P i"
  by (simp add: find_None_iff)

lemma find_upt_Some:
  assumes "List.find P [0..<n] = Some i"
  shows "i < n" "P i" "\<forall>j < i. \<not> P j"
  using assms by (auto simp: find_Some_iff)

lemma allocate_tid_cases:
  obtains (none) "allocate_tid m = (-1, m)" "\<forall>i < MAX_TIDS_PER_PROCESS. tid_slots m ! i \<noteq> 0"
  | (some) i where "i < MAX_TIDS_PER_PROCESS" "tid_slots m ! i = 0"
      "\<forall>j < i. tid_slots m ! j \<noteq> 0"
      "allocate_tid m = (PID m * 10 + int i, m\<lparr>tid_slots := (tid_slots m)[i := 1]\<rparr>)"
proof (cases "List.find (\<lambda>i. tid_slots m ! i = 0) [0..<MAX_TIDS_PER_PROCESS]")
  case None
  show ?thesis
    by (rule none [OF _ find_upt_None [OF None]])
      (simp only: allocate_tid_def allocate_tid_from_find None option.case)
next
  case (Some i)
  show ?thesis
    by (rule some [OF find_upt_Some [OF Some]])
      (simp only: allocate_tid_def allocate_tid_from_find Some option.case)
qed

lemma free_tid_slot:
  assumes "i < MAX_TIDS_PER_PROCESS"
  shows "free_tid (PID m * 10 + int i) m = m\<lparr>tid_slots := (tid_slots m)[i := 0]\<rparr>"
  using assms by (simp add: free_tid_def)

section \<open>Properties\<close>

text \<open>Property C24 (allocate_tid_spec). \<open>allocate_tid\<close> hands out the lowest free slot as
  \<open>PID * 10 + slot\<close>, so the identifier stays in the ten numbers of the process, marks only that
  slot, and \<open>free_tid\<close> on the result gives back the original control block; it returns \<open>-1\<close>
  and changes nothing exactly when all ten slots are taken.\<close>

theorem allocate_tid_spec:
  assumes "tid_slots_wf m" and "0 \<le> PID m" and "allocate_tid m = (tid, m')"
  shows "if 0 \<in> set (tid_slots m)
    then PID m * 10 \<le> tid \<and> tid \<le> PID m * 10 + 9 \<and> free_tid tid m' = m \<and>
      (\<exists>i < MAX_TIDS_PER_PROCESS. tid = PID m * 10 + int i \<and>
        0 \<notin> set (take i (tid_slots m)) \<and> tid_slots m' = (tid_slots m)[i := 1])
    else tid = -1 \<and> m' = m"
proof (cases m rule: allocate_tid_cases)
  case none
  then have "0 \<notin> set (tid_slots m)" using assms(1) by (auto simp: tid_slots_wf_def in_set_conv_nth)
  with none(1) assms(3) show ?thesis by simp
next
  case (some i)
  have l: "length (tid_slots m) = MAX_TIDS_PER_PROCESS" using assms(1) by (simp add: tid_slots_wf_def)
  then have "0 \<in> set (tid_slots m)" using some(1,2) by (metis nth_mem)
  moreover have "0 \<notin> set (take i (tid_slots m))"
    using some(1,3) l by (auto simp: in_set_conv_nth)
  moreover have "free_tid tid m' = m"
  proof -
    have eq: "tid = PID m * 10 + int i" "m' = m\<lparr>tid_slots := (tid_slots m)[i := 1]\<rparr>"
      using some(4) assms(3) by simp_all
    then have "tid = PID m' * 10 + int i" by simp
    then have "free_tid tid m' = m'\<lparr>tid_slots := (tid_slots m')[i := 0]\<rparr>"
      using free_tid_slot [OF some(1), of m'] by simp
    moreover have "(tid_slots m)[i := 0] = tid_slots m" using some(2) by (metis list_update_id)
    ultimately show ?thesis by (simp add: eq(2))
  qed
  moreover have "tid = PID m * 10 + int i" "tid_slots m' = (tid_slots m)[i := 1]"
    using some(4) assms(3) by auto
  ultimately show ?thesis using some(1) by auto
qed

theorem allocate_tid_spec_witness:
  "let m = task_zero\<lparr>PID := 4, tid_slots := [1, 1, 0, 1, 0, 0, 0, 0, 0, 0]\<rparr>
   in fst (allocate_tid m) = 42 \<and> free_tid 42 (snd (allocate_tid m)) = m"
proof -
  let ?m = "task_zero\<lparr>PID := 4, tid_slots := [1, 1, 0, 1, 0, 0, 0, 0, 0, 0]\<rparr>"
  have "tid_slots_wf ?m" "0 \<le> PID ?m" by (simp_all add: tid_slots_wf_def)
  moreover have r: "allocate_tid ?m = (42, ?m\<lparr>tid_slots := [1, 1, 1, 1, 0, 0, 0, 0, 0, 0]\<rparr>)"
    by (simp add: allocate_tid_def upt_rec)
  ultimately show ?thesis using allocate_tid_spec [OF _ _ r] by (simp add: r)
qed

end
