(* ===== verification/Zeos_Sched.thy ===== *)
theory Zeos_Sched
  imports Zeos_Task
begin

text \<open>
  The round-robin scheduler of \<open>project/sched.c\<close> with the context switch of
  \<open>kernel_asm.S\<close>. The first part translates the code. The second part gives the abstract
  scheduler \<open>rr\<close>, four sequences of task slots and a running slot, and shows that the
  pointer code implements it.
\<close>

section \<open>Context switch\<close>

text \<open>The instructions the switch uses, on the register file and kernel memory.\<close>

definition pushl :: "(kernel \<Rightarrow> u32) \<Rightarrow> kernel \<Rightarrow> kernel" where
  "pushl v k = k\<lparr>regs := (regs k)\<lparr>esp := esp (regs k) - 4\<rparr>,
     kmem := (kmem k)(esp (regs k) - 4 := v k)\<rparr>"

definition popl :: "(u32 \<Rightarrow> cpu_regs \<Rightarrow> cpu_regs) \<Rightarrow> kernel \<Rightarrow> kernel" where
  "popl r k = k\<lparr>regs := r (kmem k (esp (regs k))) ((regs k)\<lparr>esp := esp (regs k) + 4\<rparr>)\<rparr>"

definition movl :: "(cpu_regs \<Rightarrow> cpu_regs) \<Rightarrow> kernel \<Rightarrow> kernel" where
  "movl f k = k\<lparr>regs := f (regs k)\<rparr>"

definition ret :: "kernel \<Rightarrow> kernel" where
  "ret k = popl (\<lambda>v r. r\<lparr>eip := v\<rparr>) k"

text \<open>\<open>switch_context\<close> saves the frame pointer of its caller through its first argument,
  the address of the \<open>kernel_esp\<close> field of the outgoing task, loads the stack pointer, pops
  the frame pointer and returns. From then on the processor is on the stack of \<open>new\<close>.\<close>

definition switch_context :: "nat \<Rightarrow> nat \<Rightarrow> kernel \<Rightarrow> kernel" where
  "switch_context old new k =
     (let new_esp = kernel_esp (tasks k new);
          k = task_update old (kernel_esp_update (\<lambda>_. ebp (regs k))) k;
          k = (movl (esp_update (\<lambda>_. new_esp)) k)\<lparr>cpu_task := new\<rparr>;
          k = popl (\<lambda>v r. r\<lparr>ebp := v\<rparr>) k
      in ret k)"

definition inner_task_switch :: "nat \<Rightarrow> kernel \<Rightarrow> kernel" where
  "inner_task_switch new k =
     (let k = pushl (ebp \<circ> regs) k;
          k = movl (\<lambda>r. r\<lparr>ebp := esp r\<rparr>) k;
          old_task = cpu_task k;
          k = k\<lparr>current_task := Some new\<rparr>;
          k = k\<lparr>tss_esp0 := KERNEL_ESP k new\<rparr>;
          k = k\<lparr>msr_175 := tss_esp0 k\<rparr>;
          k = k\<lparr>mm := set_cr3 (get_DIR new k) (mm k)\<rparr>
      in switch_context old_task new k)"

text \<open>
  \<open>task_switch\<close>, called from \<open>sched_next_rr\<close> with the return address
  \<open>sym_after_task_switch\<close>. Execution continues at the address \<open>switch_context\<close> returns to:
  when that is the instruction after the inner call, the incoming task runs the epilogue of
  its own activation; otherwise it is a new task and starts at that address.
\<close>

definition task_switch_epilogue :: "kernel \<Rightarrow> kernel" where
  "task_switch_epilogue k =
     (let k = movl (\<lambda>r. r\<lparr>esp := esp r + 4\<rparr>) k;
          k = popl (\<lambda>v r. r\<lparr>ebx := v\<rparr>) k;
          k = popl (\<lambda>v r. r\<lparr>esi := v\<rparr>) k;
          k = popl (\<lambda>v r. r\<lparr>edi := v\<rparr>) k;
          k = movl (\<lambda>r. r\<lparr>esp := ebp r\<rparr>) k;
          k = popl (\<lambda>v r. r\<lparr>ebp := v\<rparr>) k
      in ret k)"

definition task_switch_prologue :: "nat \<Rightarrow> kernel \<Rightarrow> kernel" where
  "task_switch_prologue new k =
     (let k = pushl (\<lambda>k. stack_addr k new 0) k;
          k = pushl sym_after_task_switch k;
          k = pushl (ebp \<circ> regs) k;
          k = movl (\<lambda>r. r\<lparr>ebp := esp r\<rparr>) k;
          k = pushl (edi \<circ> regs) k;
          k = pushl (esi \<circ> regs) k;
          k = pushl (ebx \<circ> regs) k;
          k = pushl (\<lambda>k. stack_addr k new 0) k
      in pushl sym_after_inner_task_switch k)"

definition task_switch :: "nat \<Rightarrow> kernel \<Rightarrow> kernel" where
  "task_switch new k =
     (let k = inner_task_switch new (task_switch_prologue new k)
      in if eip (regs k) = sym_after_inner_task_switch k then task_switch_epilogue k else k)"

section \<open>Initialisation\<close>

definition init_queues :: "kernel \<Rightarrow> kernel option" where
  "init_queues k = do {
     k \<leftarrow> on_lists (INIT_LIST_HEAD (Some Freequeue)) k;
     k \<leftarrow> on_lists (INIT_LIST_HEAD (Some Readyqueue)) k;
     k \<leftarrow> on_lists (INIT_LIST_HEAD (Some Blockedqueue)) k;
     k \<leftarrow> on_lists (INIT_LIST_HEAD (Some Tick_blockedqueue)) k;
     ofold (\<lambda>i. on_lists (list_add_tail (Some (Task_list i)) (Some Freequeue))) [0..<NR_TASKS] k }"

definition init_sched :: "kernel \<Rightarrow> kernel option" where
  "init_sched k = init_queues k"

definition init_idle :: "kernel \<Rightarrow> kernel option" where
  "init_idle k = do {
     free_task \<leftarrow> load_next (Some Freequeue) (lists k);
     k \<leftarrow> on_lists (list_del free_task) k;
     idle \<leftarrow> list_head_to_task_struct free_task;
     k \<leftarrow> Some (k\<lparr>idle_task := idle\<rparr>);
     k \<leftarrow> Some (task_update idle (\<lambda>t. t\<lparr>PID := 0, quantum := DEFAULT_QUANTUM, parent := None\<rparr>) k);
     k \<leftarrow> on_lists (INIT_LIST_HEAD (Some (Children idle))) k;
     k \<leftarrow> on_lists (INIT_LIST_HEAD (Some (Child_list idle))) k;
     k \<leftarrow> Some (task_update idle
            (\<lambda>t. t\<lparr>pending_unblocks := 0, thread_count := 1, master_thread := idle\<rparr>) k);
     k \<leftarrow> on_lists (INIT_LIST_HEAD (Some (Threads idle))) k;
     k \<leftarrow> on_lists (INIT_LIST_HEAD (Some (Thread_list idle))) k;
     k \<leftarrow> Some (task_update idle (\<lambda>t. t\<lparr>TID := 0,
            tid_slots := fold (\<lambda>i s. s[i := 0]) [0..<MAX_TIDS_PER_PROCESS] (tid_slots t),
            user_stack_ptr := NULL, user_stack_frames := 0, user_stack_region_start := 0,
            user_stack_region_pages := 0, user_initial_esp := 0, user_entry := 0\<rparr>) k);
     k \<leftarrow> Some (task_update idle init_keyboard_fields k);
     k \<leftarrow> Some (allocate_DIR idle k);
     k \<leftarrow> Some (stack_set idle (KERNEL_STACK_SIZE - 1) (sym_cpu_idle k) k);
     k \<leftarrow> Some (stack_set idle (KERNEL_STACK_SIZE - 2) 0 k);
     Some (task_update idle
       (kernel_esp_update (\<lambda>_. stack_addr k idle (KERNEL_STACK_SIZE - 2))) k) }"

definition init_task1 :: "kernel \<Rightarrow> kernel option" where
  "init_task1 k = do {
     free_task \<leftarrow> load_next (Some Freequeue) (lists k);
     k \<leftarrow> on_lists (list_del free_task) k;
     init \<leftarrow> list_head_to_task_struct free_task;
     k \<leftarrow> Some (k\<lparr>init_task := init\<rparr>);
     k \<leftarrow> Some (task_update init (\<lambda>t. t\<lparr>PID := 1, quantum := DEFAULT_QUANTUM\<rparr>) k);
     k \<leftarrow> Some (k\<lparr>current_quantum := DEFAULT_QUANTUM, current_task := Some init\<rparr>);
     k \<leftarrow> Some (task_update init (\<lambda>t. t\<lparr>status := ST_RUN, parent := None\<rparr>) k);
     k \<leftarrow> on_lists (INIT_LIST_HEAD (Some (Children init))) k;
     k \<leftarrow> on_lists (INIT_LIST_HEAD (Some (Child_list init))) k;
     k \<leftarrow> Some (task_update init
            (\<lambda>t. t\<lparr>pending_unblocks := 0, thread_count := 1, master_thread := init\<rparr>) k);
     k \<leftarrow> on_lists (INIT_LIST_HEAD (Some (Threads init))) k;
     k \<leftarrow> on_lists (INIT_LIST_HEAD (Some (Thread_list init))) k;
     k \<leftarrow> Some (task_update init init_tid_slots k);
     k \<leftarrow> Some (task_update init (TID_update (\<lambda>_. 10)) k);
     k \<leftarrow> Some (allocate_DIR init k);
     k \<leftarrow> Some (k\<lparr>mm := set_user_pages (get_DIR init k) (mm k)\<rparr>);
     PT \<leftarrow> Some (task_PT init k);
     region_end \<leftarrow> Some (THREAD_STACK_BASE_PAGE + THREAD_STACK_REGION_PAGES);
     first_mapped_page \<leftarrow> Some (region_end - THREAD_STACK_INITIAL_PAGES);
     (frame, m) \<leftarrow> Some (alloc_frame (mm k));
     k \<leftarrow> Some (k\<lparr>mm := set_ss_pag PT first_mapped_page (unsigned_of frame) m\<rparr>);
     k \<leftarrow> Some (task_update init (\<lambda>t. t\<lparr>
            user_stack_region_start := THREAD_STACK_BASE_PAGE,
            user_stack_region_pages := THREAD_STACK_REGION_PAGES,
            user_stack_frames := int THREAD_STACK_INITIAL_PAGES,
            user_stack_ptr := of_nat (first_mapped_page * 4096),
            user_initial_esp := of_nat (region_end * 4096) - 16,
            user_entry := 0\<rparr>) k);
     k \<leftarrow> Some (task_update init init_keyboard_fields k);
     k \<leftarrow> Some (k\<lparr>tss_esp0 := KERNEL_ESP k init\<rparr>);
     k \<leftarrow> Some (k\<lparr>msr_175 := tss_esp0 k\<rparr>);
     Some (k\<lparr>mm := set_cr3 (get_DIR init k) (mm k)\<rparr>) }"

text \<open>The initialisation sequence of \<open>main\<close> in \<open>system.c\<close>. It runs on a boot stack; after
  \<open>return_gate\<close> the next entry to the kernel uses the stack of the initial task.\<close>

definition main_init :: "kernel \<Rightarrow> kernel option" where
  "main_init k = do {
     k \<leftarrow> Some (allocate_DIR 0 (k\<lparr>mm := init_mm (mm k)\<rparr>));
     k \<leftarrow> init_sched k;
     k \<leftarrow> init_idle k;
     k \<leftarrow> init_task1 k;
     Some (k\<lparr>cpu_task := init_task k, regs := (regs k)\<lparr>esp := tss_esp0 k\<rparr>\<rparr>) }"

section \<open>Round robin\<close>

definition get_next_pid :: "kernel \<Rightarrow> int \<times> kernel" where
  "get_next_pid k = (next_pid k + 1, k\<lparr>next_pid := next_pid k + 1\<rparr>)"

definition update_sched_data_rr :: "kernel \<Rightarrow> kernel" where
  "update_sched_data_rr k = k\<lparr>current_quantum := current_quantum k - 1\<rparr>"

definition needs_sched_rr :: "kernel \<Rightarrow> (bool \<times> kernel) option" where
  "needs_sched_rr k = do {
     cur \<leftarrow> current_task k;
     blocked \<leftarrow> Some (status (tasks k cur) = ST_BLOCKED);
     if current_quantum k \<le> 0 then do {
       k \<leftarrow> Some (k\<lparr>current_quantum := get_quantum (tasks k cur)\<rparr>);
       e \<leftarrow> list_empty (Some Readyqueue) (lists k);
       if \<not> e then Some (True, k) else Some (blocked, k)
     } else Some (blocked, k) }"

definition update_process_state_rr :: "nat \<Rightarrow> lnode option \<Rightarrow> kernel \<Rightarrow> kernel option" where
  "update_process_state_rr t dest_queue k = do {
     k \<leftarrow> (if status (tasks k t) \<noteq> ST_RUN then on_lists (list_del (Some (Task_list t))) k else Some k);
     if dest_queue \<noteq> None then do {
       k \<leftarrow> on_lists (list_add_tail (Some (Task_list t)) dest_queue) k;
       Some (task_update t (status_update
         (\<lambda>_. if dest_queue = Some Readyqueue then ST_READY else ST_BLOCKED)) k)
     } else Some (task_update t (status_update (\<lambda>_. ST_RUN)) k) }"

definition sched_next_rr :: "kernel \<Rightarrow> kernel option" where
  "sched_next_rr k = do {
     e \<leftarrow> list_empty (Some Readyqueue) (lists k);
     (next_task, k) \<leftarrow>
       (if \<not> e then do {
          next \<leftarrow> list_first (Some Readyqueue) (lists k);
          next_task \<leftarrow> list_head_to_task_struct next;
          k \<leftarrow> update_process_state_rr next_task None k;
          Some (next_task, k)
        } else Some (idle_task k, k));
     k \<leftarrow> Some (k\<lparr>current_quantum := quantum (tasks k next_task)\<rparr>);
     Some (task_switch next_task k) }"

text \<open>The loop of \<open>scheduler\<close> that wakes the threads waiting for a tick.\<close>

partial_function (option) wake_tick_blocked :: "kernel \<Rightarrow> kernel option" where
  "wake_tick_blocked k =
     Option.bind (list_empty (Some Tick_blockedqueue) (lists k)) (\<lambda>e.
       if e then Some k
       else Option.bind (list_first (Some Tick_blockedqueue) (lists k)) (\<lambda>first.
         Option.bind (list_head_to_task_struct first) (\<lambda>t.
           Option.bind (update_process_state_rr t (Some Readyqueue) k) wake_tick_blocked)))"

definition scheduler :: "kernel \<Rightarrow> kernel option" where
  "scheduler k = do {
     k \<leftarrow> wake_tick_blocked (update_sched_data_rr k);
     (needs, k) \<leftarrow> needs_sched_rr k;
     if needs then do {
       cur \<leftarrow> current_task k;
       k \<leftarrow> (if status (tasks k cur) \<noteq> ST_BLOCKED
             then update_process_state_rr cur (Some Readyqueue) k else Some k);
       sched_next_rr k
     } else Some k }"

section \<open>The abstract scheduler\<close>

text \<open>
  The state is the four queues as sequences of slots, the running slot and its remaining
  quantum. \<open>rr_fam\<close> are the rings that are not process queues (children and thread lists):
  scheduling does not touch them.
\<close>

record rr =
  rr_free :: "nat list"
  rr_ready :: "nat list"
  rr_blocked :: "nat list"
  rr_tick :: "nat list"
  rr_current :: nat
  rr_quantum :: int
  rr_fam :: "lnode \<rightharpoonup> lnode list"

definition rings_of :: "rr \<Rightarrow> lnode \<rightharpoonup> lnode list" where
  "rings_of a = (rr_fam a)(Freequeue \<mapsto> map Task_list (rr_free a),
     Readyqueue \<mapsto> map Task_list (rr_ready a), Blockedqueue \<mapsto> map Task_list (rr_blocked a),
     Tick_blockedqueue \<mapsto> map Task_list (rr_tick a))"

definition rr_dispatch :: "nat \<Rightarrow> (nat \<Rightarrow> int) \<Rightarrow> rr \<Rightarrow> rr" where
  "rr_dispatch idle q a = (case rr_ready a of
       [] \<Rightarrow> a\<lparr>rr_current := idle, rr_quantum := q idle\<rparr>
     | t # ts \<Rightarrow> a\<lparr>rr_ready := ts, rr_current := t, rr_quantum := q t\<rparr>)"

definition rr_wake :: "rr \<Rightarrow> rr" where
  "rr_wake a = a\<lparr>rr_ready := rr_ready a @ rr_tick a, rr_tick := []\<rparr>"

definition rr_schedule :: "nat \<Rightarrow> (nat \<Rightarrow> int) \<Rightarrow> rr \<Rightarrow> rr" where
  "rr_schedule idle q a =
     (let a = rr_wake (a\<lparr>rr_quantum := rr_quantum a - 1\<rparr>);
          blocked = (rr_current a \<in> set (rr_blocked a));
          expired = (rr_quantum a \<le> 0);
          a = (if expired then a\<lparr>rr_quantum := q (rr_current a)\<rparr> else a)
      in if expired \<and> rr_ready a \<noteq> [] \<or> blocked
         then rr_dispatch idle q
           (if blocked then a else a\<lparr>rr_ready := rr_ready a @ [rr_current a]\<rparr>)
         else a)"

text \<open>Every slot is in exactly one place: a queue, running, or it is the idle task.\<close>

definition rr_queued :: "rr \<Rightarrow> nat list" where
  "rr_queued a = rr_free a @ rr_ready a @ rr_blocked a @ rr_tick a"

definition rr_wf :: "nat \<Rightarrow> rr \<Rightarrow> bool" where
  "rr_wf idle a \<longleftrightarrow>
     distinct (rr_queued a) \<and> set (rr_queued a) \<union> {rr_current a, idle} = {..<NR_TASKS} \<and>
     idle \<notin> set (rr_free a @ rr_blocked a @ rr_tick a) \<and>
     (\<forall>q xs. rr_fam a q = Some xs \<longrightarrow> set (q # xs) \<inter> range Task_list = {})"

definition rr_running :: "rr \<Rightarrow> bool" where
  "rr_running a \<longleftrightarrow> rr_current a \<notin> set (rr_queued a)"

text \<open>The refinement relation: the queues are represented and the status fields agree.\<close>

definition sched_rel :: "kernel \<Rightarrow> rr \<Rightarrow> bool" where
  "sched_rel k a \<longleftrightarrow>
     rings (lists k) (rings_of a) \<and> current_task k = Some (rr_current a) \<and>
     cpu_task k = rr_current a \<and> current_quantum k = rr_quantum a \<and>
     (\<forall>t < NR_TASKS. t \<notin> set (rr_free a) \<longrightarrow>
        status (tasks k t) = (if t \<in> set (rr_ready a) then ST_READY
          else if t \<in> set (rr_blocked a) \<union> set (rr_tick a) then ST_BLOCKED else ST_RUN))"

text \<open>What scheduling leaves alone.\<close>

definition sched_view where
  "sched_view k = (\<lambda>t. (tasks k t)\<lparr>status := ST_RUN, kernel_esp := 0\<rparr>,
     (mm k)\<lparr>cr3 := 0, tlb := Map.empty\<rparr>, idle_task k, init_task k, next_pid k, tasks_base k)"

definition sched_frame :: "kernel \<Rightarrow> kernel \<Rightarrow> bool" where
  "sched_frame k k' \<longleftrightarrow> sched_view k' = sched_view k"

lemma sched_frame_refl [simp]: "sched_frame k k"
  by (simp add: sched_frame_def)

lemma sched_frame_trans: "sched_frame k k' \<Longrightarrow> sched_frame k' k'' \<Longrightarrow> sched_frame k k''"
  by (simp add: sched_frame_def)

lemma sched_frame_task:
  assumes "sched_frame k k'"
  shows "(tasks k' t)\<lparr>status := ST_RUN, kernel_esp := 0\<rparr> = (tasks k t)\<lparr>status := ST_RUN, kernel_esp := 0\<rparr>"
proof -
  have "fst (sched_view k') = fst (sched_view k)" using assms by (simp only: sched_frame_def)
  then show ?thesis unfolding sched_view_def fst_conv by (rule fun_cong)
qed

lemma sched_frame_quantum: "sched_frame k k' \<Longrightarrow> quantum (tasks k' t) = quantum (tasks k t)"
  by (drule sched_frame_task [where t = t], drule arg_cong [where f = quantum]) simp

lemma sched_frame_idle: "sched_frame k k' \<Longrightarrow> idle_task k' = idle_task k"
  unfolding sched_frame_def sched_view_def by blast

section \<open>Lemmas on the operations\<close>

lemma instr_simps [simp]:
  "tasks (pushl v k) = tasks k"
  "lists (pushl v k) = lists k"
  "next_pid (pushl v k) = next_pid k"
  "current_quantum (pushl v k) = current_quantum k"
  "current_task (pushl v k) = current_task k"
  "idle_task (pushl v k) = idle_task k"
  "init_task (pushl v k) = init_task k"
  "mm (pushl v k) = mm k"
  "tasks_base (pushl v k) = tasks_base k"
  "cpu_task (pushl v k) = cpu_task k"
  "tss_esp0 (pushl v k) = tss_esp0 k"
  "sym_after_inner_task_switch (pushl v k) = sym_after_inner_task_switch k"
  "sym_after_task_switch (pushl v k) = sym_after_task_switch k"
  "sym_ret_from_fork (pushl v k) = sym_ret_from_fork k"
  "sym_cpu_idle (pushl v k) = sym_cpu_idle k"
  "tasks (popl r k) = tasks k"
  "lists (popl r k) = lists k"
  "next_pid (popl r k) = next_pid k"
  "current_quantum (popl r k) = current_quantum k"
  "current_task (popl r k) = current_task k"
  "idle_task (popl r k) = idle_task k"
  "init_task (popl r k) = init_task k"
  "mm (popl r k) = mm k"
  "tasks_base (popl r k) = tasks_base k"
  "cpu_task (popl r k) = cpu_task k"
  "tss_esp0 (popl r k) = tss_esp0 k"
  "sym_after_inner_task_switch (popl r k) = sym_after_inner_task_switch k"
  "sym_after_task_switch (popl r k) = sym_after_task_switch k"
  "sym_ret_from_fork (popl r k) = sym_ret_from_fork k"
  "sym_cpu_idle (popl r k) = sym_cpu_idle k"
  "tasks (movl f k) = tasks k"
  "lists (movl f k) = lists k"
  "next_pid (movl f k) = next_pid k"
  "current_quantum (movl f k) = current_quantum k"
  "current_task (movl f k) = current_task k"
  "idle_task (movl f k) = idle_task k"
  "init_task (movl f k) = init_task k"
  "mm (movl f k) = mm k"
  "tasks_base (movl f k) = tasks_base k"
  "cpu_task (movl f k) = cpu_task k"
  "tss_esp0 (movl f k) = tss_esp0 k"
  "sym_after_inner_task_switch (movl f k) = sym_after_inner_task_switch k"
  "sym_after_task_switch (movl f k) = sym_after_task_switch k"
  "sym_ret_from_fork (movl f k) = sym_ret_from_fork k"
  "sym_cpu_idle (movl f k) = sym_cpu_idle k"
  "tasks (ret k) = tasks k"
  "lists (ret k) = lists k"
  "next_pid (ret k) = next_pid k"
  "current_quantum (ret k) = current_quantum k"
  "current_task (ret k) = current_task k"
  "idle_task (ret k) = idle_task k"
  "init_task (ret k) = init_task k"
  "mm (ret k) = mm k"
  "tasks_base (ret k) = tasks_base k"
  "cpu_task (ret k) = cpu_task k"
  "tss_esp0 (ret k) = tss_esp0 k"
  "sym_after_inner_task_switch (ret k) = sym_after_inner_task_switch k"
  "sym_after_task_switch (ret k) = sym_after_task_switch k"
  "sym_ret_from_fork (ret k) = sym_ret_from_fork k"
  "sym_cpu_idle (ret k) = sym_cpu_idle k"
  by (simp_all add: pushl_def popl_def movl_def ret_def)

lemma task_switch_prologue_simps [simp]:
  "tasks (task_switch_prologue t k) = tasks k"
  "lists (task_switch_prologue t k) = lists k"
  "next_pid (task_switch_prologue t k) = next_pid k"
  "current_quantum (task_switch_prologue t k) = current_quantum k"
  "current_task (task_switch_prologue t k) = current_task k"
  "idle_task (task_switch_prologue t k) = idle_task k"
  "init_task (task_switch_prologue t k) = init_task k"
  "mm (task_switch_prologue t k) = mm k"
  "tasks_base (task_switch_prologue t k) = tasks_base k"
  "cpu_task (task_switch_prologue t k) = cpu_task k"
  "tss_esp0 (task_switch_prologue t k) = tss_esp0 k"
  "sym_after_inner_task_switch (task_switch_prologue t k) = sym_after_inner_task_switch k"
  "sym_after_task_switch (task_switch_prologue t k) = sym_after_task_switch k"
  "sym_ret_from_fork (task_switch_prologue t k) = sym_ret_from_fork k"
  "sym_cpu_idle (task_switch_prologue t k) = sym_cpu_idle k"
  by (simp_all add: task_switch_prologue_def)

lemma task_switch_epilogue_simps [simp]:
  "tasks (task_switch_epilogue k) = tasks k"
  "lists (task_switch_epilogue k) = lists k"
  "next_pid (task_switch_epilogue k) = next_pid k"
  "current_quantum (task_switch_epilogue k) = current_quantum k"
  "current_task (task_switch_epilogue k) = current_task k"
  "idle_task (task_switch_epilogue k) = idle_task k"
  "init_task (task_switch_epilogue k) = init_task k"
  "mm (task_switch_epilogue k) = mm k"
  "tasks_base (task_switch_epilogue k) = tasks_base k"
  "cpu_task (task_switch_epilogue k) = cpu_task k"
  "tss_esp0 (task_switch_epilogue k) = tss_esp0 k"
  "sym_after_inner_task_switch (task_switch_epilogue k) = sym_after_inner_task_switch k"
  "sym_after_task_switch (task_switch_epilogue k) = sym_after_task_switch k"
  "sym_ret_from_fork (task_switch_epilogue k) = sym_ret_from_fork k"
  "sym_cpu_idle (task_switch_epilogue k) = sym_cpu_idle k"
  by (simp_all add: task_switch_epilogue_def)

lemma task_switch_simps [simp]:
  "lists (task_switch t k) = lists k" "current_task (task_switch t k) = Some t"
  "cpu_task (task_switch t k) = t" "current_quantum (task_switch t k) = current_quantum k"
  "idle_task (task_switch t k) = idle_task k" "init_task (task_switch t k) = init_task k"
  "next_pid (task_switch t k) = next_pid k" "tasks_base (task_switch t k) = tasks_base k"
  "mm (task_switch t k) = set_cr3 (dir_pages_baseAddr (tasks k t)) (mm k)"
  "status (tasks (task_switch t k) u) = status (tasks k u)"
  "(tasks (task_switch t k) u)\<lparr>status := s, kernel_esp := e\<rparr> = (tasks k u)\<lparr>status := s, kernel_esp := e\<rparr>"
  "tss_esp0 (task_switch t k) = KERNEL_ESP k t"
  by (simp_all add: task_switch_def inner_task_switch_def switch_context_def get_DIR_def Let_def
      KERNEL_ESP_def stack_addr_def)

lemma sched_frame_task_switch [simp]: "sched_frame k (task_switch t k)"
  by (simp add: sched_frame_def sched_view_def set_cr3_def)

lemma on_lists_Some: "f (lists k) = Some h \<Longrightarrow> on_lists f k = Some (k\<lparr>lists := h\<rparr>)"
  by (simp add: on_lists_def)

text \<open>\<open>update_process_state_rr\<close> in its three uses: suspend the running task, move a queued
  task, take a queued task.\<close>

abbreviation queue_status :: "lnode \<Rightarrow> state_t" where
  "queue_status q \<equiv> (if q = Readyqueue then ST_READY else ST_BLOCKED)"

lemma ups_suspend:
  assumes "rings (lists k) R" and "status (tasks k t) = ST_RUN" and "R q = Some xs"
    and "fresh R (Task_list t)"
  shows "\<exists>h. update_process_state_rr t (Some q) k =
      Some (task_update t (status_update (\<lambda>_. queue_status q)) (k\<lparr>lists := h\<rparr>)) \<and>
    rings h (R(q \<mapsto> xs @ [Task_list t]))"
proof -
  from zl.add_tail [OF assms(1,3,4)] obtain h where
    h: "list_add_tail (Some (Task_list t)) (Some q) (lists k) = Some h"
      "rings h (R(q \<mapsto> xs @ [Task_list t]))" by blast
  from h(1) have "update_process_state_rr t (Some q) k =
      Some (task_update t (status_update (\<lambda>_. queue_status q)) (k\<lparr>lists := h\<rparr>))"
    by (simp add: update_process_state_rr_def assms(2) on_lists_def)
  with h(2) show ?thesis by blast
qed

lemma ups_move:
  assumes "rings (lists k) R" and "status (tasks k t) \<noteq> ST_RUN"
    and "R p = Some (xs @ Task_list t # ys)" and "R q = Some zs" and "p \<noteq> q"
  shows "\<exists>h. update_process_state_rr t (Some q) k =
      Some (task_update t (status_update (\<lambda>_. queue_status q)) (k\<lparr>lists := h\<rparr>)) \<and>
    rings h (R(p \<mapsto> xs @ ys, q \<mapsto> zs @ [Task_list t]))"
proof -
  from zl.move_tail [OF assms(1,3,4,5)] obtain h1 h where
    h: "list_del (Some (Task_list t)) (lists k) = Some h1"
      "list_add_tail (Some (Task_list t)) (Some q) h1 = Some h"
      "rings h (R(p \<mapsto> xs @ ys, q \<mapsto> zs @ [Task_list t]))" by blast
  from h(1,2) have "update_process_state_rr t (Some q) k =
      Some (task_update t (status_update (\<lambda>_. queue_status q)) (k\<lparr>lists := h\<rparr>))"
    by (simp add: update_process_state_rr_def assms(2) on_lists_def)
  with h(3) show ?thesis by blast
qed

lemma ups_take:
  assumes "rings (lists k) R" and "status (tasks k t) \<noteq> ST_RUN"
    and "R p = Some (xs @ Task_list t # ys)"
  shows "\<exists>h. update_process_state_rr t None k =
      Some (task_update t (status_update (\<lambda>_. ST_RUN)) (k\<lparr>lists := h\<rparr>)) \<and>
    rings h (R(p \<mapsto> xs @ ys))"
proof -
  from zl.del [OF assms(1,3)] obtain h where
    h: "list_del (Some (Task_list t)) (lists k) = Some h" "rings h (R(p \<mapsto> xs @ ys))" by blast
  from h(1) have "update_process_state_rr t None k =
      Some (task_update t (status_update (\<lambda>_. ST_RUN)) (k\<lparr>lists := h\<rparr>))"
    by (simp add: update_process_state_rr_def assms(2) on_lists_def)
  with h(2) show ?thesis by blast
qed

lemma sched_frame_status [simp]:
  "sched_frame k (task_update t (status_update f) (k\<lparr>lists := h\<rparr>))"
  "sched_frame k (k\<lparr>current_quantum := c\<rparr>)"
  by (simp_all add: sched_frame_def sched_view_def fun_eq_iff)

section \<open>Refinement\<close>

lemma rings_of_upd:
  "rings_of (a\<lparr>rr_free := xs\<rparr>) = (rings_of a)(Freequeue \<mapsto> map Task_list xs)"
  "rings_of (a\<lparr>rr_ready := xs\<rparr>) = (rings_of a)(Readyqueue \<mapsto> map Task_list xs)"
  "rings_of (a\<lparr>rr_blocked := xs\<rparr>) = (rings_of a)(Blockedqueue \<mapsto> map Task_list xs)"
  "rings_of (a\<lparr>rr_tick := xs\<rparr>) = (rings_of a)(Tick_blockedqueue \<mapsto> map Task_list xs)"
  "rings_of (a\<lparr>rr_current := t\<rparr>) = rings_of a" "rings_of (a\<lparr>rr_quantum := q\<rparr>) = rings_of a"
  by (auto simp: rings_of_def fun_eq_iff)

lemma rings_of_queue [simp]:
  "rings_of a Freequeue = Some (map Task_list (rr_free a))"
  "rings_of a Readyqueue = Some (map Task_list (rr_ready a))"
  "rings_of a Blockedqueue = Some (map Task_list (rr_blocked a))"
  "rings_of a Tick_blockedqueue = Some (map Task_list (rr_tick a))"
  by (simp_all add: rings_of_def)

lemma fresh_unqueued:
  assumes "rr_wf idle a" and "t \<notin> set (rr_queued a)"
  shows "fresh (rings_of a) (Task_list t)"
  unfolding fresh_def
proof (intro allI impI)
  fix q xs assume q: "rings_of a q = Some xs"
  show "Task_list t \<notin> set (q # xs)"
  proof (cases "q \<in> {Freequeue, Readyqueue, Blockedqueue, Tick_blockedqueue}")
    case True
    with q assms(2) show ?thesis by (auto simp: rr_queued_def)
  next
    case False
    with q have "rr_fam a q = Some xs" by (simp add: rings_of_def)
    then have "set (q # xs) \<inter> range Task_list = {}" using assms(1) unfolding rr_wf_def by blast
    then show ?thesis by blast
  qed
qed

lemma sched_relD:
  assumes "sched_rel k a"
  shows "rings (lists k) (rings_of a)" "current_task k = Some (rr_current a)"
    "cpu_task k = rr_current a" "current_quantum k = rr_quantum a"
    "t < NR_TASKS \<Longrightarrow> t \<notin> set (rr_free a) \<Longrightarrow>
       status (tasks k t) = (if t \<in> set (rr_ready a) then ST_READY
          else if t \<in> set (rr_blocked a) \<union> set (rr_tick a) then ST_BLOCKED else ST_RUN)"
  using assms unfolding sched_rel_def by blast+

lemma sched_rel_empty_ready:
  "sched_rel k a \<Longrightarrow> list_empty (Some Readyqueue) (lists k) = Some (rr_ready a = [])"
  by (drule sched_relD(1), drule zl.is_empty [where q = Readyqueue]) auto

text \<open>Suspending the running task into one of the three process queues.\<close>

lemma suspend_into:
  assumes rel: "sched_rel k a" and wf: "rr_wf idle a" and run: "rr_running a"
    and q: "rings_of a q = Some (map Task_list xs)"
    and a': "rings_of a' = (rings_of a)(q \<mapsto> map Task_list (xs @ [rr_current a]))"
      "rr_current a' = rr_current a" "rr_quantum a' = rr_quantum a" "rr_free a' = rr_free a"
      "set (rr_ready a') = (if q = Readyqueue then insert (rr_current a) (set (rr_ready a)) else set (rr_ready a))"
      "set (rr_blocked a') \<union> set (rr_tick a') = (if q = Readyqueue then set (rr_blocked a) \<union> set (rr_tick a)
         else insert (rr_current a) (set (rr_blocked a) \<union> set (rr_tick a)))"
  shows "\<exists>k'. update_process_state_rr (rr_current a) (Some q) k = Some k' \<and>
    sched_frame k k' \<and> sched_rel k' a'"
proof -
  have f: "fresh (rings_of a) (Task_list (rr_current a))"
    using fresh_unqueued [OF wf] run unfolding rr_running_def by blast
  have nq: "rr_current a \<notin> set (rr_free a)" "rr_current a \<notin> set (rr_ready a)"
    using run by (auto simp: rr_running_def rr_queued_def)
  have st: "status (tasks k (rr_current a)) = ST_RUN"
    using sched_relD(5) [OF rel, of "rr_current a"] wf run
    by (auto simp: rr_wf_def rr_running_def rr_queued_def)
  from ups_suspend [OF sched_relD(1) [OF rel] st q f] obtain h where
    h: "update_process_state_rr (rr_current a) (Some q) k =
        Some (task_update (rr_current a) (status_update (\<lambda>_. queue_status q)) (k\<lparr>lists := h\<rparr>))"
      "rings h ((rings_of a)(q \<mapsto> map Task_list xs @ [Task_list (rr_current a)]))"
    by blast
  have "sched_rel (task_update (rr_current a) (status_update (\<lambda>_. queue_status q)) (k\<lparr>lists := h\<rparr>)) a'"
    using rel h(2) nq by (simp add: sched_rel_def a')
  with h(1) show ?thesis by simp
qed

lemma suspend_ready:
  assumes "sched_rel k a" and "rr_wf idle a" and "rr_running a"
  shows "\<exists>k'. update_process_state_rr (rr_current a) (Some Readyqueue) k = Some k' \<and>
    sched_frame k k' \<and> sched_rel k' (a\<lparr>rr_ready := rr_ready a @ [rr_current a]\<rparr>)"
  by (rule suspend_into [OF assms rings_of_queue(2)]) (simp_all add: rings_of_upd)

lemma suspend_blocked:
  assumes "sched_rel k a" and "rr_wf idle a" and "rr_running a"
  shows "\<exists>k'. update_process_state_rr (rr_current a) (Some Blockedqueue) k = Some k' \<and>
    sched_frame k k' \<and> sched_rel k' (a\<lparr>rr_blocked := rr_blocked a @ [rr_current a]\<rparr>)"
  by (rule suspend_into [OF assms rings_of_queue(3)]) (simp_all add: rings_of_upd)

lemma suspend_tick:
  assumes "sched_rel k a" and "rr_wf idle a" and "rr_running a"
  shows "\<exists>k'. update_process_state_rr (rr_current a) (Some Tick_blockedqueue) k = Some k' \<and>
    sched_frame k k' \<and> sched_rel k' (a\<lparr>rr_tick := rr_tick a @ [rr_current a]\<rparr>)"
  by (rule suspend_into [OF assms rings_of_queue(4)]) (simp_all add: rings_of_upd)

text \<open>Waking a blocked task.\<close>

lemma wake_blocked:
  assumes rel: "sched_rel k a" and wf: "rr_wf idle a" and b: "rr_blocked a = xs @ t # ys"
  shows "\<exists>k'. update_process_state_rr t (Some Readyqueue) k = Some k' \<and> sched_frame k k' \<and>
    sched_rel k' (a\<lparr>rr_blocked := xs @ ys, rr_ready := rr_ready a @ [t]\<rparr>)"
proof -
  have d: "distinct (rr_queued a)" and t: "t < NR_TASKS"
    using wf b by (auto simp: rr_wf_def rr_queued_def)
  then have st: "status (tasks k t) \<noteq> ST_RUN"
    using sched_relD(5) [OF rel, of t] b by (auto simp: rr_queued_def)
  have p: "rings_of a Blockedqueue = Some (map Task_list xs @ Task_list t # map Task_list ys)"
    by (simp add: b)
  from ups_move [OF sched_relD(1) [OF rel] st p rings_of_queue(2)] obtain h where
    h: "update_process_state_rr t (Some Readyqueue) k =
        Some (task_update t (status_update (\<lambda>_. ST_READY)) (k\<lparr>lists := h\<rparr>))"
      "rings h ((rings_of a)(Blockedqueue \<mapsto> map Task_list xs @ map Task_list ys,
         Readyqueue \<mapsto> map Task_list (rr_ready a) @ [Task_list t]))"
    by auto
  have "sched_rel (task_update t (status_update (\<lambda>_. ST_READY)) (k\<lparr>lists := h\<rparr>))
      (a\<lparr>rr_blocked := xs @ ys, rr_ready := rr_ready a @ [t]\<rparr>)"
    using rel h(2) d by (auto simp: sched_rel_def rings_of_upd b rr_queued_def)
  with h(1) show ?thesis by simp
qed

lemma wake_tick:
  assumes rel: "sched_rel k a" and wf: "rr_wf idle a" and b: "rr_tick a = xs @ t # ys"
  shows "\<exists>k'. update_process_state_rr t (Some Readyqueue) k = Some k' \<and> sched_frame k k' \<and>
    sched_rel k' (a\<lparr>rr_tick := xs @ ys, rr_ready := rr_ready a @ [t]\<rparr>)"
proof -
  have d: "distinct (rr_queued a)" and t: "t < NR_TASKS"
    using wf b by (auto simp: rr_wf_def rr_queued_def)
  then have st: "status (tasks k t) \<noteq> ST_RUN"
    using sched_relD(5) [OF rel, of t] b by (auto simp: rr_queued_def)
  have p: "rings_of a Tick_blockedqueue = Some (map Task_list xs @ Task_list t # map Task_list ys)"
    by (simp add: b)
  from ups_move [OF sched_relD(1) [OF rel] st p rings_of_queue(2)] obtain h where
    h: "update_process_state_rr t (Some Readyqueue) k =
        Some (task_update t (status_update (\<lambda>_. ST_READY)) (k\<lparr>lists := h\<rparr>))"
      "rings h ((rings_of a)(Tick_blockedqueue \<mapsto> map Task_list xs @ map Task_list ys,
         Readyqueue \<mapsto> map Task_list (rr_ready a) @ [Task_list t]))"
    by auto
  have "sched_rel (task_update t (status_update (\<lambda>_. ST_READY)) (k\<lparr>lists := h\<rparr>))
      (a\<lparr>rr_tick := xs @ ys, rr_ready := rr_ready a @ [t]\<rparr>)"
    using rel h(2) d by (auto simp: sched_rel_def rings_of_upd b rr_queued_def)
  with h(1) show ?thesis by simp
qed

lemma rr_wf_wake_one:
  assumes "rr_wf idle a" and "rr_tick a = t # ts"
  shows "rr_wf idle (a\<lparr>rr_tick := ts, rr_ready := rr_ready a @ [t]\<rparr>)"
  using assms unfolding rr_wf_def rr_queued_def by auto

lemma wake_tick_blocked_refines:
  assumes "sched_rel k a" and "rr_wf idle a"
  shows "\<exists>k'. wake_tick_blocked k = Some k' \<and> sched_frame k k' \<and> sched_rel k' (rr_wake a)"
  using assms
proof (induction "rr_tick a" arbitrary: a k)
  case Nil
  then have "rr_wake a = a" by (simp add: rr_wake_def)
  moreover have "list_empty (Some Tick_blockedqueue) (lists k) = Some True"
    using zl.is_empty [OF sched_relD(1) [OF Nil.prems(1)] rings_of_queue(4)] Nil.hyps by simp
  ultimately show ?case using Nil.prems(1) by (subst wake_tick_blocked.simps) simp
next
  case (Cons t ts)
  let ?a = "a\<lparr>rr_tick := ts, rr_ready := rr_ready a @ [t]\<rparr>"
  have R: "rings_of a Tick_blockedqueue = Some (Task_list t # map Task_list ts)"
    using Cons.hyps(2) by (metis rings_of_queue(4) list.map(2))
  note R' = zl.pop_front [OF sched_relD(1) [OF Cons.prems(1)] R]
  have "rr_tick a = [] @ t # ts" using Cons.hyps(2) by simp
  from wake_tick [OF Cons.prems this] obtain k1 where
    k1: "update_process_state_rr t (Some Readyqueue) k = Some k1" "sched_frame k k1" "sched_rel k1 ?a"
    by auto
  have "rr_wf idle ?a" using rr_wf_wake_one [OF Cons.prems(2)] Cons.hyps(2) by metis
  with Cons.hyps(1) [of ?a k1] k1(3) obtain k' where
    k': "wake_tick_blocked k1 = Some k'" "sched_frame k1 k'" "sched_rel k' (rr_wake ?a)" by auto
  have "rr_wake ?a = rr_wake a" using Cons.hyps(2) by (simp add: rr_wake_def flip: Cons.hyps(2))
  moreover have "wake_tick_blocked k = Some k'"
    by (subst wake_tick_blocked.simps) (simp add: R'(1,2) k1(1) k'(1))
  ultimately show ?case using k' sched_frame_trans [OF k1(2)] by metis
qed

text \<open>Selecting the next task.\<close>

lemma sched_next_rr_refines:
  assumes rel: "sched_rel k a" and wf: "rr_wf (idle_task k) a"
  shows "\<exists>k'. sched_next_rr k = Some k' \<and> sched_frame k k' \<and>
    sched_rel k' (rr_dispatch (idle_task k) (quantum \<circ> tasks k) a)"
proof (cases "rr_ready a")
  case Nil
  let ?k = "task_switch (idle_task k) (k\<lparr>current_quantum := quantum (tasks k (idle_task k))\<rparr>)"
  have "sched_next_rr k = Some ?k"
    using sched_rel_empty_ready [OF rel] Nil by (simp add: sched_next_rr_def)
  moreover have "sched_frame k ?k" by (rule sched_frame_trans [OF sched_frame_status(2) sched_frame_task_switch])
  moreover have "sched_rel ?k (rr_dispatch (idle_task k) (quantum \<circ> tasks k) a)"
    using rel by (simp add: sched_rel_def rr_dispatch_def Nil rings_of_upd)
  ultimately show ?thesis by blast
next
  case (Cons t ts)
  have d: "distinct (rr_queued a)" and t: "t < NR_TASKS"
    using wf Cons by (auto simp: rr_wf_def rr_queued_def)
  then have st: "status (tasks k t) \<noteq> ST_RUN"
    using sched_relD(5) [OF rel, of t] Cons by (auto simp: rr_queued_def)
  have R: "rings_of a Readyqueue = Some ([] @ Task_list t # map Task_list ts)" by (simp add: Cons)
  from ups_take [OF sched_relD(1) [OF rel] st R] obtain h where
    h: "update_process_state_rr t None k =
        Some (task_update t (status_update (\<lambda>_. ST_RUN)) (k\<lparr>lists := h\<rparr>))"
      "rings h ((rings_of a)(Readyqueue \<mapsto> map Task_list ts))" by auto
  let ?k1 = "task_update t (status_update (\<lambda>_. ST_RUN)) (k\<lparr>lists := h\<rparr>)"
  let ?k = "task_switch t (?k1\<lparr>current_quantum := quantum (tasks ?k1 t)\<rparr>)"
  have "list_first (Some Readyqueue) (lists k) = Some (Some (Task_list t))"
    using zl.first [OF sched_relD(1) [OF rel], of Readyqueue] R by simp
  then have "sched_next_rr k = Some ?k"
    using sched_rel_empty_ready [OF rel] Cons h(1) by (simp add: sched_next_rr_def)
  moreover have "sched_frame k ?k"
    by (rule sched_frame_trans [OF sched_frame_status(1) sched_frame_trans
          [OF sched_frame_status(2) sched_frame_task_switch]])
  moreover have "sched_rel ?k (rr_dispatch (idle_task k) (quantum \<circ> tasks k) a)"
    using rel h(2) d by (auto simp: sched_rel_def rr_dispatch_def Cons rings_of_upd rr_queued_def)
  ultimately show ?thesis by blast
qed

lemma rr_wf_cong:
  assumes "rr_wf idle a" and "distinct (rr_queued a')"
    and "set (rr_queued a') \<union> {rr_current a', idle} = set (rr_queued a) \<union> {rr_current a, idle}"
    and "idle \<notin> set (rr_free a' @ rr_blocked a' @ rr_tick a')" and "rr_fam a' = rr_fam a"
  shows "rr_wf idle a'"
  using assms unfolding rr_wf_def by simp

lemma rr_wfD:
  assumes "rr_wf idle a"
  shows "distinct (rr_queued a)" "rr_current a < NR_TASKS" "idle < NR_TASKS"
    "idle \<notin> set (rr_free a @ rr_blocked a @ rr_tick a)" "t \<in> set (rr_queued a) \<Longrightarrow> t < NR_TASKS"
  using assms unfolding rr_wf_def by auto

lemma rr_wf_dispatch:
  assumes "rr_wf idle a" and "rr_current a \<in> set (rr_queued a) \<or> rr_current a = idle"
  shows "rr_wf idle (rr_dispatch idle q a)" and "rr_running (rr_dispatch idle q a)"
proof -
  note d = rr_wfD(1,4) [OF assms(1)]
  show "rr_wf idle (rr_dispatch idle q a)"
    by (rule rr_wf_cong [OF assms(1)])
      (use d assms(2) in \<open>auto simp: rr_queued_def rr_dispatch_def split: list.splits\<close>)
  show "rr_running (rr_dispatch idle q a)"
    using d by (auto simp: rr_running_def rr_queued_def rr_dispatch_def split: list.splits)
qed

lemma rr_wake_simps [simp]:
  "rr_current (rr_wake a) = rr_current a" "rr_free (rr_wake a) = rr_free a"
  "rr_blocked (rr_wake a) = rr_blocked a" "rr_quantum (rr_wake a) = rr_quantum a"
  "rr_tick (rr_wake a) = []" "rr_ready (rr_wake a) = rr_ready a @ rr_tick a"
  "rr_fam (rr_wake a) = rr_fam a" "set (rr_queued (rr_wake a)) = set (rr_queued a)"
  by (auto simp: rr_wake_def rr_queued_def)

lemma rr_wf_wake:
  assumes "rr_wf idle a"
  shows "rr_wf idle (rr_wake a)"
  by (rule rr_wf_cong [OF assms])
    (use rr_wfD(1,4) [OF assms] in \<open>auto simp: rr_queued_def rr_wake_def\<close>)

lemma rr_wf_quantum [simp]:
  "rr_wf idle (a\<lparr>rr_quantum := q\<rparr>) = rr_wf idle a" "rr_running (a\<lparr>rr_quantum := q\<rparr>) = rr_running a"
  by (simp_all add: rr_wf_def rr_running_def rr_queued_def)

lemma rr_wf_suspend:
  assumes "rr_wf idle a" and "rr_running a"
  shows "rr_wf idle (a\<lparr>rr_ready := rr_ready a @ [rr_current a]\<rparr>)"
    and "rr_current a \<noteq> idle \<Longrightarrow> rr_wf idle (a\<lparr>rr_blocked := rr_blocked a @ [rr_current a]\<rparr>)"
    and "rr_current a \<noteq> idle \<Longrightarrow> rr_wf idle (a\<lparr>rr_tick := rr_tick a @ [rr_current a]\<rparr>)"
proof -
  note d = rr_wfD(1,4) [OF assms(1)]
  show "rr_wf idle (a\<lparr>rr_ready := rr_ready a @ [rr_current a]\<rparr>)"
    by (rule rr_wf_cong [OF assms(1)]) (use d assms(2) in \<open>auto simp: rr_queued_def rr_running_def\<close>)
  show "rr_wf idle (a\<lparr>rr_blocked := rr_blocked a @ [rr_current a]\<rparr>)" if "rr_current a \<noteq> idle"
    by (rule rr_wf_cong [OF assms(1)]) (use that d assms(2) in \<open>auto simp: rr_queued_def rr_running_def\<close>)
  show "rr_wf idle (a\<lparr>rr_tick := rr_tick a @ [rr_current a]\<rparr>)" if "rr_current a \<noteq> idle"
    by (rule rr_wf_cong [OF assms(1)]) (use that d assms(2) in \<open>auto simp: rr_queued_def rr_running_def\<close>)
qed

lemma sched_rel_quantum: "sched_rel k a \<Longrightarrow> sched_rel (k\<lparr>current_quantum := c\<rparr>) (a\<lparr>rr_quantum := c\<rparr>)"
  by (simp add: sched_rel_def rings_of_upd)

lemma needs_sched_rr_refines:
  assumes rel: "sched_rel k a" and wf: "rr_wf idle a" and cur: "rr_current a \<notin> set (rr_free a @ rr_ready a @ rr_tick a)"
  shows "needs_sched_rr k =
    (let expired = (rr_quantum a \<le> 0);
         k' = (if expired then k\<lparr>current_quantum := quantum (tasks k (rr_current a))\<rparr> else k)
     in Some (expired \<and> rr_ready a \<noteq> [] \<or> rr_current a \<in> set (rr_blocked a), k'))"
proof -
  have "rr_current a < NR_TASKS" using wf by (auto simp: rr_wf_def)
  then have "status (tasks k (rr_current a)) = ST_BLOCKED \<longleftrightarrow> rr_current a \<in> set (rr_blocked a)"
    using sched_relD(5) [OF rel, of "rr_current a"] cur by auto
  then show ?thesis
    using sched_rel_empty_ready [OF rel] sched_relD(2,4) [OF rel]
    by (auto simp: needs_sched_rr_def get_quantum_def Let_def)
qed

lemma sched_rel_sched_data: "sched_rel k a \<Longrightarrow> sched_rel (update_sched_data_rr k) (a\<lparr>rr_quantum := rr_quantum a - 1\<rparr>)"
  using sched_rel_quantum [of k a "current_quantum k - 1"]
  by (simp add: update_sched_data_rr_def sched_rel_def)

text \<open>Giving up the processor: a task that is not blocked goes to the end of the ready
  queue, then the next task is selected.\<close>

lemma preempt_refines:
  assumes rel: "sched_rel k a" and wf: "rr_wf (idle_task k) a"
    and cur: "rr_current a \<notin> set (rr_free a @ rr_ready a @ rr_tick a)"
  shows "\<exists>k1 k'. (if status (tasks k (rr_current a)) \<noteq> ST_BLOCKED
        then update_process_state_rr (rr_current a) (Some Readyqueue) k else Some k) = Some k1 \<and>
      sched_next_rr k1 = Some k' \<and> sched_frame k k' \<and>
      sched_rel k' (rr_dispatch (idle_task k) (quantum \<circ> tasks k)
        (if rr_current a \<in> set (rr_blocked a) then a else a\<lparr>rr_ready := rr_ready a @ [rr_current a]\<rparr>))"
    (is "\<exists>k1 k'. ?ups = Some k1 \<and> _ k1 k' \<and> _ k' \<and> sched_rel k' (rr_dispatch _ _ ?a)")
proof -
  have st: "status (tasks k (rr_current a)) = ST_BLOCKED \<longleftrightarrow> rr_current a \<in> set (rr_blocked a)"
    using sched_relD(5) [OF rel, of "rr_current a"] rr_wfD(2) [OF wf] cur by auto
  have run: "rr_running a" if "rr_current a \<notin> set (rr_blocked a)"
    using that cur by (auto simp: rr_running_def rr_queued_def)
  have "\<exists>k1. ?ups = Some k1 \<and> sched_frame k k1 \<and> sched_rel k1 ?a"
    using suspend_ready [OF rel wf run] rel by (simp add: st)
  then obtain k1 where k1: "?ups = Some k1" "sched_frame k k1" "sched_rel k1 ?a" by blast
  have "rr_wf (idle_task k) ?a" using wf rr_wf_suspend(1) [OF wf run] by simp
  then have "rr_wf (idle_task k1) ?a" by (simp only: sched_frame_idle [OF k1(2)])
  from sched_next_rr_refines [OF k1(3) this] obtain k' where
    k': "sched_next_rr k1 = Some k'" "sched_frame k1 k'"
      "sched_rel k' (rr_dispatch (idle_task k1) (quantum \<circ> tasks k1) ?a)" by blast
  have "quantum \<circ> tasks k1 = quantum \<circ> tasks k" using sched_frame_quantum [OF k1(2)] by auto
  with k' have "sched_rel k' (rr_dispatch (idle_task k) (quantum \<circ> tasks k) ?a)"
    by (simp only: sched_frame_idle [OF k1(2)])
  with k1(1) k'(1) sched_frame_trans [OF k1(2) k'(2)] show ?thesis by blast
qed

text \<open>The scheduler as a whole, called with the running task not queued or in the blocked
  queue (\<open>sys_block\<close>).\<close>

lemma scheduler_refines:
  assumes rel: "sched_rel k a" and wf: "rr_wf (idle_task k) a"
    and cur: "rr_current a \<notin> set (rr_free a @ rr_ready a @ rr_tick a)"
  shows "\<exists>k'. scheduler k = Some k' \<and> sched_frame k k' \<and>
    sched_rel k' (rr_schedule (idle_task k) (quantum \<circ> tasks k) a)"
proof -
  let ?i = "idle_task k" and ?q = "quantum \<circ> tasks k"
  define a1 where "a1 = rr_wake (a\<lparr>rr_quantum := rr_quantum a - 1\<rparr>)"
  from wake_tick_blocked_refines [OF sched_rel_sched_data [OF rel], of ?i] wf obtain k1 where
    k1: "wake_tick_blocked (update_sched_data_rr k) = Some k1"
      "sched_frame (update_sched_data_rr k) k1" "sched_rel k1 a1" by (auto simp: a1_def)
  have f1: "sched_frame k k1"
    using sched_frame_trans [OF _ k1(2)] by (simp add: update_sched_data_rr_def)
  have a1: "rr_current a1 = rr_current a" "rr_blocked a1 = rr_blocked a" "rr_free a1 = rr_free a"
    "rr_ready a1 = rr_ready a @ rr_tick a" "rr_tick a1 = []" "rr_wf ?i a1"
    using wf by (simp_all add: a1_def rr_wf_wake)
  define expired where "expired = (rr_quantum a1 \<le> 0)"
  define k2 where "k2 = (if expired then k1\<lparr>current_quantum := quantum (tasks k1 (rr_current a))\<rparr> else k1)"
  define a2 where "a2 = (if expired then a1\<lparr>rr_quantum := ?q (rr_current a)\<rparr> else a1)"
  define need where "need = (expired \<and> rr_ready a1 \<noteq> [] \<or> rr_current a \<in> set (rr_blocked a))"
  have needs: "needs_sched_rr k1 = Some (need, k2)"
    using needs_sched_rr_refines [OF k1(3) a1(6)] cur
    by (simp add: need_def expired_def k2_def a1 Let_def)
  have rel2: "sched_rel k2 a2"
    using k1(3) sched_rel_quantum [OF k1(3)] sched_frame_quantum [OF f1] by (simp add: k2_def a2_def)
  have f2: "sched_frame k k2"
    using f1 sched_frame_trans [OF f1 sched_frame_status(2)] by (simp add: k2_def)
  have q: "quantum \<circ> tasks k2 = ?q" using sched_frame_quantum [OF f2] by auto
  have wf2: "rr_wf (idle_task k2) a2" using a1(6) sched_frame_idle [OF f2] by (simp add: a2_def)
  have a2: "rr_current a2 = rr_current a" "rr_blocked a2 = rr_blocked a"
    "rr_current a2 \<notin> set (rr_free a2 @ rr_ready a2 @ rr_tick a2)"
    using cur by (simp_all add: a2_def a1)
  from preempt_refines [OF rel2 wf2 a2(3)] obtain k3 k4 where
    k4: "(if status (tasks k2 (rr_current a)) \<noteq> ST_BLOCKED
        then update_process_state_rr (rr_current a) (Some Readyqueue) k2 else Some k2) = Some k3"
      "sched_next_rr k3 = Some k4" "sched_frame k2 k4"
      "sched_rel k4 (rr_dispatch ?i ?q
        (if rr_current a \<in> set (rr_blocked a) then a2 else a2\<lparr>rr_ready := rr_ready a2 @ [rr_current a]\<rparr>))"
    unfolding a2(1,2) q sched_frame_idle [OF f2] by blast
  have "scheduler k = Some (if need then k4 else k2)"
    using k4(1,2) sched_relD(2) [OF rel2] by (simp add: scheduler_def k1(1) needs a2(1))
  moreover have "rr_schedule ?i ?q a = (if need then rr_dispatch ?i ?q
      (if rr_current a \<in> set (rr_blocked a) then a2 else a2\<lparr>rr_ready := rr_ready a2 @ [rr_current a]\<rparr>) else a2)"
    by (simp add: rr_schedule_def a2_def expired_def need_def a1_def Let_def)
  ultimately show ?thesis using f2 rel2 k4(4) sched_frame_trans [OF f2 k4(3)] by simp
qed

lemma rr_wf_schedule:
  assumes wf: "rr_wf idle a" and cur: "rr_current a \<notin> set (rr_free a @ rr_ready a @ rr_tick a)"
  shows "rr_wf idle (rr_schedule idle q a) \<and> rr_running (rr_schedule idle q a)"
proof -
  define a1 where "a1 = rr_wake (a\<lparr>rr_quantum := rr_quantum a - 1\<rparr>)"
  define a2 where "a2 = (if rr_quantum a1 \<le> 0 then a1\<lparr>rr_quantum := q (rr_current a)\<rparr> else a1)"
  let ?b = "rr_current a \<in> set (rr_blocked a)" and ?a3 = "a2\<lparr>rr_ready := rr_ready a2 @ [rr_current a]\<rparr>"
  have wf2: "rr_wf idle a2" using wf by (simp add: a2_def a1_def rr_wf_wake)
  have a2: "rr_current a2 = rr_current a" "set (rr_queued a2) = set (rr_queued a)"
    by (simp_all add: a2_def a1_def rr_queued_def) blast
  have eq: "rr_schedule idle q a = (if rr_quantum a1 \<le> 0 \<and> rr_ready a1 \<noteq> [] \<or> ?b
      then rr_dispatch idle q (if ?b then a2 else ?a3) else a2)"
    by (simp add: rr_schedule_def a2_def a1_def Let_def)
  show ?thesis
  proof (cases ?b)
    case True
    then have "rr_current a2 \<in> set (rr_queued a2)" unfolding a2 by (simp add: rr_queued_def)
    with rr_wf_dispatch [OF wf2, of q] True show ?thesis by (simp add: eq)
  next
    case False
    then have run: "rr_running a2" using cur unfolding rr_running_def a2 by (auto simp: rr_queued_def)
    have wf3: "rr_wf idle ?a3" using rr_wf_suspend(1) [OF wf2 run] by (simp add: a2(1))
    have "rr_current ?a3 \<in> set (rr_queued ?a3)" by (simp add: a2(1) rr_queued_def)
    with rr_wf_dispatch [OF wf3, of q] False wf2 run show ?thesis by (simp add: eq)
  qed
qed

section \<open>Boot\<close>

lemma fresh_ringsI: "(\<And>q xs. R q = Some xs \<Longrightarrow> n \<notin> set (q # xs)) \<Longrightarrow> fresh R n"
  by (simp add: fresh_def)

lemma fresh_empty [simp]: "fresh Map.empty n"
  by (simp add: fresh_def)

lemmas init_fresh = zl.init [OF _ fresh_forget]

text \<open>The four family links of a control block are initialised one after the other.\<close>

lemma init_links:
  assumes "rings h R" and "fresh R (Children t)" and "fresh R (Child_list t)"
    and "fresh R (Threads t)" and "fresh R (Thread_list t)"
  shows "\<exists>h1 h2 h3 h4. INIT_LIST_HEAD (Some (Children t)) h = Some h1 \<and>
    INIT_LIST_HEAD (Some (Child_list t)) h1 = Some h2 \<and>
    INIT_LIST_HEAD (Some (Threads t)) h2 = Some h3 \<and>
    INIT_LIST_HEAD (Some (Thread_list t)) h3 = Some h4 \<and>
    rings h4 (R(Children t \<mapsto> [], Child_list t \<mapsto> [], Threads t \<mapsto> [], Thread_list t \<mapsto> []))"
proof -
  obtain h1 where h1: "INIT_LIST_HEAD (Some (Children t)) h = Some h1" "rings h1 (R(Children t \<mapsto> []))"
    using init_fresh [OF assms(1,2)] by blast
  have "fresh (R(Children t \<mapsto> [])) (Child_list t)" by (rule fresh_upd [OF assms(3)]) simp
  then obtain h2 where h2: "INIT_LIST_HEAD (Some (Child_list t)) h1 = Some h2"
      "rings h2 (R(Children t \<mapsto> [], Child_list t \<mapsto> []))"
    using init_fresh [OF h1(2)] by blast
  have "fresh (R(Children t \<mapsto> [], Child_list t \<mapsto> [])) (Threads t)"
    by (intro fresh_upd assms(4)) simp_all
  then obtain h3 where h3: "INIT_LIST_HEAD (Some (Threads t)) h2 = Some h3"
      "rings h3 (R(Children t \<mapsto> [], Child_list t \<mapsto> [], Threads t \<mapsto> []))"
    using init_fresh [OF h2(2)] by blast
  have "fresh (R(Children t \<mapsto> [], Child_list t \<mapsto> [], Threads t \<mapsto> [])) (Thread_list t)"
    by (intro fresh_upd assms(5)) simp_all
  then obtain h4 where "INIT_LIST_HEAD (Some (Thread_list t)) h3 = Some h4"
      "rings h4 (R(Children t \<mapsto> [], Child_list t \<mapsto> [], Threads t \<mapsto> [], Thread_list t \<mapsto> []))"
    using init_fresh [OF h3(2)] by blast
  with h1 h2 h3 show ?thesis by blast
qed

lemma init_free_loop:
  assumes "rings (lists k) R" and "R Freequeue = Some (map Task_list [0..<a])"
    and "\<And>i. a \<le> i \<Longrightarrow> fresh R (Task_list i)" and "a \<le> b"
  shows "\<exists>h. ofold (\<lambda>i. on_lists (list_add_tail (Some (Task_list i)) (Some Freequeue))) [a..<b] k
      = Some (k\<lparr>lists := h\<rparr>) \<and> rings h (R(Freequeue \<mapsto> map Task_list [0..<b]))"
  using assms
proof (induction "b - a" arbitrary: a k R)
  case 0
  then have "R(Freequeue \<mapsto> map Task_list [0..<b]) = R" by (auto simp: fun_eq_iff)
  with 0 show ?case by (intro exI [of _ "lists k"]) simp
next
  case (Suc n)
  then have ab: "[a..<b] = a # [Suc a..<b]" by (simp add: upt_conv_Cons)
  from zl.add_tail [OF Suc.prems(1,2) Suc.prems(3) [OF order_refl]] obtain h1 where
    h1: "list_add_tail (Some (Task_list a)) (Some Freequeue) (lists k) = Some h1"
      "rings h1 (R(Freequeue \<mapsto> map Task_list [0..<Suc a]))" by auto
  let ?R = "R(Freequeue \<mapsto> map Task_list [0..<Suc a])"
  have fr: "fresh ?R (Task_list i)" if "Suc a \<le> i" for i
    using that Suc.prems(3) [of i] by (intro fresh_upd) auto
  have n: "n = b - Suc a" "Suc a \<le> b" using Suc.hyps(2) Suc.prems(4) by linarith+
  have "rings (lists (k\<lparr>lists := h1\<rparr>)) ?R" "?R Freequeue = Some (map Task_list [0..<Suc a])"
    using h1(2) by simp_all
  from Suc.hyps(1) [OF n(1) this fr n(2)] obtain h where
    "ofold (\<lambda>i. on_lists (list_add_tail (Some (Task_list i)) (Some Freequeue))) [Suc a..<b] (k\<lparr>lists := h1\<rparr>)
      = Some (k\<lparr>lists := h\<rparr>)" "rings h (R(Freequeue \<mapsto> map Task_list [0..<b]))" by auto
  with h1(1) show ?case by (intro exI [of _ h]) (simp add: ab on_lists_def)
qed

definition queue_heads :: "lnode set" where
  "queue_heads = {Freequeue, Readyqueue, Blockedqueue, Tick_blockedqueue}"

definition boot_rings :: "lnode \<rightharpoonup> lnode list" where
  "boot_rings = [Freequeue \<mapsto> map Task_list [0..<NR_TASKS], Readyqueue \<mapsto> [],
     Blockedqueue \<mapsto> [], Tick_blockedqueue \<mapsto> []]"

lemma init_queues_spec: "\<exists>h. init_queues k = Some (k\<lparr>lists := h\<rparr>) \<and> rings h boot_rings"
proof -
  have "rings (lists k) Map.empty" by (simp add: rings_def)
  from init_fresh [OF this fresh_empty] obtain h1 where
    h1: "INIT_LIST_HEAD (Some Freequeue) (lists k) = Some h1" "rings h1 [Freequeue \<mapsto> []]" by blast
  have "fresh [Freequeue \<mapsto> []] Readyqueue" by (intro fresh_upd) simp_all
  from init_fresh [OF h1(2) this] obtain h2 where
    h2: "INIT_LIST_HEAD (Some Readyqueue) h1 = Some h2" "rings h2 [Freequeue \<mapsto> [], Readyqueue \<mapsto> []]"
    by blast
  have "fresh [Freequeue \<mapsto> [], Readyqueue \<mapsto> []] Blockedqueue" by (intro fresh_upd) simp_all
  from init_fresh [OF h2(2) this] obtain h3 where
    h3: "INIT_LIST_HEAD (Some Blockedqueue) h2 = Some h3"
      "rings h3 [Freequeue \<mapsto> [], Readyqueue \<mapsto> [], Blockedqueue \<mapsto> []]" by blast
  let ?R = "[Freequeue \<mapsto> [], Readyqueue \<mapsto> [], Blockedqueue \<mapsto> [], Tick_blockedqueue \<mapsto> []]"
  have "fresh [Freequeue \<mapsto> [], Readyqueue \<mapsto> [], Blockedqueue \<mapsto> []] Tick_blockedqueue"
    by (intro fresh_upd) simp_all
  from init_fresh [OF h3(2) this] obtain h4 where
    h4: "INIT_LIST_HEAD (Some Tick_blockedqueue) h3 = Some h4" "rings h4 ?R" by blast
  have "rings (lists (k\<lparr>lists := h4\<rparr>)) ?R" "?R Freequeue = Some (map Task_list [0..<0])"
    using h4(2) by simp_all
  moreover have "fresh ?R (Task_list i)" for i by (intro fresh_upd) simp_all
  ultimately obtain h where
    h: "ofold (\<lambda>i. on_lists (list_add_tail (Some (Task_list i)) (Some Freequeue))) [0..<NR_TASKS]
        (k\<lparr>lists := h4\<rparr>) = Some (k\<lparr>lists := h\<rparr>)"
      "rings h (?R(Freequeue \<mapsto> map Task_list [0..<NR_TASKS]))"
    using init_free_loop [of "k\<lparr>lists := h4\<rparr>" ?R 0 NR_TASKS] by auto
  have "?R(Freequeue \<mapsto> map Task_list [0..<NR_TASKS]) = boot_rings"
    by (auto simp: boot_rings_def)
  with h h1(1) h2(1) h3(1) h4(1) show ?thesis
    by (intro exI [of _ h]) (simp add: init_queues_def on_lists_def)
qed

text \<open>Taking the first free control block and initialising its family links.\<close>

definition linked :: "nat \<Rightarrow> (lnode \<rightharpoonup> lnode list) \<Rightarrow> lnode \<rightharpoonup> lnode list" where
  "linked t R = R(Children t \<mapsto> [], Child_list t \<mapsto> [], Threads t \<mapsto> [], Thread_list t \<mapsto> [])"

definition unlinked :: "nat \<Rightarrow> (lnode \<rightharpoonup> lnode list) \<Rightarrow> bool" where
  "unlinked t R \<longleftrightarrow> fresh R (Children t) \<and> fresh R (Child_list t) \<and> fresh R (Threads t) \<and>
     fresh R (Thread_list t)"

lemma take_free_links:
  assumes R: "rings h R" "R Freequeue = Some (Task_list t # xs)" and f: "unlinked t R"
  obtains h0 h1 h2 h3 h4 where
    "load_next (Some Freequeue) h = Some (Some (Task_list t))"
    "list_first (Some Freequeue) h = Some (Some (Task_list t))"
    "list_empty (Some Freequeue) h = Some False"
    "list_del (Some (Task_list t)) h = Some h0" "rings h0 (R(Freequeue \<mapsto> xs))"
    "INIT_LIST_HEAD (Some (Children t)) h0 = Some h1"
    "INIT_LIST_HEAD (Some (Child_list t)) h1 = Some h2"
    "INIT_LIST_HEAD (Some (Threads t)) h2 = Some h3"
    "INIT_LIST_HEAD (Some (Thread_list t)) h3 = Some h4"
    "rings h4 (linked t (R(Freequeue \<mapsto> xs)))"
proof -
  note p = zl.pop_front [OF R]
  from p(3) obtain h0 where h0: "list_del (Some (Task_list t)) h = Some h0" "rings h0 (R(Freequeue \<mapsto> xs))"
    by blast
  have "n \<notin> set (Freequeue # xs)" if "fresh R n" for n
    using that R(2) unfolding fresh_def by force
  then have "fresh (R(Freequeue \<mapsto> xs)) n" if "fresh R n" for n
    using that by (intro fresh_upd) auto
  with f have "fresh (R(Freequeue \<mapsto> xs)) (Children t)" "fresh (R(Freequeue \<mapsto> xs)) (Child_list t)"
    "fresh (R(Freequeue \<mapsto> xs)) (Threads t)" "fresh (R(Freequeue \<mapsto> xs)) (Thread_list t)"
    unfolding unlinked_def by blast+
  from init_links [OF h0(2) this] obtain h1 h2 h3 h4 where
    "INIT_LIST_HEAD (Some (Children t)) h0 = Some h1" "INIT_LIST_HEAD (Some (Child_list t)) h1 = Some h2"
    "INIT_LIST_HEAD (Some (Threads t)) h2 = Some h3" "INIT_LIST_HEAD (Some (Thread_list t)) h3 = Some h4"
    "rings h4 (linked t (R(Freequeue \<mapsto> xs)))" unfolding linked_def by blast
  with p(1) show ?thesis by (intro that [OF _ p(1,2) h0]) (simp_all add: list_first_def)
qed

lemma allocate_DIR_simps [simp]:
  "lists (allocate_DIR t k) = lists k" "idle_task (allocate_DIR t k) = idle_task k"
  "init_task (allocate_DIR t k) = init_task k" "mm (allocate_DIR t k) = mm k"
  "current_task (allocate_DIR t k) = current_task k" "cpu_task (allocate_DIR t k) = cpu_task k"
  "current_quantum (allocate_DIR t k) = current_quantum k"
  "kmem (allocate_DIR t k) = kmem k" "tasks_base (allocate_DIR t k) = tasks_base k"
  "next_pid (allocate_DIR t k) = next_pid k" "get_DIR t (allocate_DIR t k) = t"
  "tasks (allocate_DIR t k) u = (if u = t then (tasks k t)\<lparr>dir_pages_baseAddr := t\<rparr> else tasks k u)"
  "stack_addr (allocate_DIR t k) v i = stack_addr k v i"
  "sym_ret_from_fork (allocate_DIR t k) = sym_ret_from_fork k"
  by (simp_all add: allocate_DIR_def get_DIR_def)

lemma kbd_init_simps [simp]:
  "status (init_keyboard_fields t) = status t" "quantum (init_keyboard_fields t) = quantum t"
  "PID (init_keyboard_fields t) = PID t" "TID (init_keyboard_fields t) = TID t"
  "kernel_esp (init_keyboard_fields t) = kernel_esp t"
  "dir_pages_baseAddr (init_keyboard_fields t) = dir_pages_baseAddr t"
  "tid_slots (init_keyboard_fields t) = tid_slots t" "status (init_tid_slots t) = status t"
  "quantum (init_tid_slots t) = quantum t" "PID (init_tid_slots t) = PID t"
  "dir_pages_baseAddr (init_tid_slots t) = dir_pages_baseAddr t"
  by (simp_all add: init_keyboard_fields_def clear_kbd_saved_ctx_def init_tid_slots_def)

lemma init_idle_spec:
  assumes "rings (lists k) R" and "R Freequeue = Some (Task_list t # xs)" and "unlinked t R"
  shows "\<exists>k'. init_idle k = Some k' \<and> rings (lists k') (linked t (R(Freequeue \<mapsto> xs))) \<and>
    idle_task k' = t \<and> mm k' = mm k \<and> (\<forall>u. status (tasks k' u) = status (tasks k u)) \<and>
    (\<forall>u. u \<noteq> t \<longrightarrow> tasks k' u = tasks k u) \<and> PID (tasks k' t) = 0 \<and> quantum (tasks k' t) = 1"
  by (rule take_free_links [OF assms]) (simp add: init_idle_def on_lists_def)

lemma init_task1_spec:
  assumes "rings (lists k) R" and "R Freequeue = Some (Task_list t # xs)" and "unlinked t R"
  shows "\<exists>k'. init_task1 k = Some k' \<and> rings (lists k') (linked t (R(Freequeue \<mapsto> xs))) \<and>
    idle_task k' = idle_task k \<and> init_task k' = t \<and> current_task k' = Some t \<and>
    current_quantum k' = 1 \<and> status (tasks k' t) = ST_RUN \<and>
    (\<forall>u. u \<noteq> t \<longrightarrow> tasks k' u = tasks k u) \<and> PID (tasks k' t) = 1 \<and> quantum (tasks k' t) = 1 \<and>
    cr3 (mm k') = t"
  by (rule take_free_links [OF assms])
    (simp add: init_task1_def on_lists_def get_DIR_def split: prod.split)

definition boot_rr :: rr where
  "boot_rr = \<lparr>rr_free = [2..<NR_TASKS], rr_ready = [], rr_blocked = [], rr_tick = [],
     rr_current = 1, rr_quantum = 1, rr_fam = linked 1 (linked 0 Map.empty)\<rparr>"

lemma rr_wf_boot: "rr_wf 0 boot_rr" and rr_running_boot: "rr_running boot_rr"
proof -
  have "{2..<25} \<union> {1, 0} = {..<25 :: nat}" by auto
  then show "rr_wf 0 boot_rr"
    by (auto simp: rr_wf_def boot_rr_def rr_queued_def linked_def split: if_splits)
  show "rr_running boot_rr" by (simp add: rr_running_def boot_rr_def rr_queued_def)
qed

lemma boot_rings_steps:
  "boot_rings Freequeue = Some (Task_list 0 # map Task_list [1..<NR_TASKS])"
  "unlinked 0 boot_rings"
  "(linked 0 (boot_rings(Freequeue \<mapsto> map Task_list [1..<NR_TASKS]))) Freequeue =
     Some (Task_list 1 # map Task_list [2..<NR_TASKS])"
  "unlinked 1 (linked 0 (boot_rings(Freequeue \<mapsto> map Task_list [1..<NR_TASKS])))"
  "linked 1 ((linked 0 (boot_rings(Freequeue \<mapsto> map Task_list [1..<NR_TASKS])))
     (Freequeue \<mapsto> map Task_list [2..<NR_TASKS])) = rings_of boot_rr"
proof -
  have u: "[0..<25 :: nat] = 0 # [1..<25]" "[1..<25 :: nat] = 1 # [2..<25]"
    by (simp_all add: upt_conv_Cons numeral_2_eq_2)
  show "boot_rings Freequeue = Some (Task_list 0 # map Task_list [1..<NR_TASKS])"
    unfolding boot_rings_def by (subst u(1)) simp
  show "(linked 0 (boot_rings(Freequeue \<mapsto> map Task_list [1..<NR_TASKS]))) Freequeue =
      Some (Task_list 1 # map Task_list [2..<NR_TASKS])"
    unfolding linked_def by (subst u(2)) simp
  show "unlinked 0 boot_rings" unfolding unlinked_def boot_rings_def
    by (intro conjI fresh_upd) auto
  show "unlinked 1 (linked 0 (boot_rings(Freequeue \<mapsto> map Task_list [1..<NR_TASKS])))"
    unfolding unlinked_def boot_rings_def linked_def by (intro conjI fresh_upd) auto
  show "linked 1 ((linked 0 (boot_rings(Freequeue \<mapsto> map Task_list [1..<NR_TASKS])))
      (Freequeue \<mapsto> map Task_list [2..<NR_TASKS])) = rings_of boot_rr"
    unfolding linked_def boot_rings_def rings_of_def boot_rr_def by (auto simp: fun_eq_iff)
qed

section \<open>Context switch round trip\<close>

text \<open>The words that the outgoing activation of \<open>task_switch\<close> leaves on its stack.\<close>

definition frame_saved :: "cpu_regs \<Rightarrow> kernel \<Rightarrow> bool" where
  "frame_saved r k \<longleftrightarrow>
     kmem k (esp r - 8) = sym_after_task_switch k \<and> kmem k (esp r - 12) = ebp r \<and>
     kmem k (esp r - 16) = edi r \<and> kmem k (esp r - 20) = esi r \<and> kmem k (esp r - 24) = ebx r \<and>
     kmem k (esp r - 32) = sym_after_inner_task_switch k \<and> kmem k (esp r - 36) = esp r - 12"

lemma word_sub_sub: "(x :: u32) - a - b = x - (a + b)"
  by simp

lemma prologue_regs:
  "regs (task_switch_prologue t k) = (regs k)\<lparr>esp := esp (regs k) - 32, ebp := esp (regs k) - 12\<rparr>"
  by (simp add: task_switch_prologue_def pushl_def movl_def)

lemma prologue_kmem:
  "kmem (task_switch_prologue t k) = (kmem k)(esp (regs k) - 4 := stack_addr k t 0,
     esp (regs k) - 8 := sym_after_task_switch k, esp (regs k) - 12 := ebp (regs k),
     esp (regs k) - 16 := edi (regs k), esp (regs k) - 20 := esi (regs k),
     esp (regs k) - 24 := ebx (regs k), esp (regs k) - 28 := stack_addr k t 0,
     esp (regs k) - 32 := sym_after_inner_task_switch k)"
  by (simp add: task_switch_prologue_def pushl_def movl_def stack_addr_def)

lemma epilogue_kmem [simp]: "kmem (task_switch_epilogue k) = kmem k"
  by (simp add: task_switch_epilogue_def popl_def movl_def ret_def)

lemma inner_kmem:
  "kmem (inner_task_switch t k) = (kmem k)(esp (regs k) - 4 := ebp (regs k))"
  by (simp add: inner_task_switch_def switch_context_def pushl_def popl_def movl_def ret_def
      task_update_def Let_def)

lemma task_switch_kmem:
  "kmem (task_switch t k) = (kmem k)(esp (regs k) - 4 := stack_addr k t 0,
     esp (regs k) - 8 := sym_after_task_switch k, esp (regs k) - 12 := ebp (regs k),
     esp (regs k) - 16 := edi (regs k), esp (regs k) - 20 := esi (regs k),
     esp (regs k) - 24 := ebx (regs k), esp (regs k) - 28 := stack_addr k t 0,
     esp (regs k) - 32 := sym_after_inner_task_switch k, esp (regs k) - 36 := esp (regs k) - 12)"
  by (simp add: task_switch_def Let_def inner_kmem prologue_kmem prologue_regs)

lemma task_switch_saves:
  assumes "cpu_task k = a"
  shows "kernel_esp (tasks (task_switch b k) a) = esp (regs k) - 36"
    and "frame_saved (regs k) (task_switch b k)"
proof -
  show "kernel_esp (tasks (task_switch b k) a) = esp (regs k) - 36"
    using assms by (simp add: task_switch_def inner_task_switch_def switch_context_def pushl_def
        movl_def prologue_regs Let_def)
  have "sym_after_task_switch (task_switch b k) = sym_after_task_switch k"
    "sym_after_inner_task_switch (task_switch b k) = sym_after_inner_task_switch k"
    by (simp_all add: task_switch_def inner_task_switch_def switch_context_def Let_def)
  then show "frame_saved (regs k) (task_switch b k)"
    by (simp add: frame_saved_def task_switch_kmem)
qed

definition frame_addrs :: "u32 \<Rightarrow> u32 set" where
  "frame_addrs s = {s - 4, s - 8, s - 12, s - 16, s - 20, s - 24, s - 28, s - 32, s - 36}"

lemma inner_task_switch_regs:
  fixes new k
  defines "e \<equiv> kernel_esp (tasks k new)"
  assumes "cpu_task k \<noteq> new"
  shows "regs (inner_task_switch new k) = (regs k)\<lparr>
      esp := e + 8, ebp := kmem (inner_task_switch new k) e,
      eip := kmem (inner_task_switch new k) (e + 4)\<rparr>"
  using assms(2) unfolding e_def inner_kmem
  by (simp add: inner_task_switch_def switch_context_def pushl_def popl_def movl_def ret_def
      task_update_def Let_def)

lemma epilogue_regs:
  "regs (task_switch_epilogue k) = (regs k)\<lparr>
     ebx := kmem k (esp (regs k) + 4), esi := kmem k (esp (regs k) + 8),
     edi := kmem k (esp (regs k) + 12), ebp := kmem k (ebp (regs k)),
     esp := ebp (regs k) + 8, eip := kmem k (ebp (regs k) + 4)\<rparr>"
  by (simp add: task_switch_epilogue_def popl_def movl_def ret_def add.commute)

lemma task_switch_resumes:
  assumes ke: "kernel_esp (tasks k a) = esp r - 36" and fr: "frame_saved r k" and ne: "cpu_task k \<noteq> a"
    and dis: "frame_addrs (esp (regs k)) \<inter> frame_addrs (esp r) = {}"
  shows "regs (task_switch a k) = r\<lparr>eip := sym_after_task_switch k, esp := esp r - 4\<rparr>"
proof -
  let ?k = "inner_task_switch a (task_switch_prologue a k)"
  let ?m = "kmem ?k"
  have m: "?m x = kmem k x" if "x \<in> frame_addrs (esp r)" for x
  proof -
    have "x \<notin> frame_addrs (esp (regs k))" using dis that by blast
    then show ?thesis by (simp add: inner_kmem prologue_kmem prologue_regs frame_addrs_def)
  qed
  have w: "?m (esp r - 8) = sym_after_task_switch k" "?m (esp r - 12) = ebp r"
    "?m (esp r - 16) = edi r" "?m (esp r - 20) = esi r" "?m (esp r - 24) = ebx r"
    "?m (esp r - 32) = sym_after_inner_task_switch k" "?m (esp r - 36) = esp r - 12"
    using fr by (simp_all add: m frame_addrs_def frame_saved_def)
  have "cpu_task (task_switch_prologue a k) \<noteq> a" using ne by simp
  note i = inner_task_switch_regs [OF this]
  have "regs ?k = (regs (task_switch_prologue a k))\<lparr>esp := esp r - 28, ebp := esp r - 12,
      eip := sym_after_inner_task_switch k\<rparr>"
    using w(6,7) by (subst i) (simp add: ke)
  moreover have "sym_after_inner_task_switch ?k = sym_after_inner_task_switch k"
    by (simp add: inner_task_switch_def switch_context_def Let_def)
  ultimately show ?thesis
    using w by (simp add: task_switch_def Let_def epilogue_regs prologue_regs)
qed

section \<open>Properties\<close>

lemma main_init_boot:
  assumes st: "\<And>t. status (tasks k t) = ST_RUN"
  shows "\<exists>k'. main_init k = Some k' \<and> sched_rel k' boot_rr \<and> idle_task k' = 0 \<and> init_task k' = 1 \<and>
    PID (tasks k' 0) = 0 \<and> PID (tasks k' 1) = 1 \<and> quantum (tasks k' 0) = 1 \<and> quantum (tasks k' 1) = 1 \<and>
    cr3 (mm k') = 1"
proof -
  let ?k = "allocate_DIR 0 (k\<lparr>mm := init_mm (mm k)\<rparr>)"
  obtain h where h: "init_queues ?k = Some (?k\<lparr>lists := h\<rparr>)" "rings h boot_rings"
    using init_queues_spec [of ?k] by blast
  let ?k1 = "?k\<lparr>lists := h\<rparr>"
  have r1: "rings (lists ?k1) boot_rings" using h(2) by simp
  from init_idle_spec [OF r1 boot_rings_steps(1,2)] obtain k2 where
    k2: "init_idle ?k1 = Some k2"
      "rings (lists k2) (linked 0 (boot_rings(Freequeue \<mapsto> map Task_list [1..<NR_TASKS])))"
      "idle_task k2 = 0" "\<forall>u. status (tasks k2 u) = status (tasks ?k1 u)" "PID (tasks k2 0) = 0"
      "quantum (tasks k2 0) = 1" by auto
  from init_task1_spec [OF k2(2) boot_rings_steps(3,4)] obtain k3 where
    k3: "init_task1 k2 = Some k3" "rings (lists k3) (rings_of boot_rr)" "idle_task k3 = 0"
      "init_task k3 = 1" "current_task k3 = Some 1" "current_quantum k3 = 1"
      "status (tasks k3 1) = ST_RUN" "\<forall>u. u \<noteq> 1 \<longrightarrow> tasks k3 u = tasks k2 u"
      "PID (tasks k3 1) = 1" "quantum (tasks k3 1) = 1" "cr3 (mm k3) = 1"
    unfolding boot_rings_steps(5) using k2(3) by auto
  let ?k4 = "k3\<lparr>cpu_task := init_task k3, regs := (regs k3)\<lparr>esp := tss_esp0 k3\<rparr>\<rparr>"
  have "status (tasks k3 t) = ST_RUN" for t
    using k3(7,8) k2(4) st by (cases "t = 1") auto
  then have "sched_rel ?k4 boot_rr"
    using k3(2,4,5,6) by (simp add: sched_rel_def) (simp add: boot_rr_def)
  moreover have "main_init k = Some ?k4"
    by (simp add: main_init_def init_sched_def h(1) k2(1) k3(1))
  ultimately show ?thesis using k3 k2(5,6) by simp
qed

lemma boot_kernel_zero:
  obtains k where "main_init kernel_zero = Some k" "sched_rel k boot_rr" "idle_task k = 0"
    "rr_wf (idle_task k) boot_rr" "quantum (tasks k 0) = 1" "quantum (tasks k 1) = 1"
  using main_init_boot [of kernel_zero] rr_wf_boot
  by (force simp: kernel_zero_def task_zero_def)

text \<open>Property C10 (main_init_establishes). From the zeroed image, the initialisation of \<open>main\<close>
  runs without a fault and leaves the scheduler in a well-formed state: task 1 runs with PID 1
  and its page directory loaded, slot 0 is the idle task with PID 0, the 23 other slots are
  free, the ready and blocked queues are empty.\<close>

theorem main_init_establishes:
  assumes "\<And>t. status (tasks k t) = ST_RUN"
  shows "\<exists>k'. main_init k = Some k' \<and> sched_rel k' boot_rr \<and> rr_wf (idle_task k') boot_rr \<and>
    rr_running boot_rr \<and> idle_task k' = 0 \<and> current_task k' = Some 1 \<and> PID (tasks k' 0) = 0 \<and>
    PID (tasks k' 1) = 1 \<and> cr3 (mm k') = 1"
  using main_init_boot [OF assms] rr_wf_boot rr_running_boot
  by (fastforce simp: sched_rel_def boot_rr_def)

theorem main_init_establishes_witness:
  "\<exists>k'. main_init kernel_zero = Some k' \<and> sched_rel k' boot_rr \<and> current_task k' = Some 1"
  using main_init_establishes [of kernel_zero] by (auto simp: kernel_zero_def task_zero_def)

text \<open>Property C4 (scheduler_refines_rr). The pointer code of \<open>scheduler\<close> implements the abstract
  round robin \<open>rr_schedule\<close>: called in a well-formed state with the current task running or
  just blocked, it never faults, its queues, current task, quantum and status fields are those
  of the specification, the result is well formed with a running current task, and
  nothing but scheduling state changes.\<close>

theorem scheduler_refines_rr:
  assumes "sched_rel k a" and "rr_wf (idle_task k) a"
    and "rr_current a \<notin> set (rr_free a @ rr_ready a @ rr_tick a)"
  shows "\<exists>k'. scheduler k = Some k' \<and> sched_frame k k' \<and>
    sched_rel k' (rr_schedule (idle_task k) (quantum \<circ> tasks k) a) \<and>
    rr_wf (idle_task k') (rr_schedule (idle_task k) (quantum \<circ> tasks k) a) \<and>
    rr_running (rr_schedule (idle_task k) (quantum \<circ> tasks k) a)"
  using scheduler_refines [OF assms] rr_wf_schedule [OF assms(2,3)] sched_frame_idle by metis

theorem scheduler_refines_rr_witness:
  "\<exists>k k'. main_init kernel_zero = Some k \<and> scheduler k = Some k' \<and> sched_frame k k'"
proof -
  obtain k where k: "main_init kernel_zero = Some k" "sched_rel k boot_rr" "rr_wf (idle_task k) boot_rr"
    by (rule boot_kernel_zero)
  have "rr_current boot_rr \<notin> set (rr_free boot_rr @ rr_ready boot_rr @ rr_tick boot_rr)"
    by (simp add: boot_rr_def)
  from scheduler_refines_rr [OF k(2,3) this] k(1) show ?thesis by blast
qed

text \<open>Property C7 (context_switch_roundtrip). A task that gave up the processor in \<open>task_switch\<close>
  gets it back with its frame pointer and callee-saved registers intact, just after its call,
  provided its \<open>kernel_esp\<close> and the nine words it pushed are untouched in between and the two
  kernel stacks do not overlap.\<close>

theorem context_switch_roundtrip:
  assumes "cpu_task k = a" and "cpu_task k2 \<noteq> a"
    and "kernel_esp (tasks k2 a) = kernel_esp (tasks (task_switch b k) a)"
    and "\<forall>x \<in> frame_addrs (esp (regs k)). kmem k2 x = kmem (task_switch b k) x"
    and "sym_after_task_switch k2 = sym_after_task_switch k"
      "sym_after_inner_task_switch k2 = sym_after_inner_task_switch k"
    and "frame_addrs (esp (regs k2)) \<inter> frame_addrs (esp (regs k)) = {}"
  shows "regs (task_switch a k2) = (regs k)\<lparr>eip := sym_after_task_switch k, esp := esp (regs k) - 4\<rparr>"
proof -
  note s = task_switch_saves [OF assms(1), of b]
  have "sym_after_task_switch (task_switch b k) = sym_after_task_switch k"
    "sym_after_inner_task_switch (task_switch b k) = sym_after_inner_task_switch k"
    by (simp_all add: task_switch_def inner_task_switch_def switch_context_def Let_def)
  then have "frame_saved (regs k) k2"
    using s(2) assms(4,5,6) by (simp add: frame_saved_def frame_addrs_def)
  moreover have "kernel_esp (tasks k2 a) = esp (regs k) - 36" using s(1) assms(3) by simp
  ultimately show ?thesis
    using task_switch_resumes [OF _ _ assms(2) assms(7)] assms(5) by simp
qed

lemma task_switch_new_regs:
  assumes "cpu_task k \<noteq> t" and "kmem (task_switch t k) (kernel_esp (tasks k t) + 4) \<noteq> sym_after_inner_task_switch k"
  shows "esp (regs (task_switch t k)) = kernel_esp (tasks k t) + 8"
proof -
  let ?k = "inner_task_switch t (task_switch_prologue t k)"
  have "cpu_task (task_switch_prologue t k) \<noteq> t" using assms(1) by simp
  note r = inner_task_switch_regs [OF this]
  have s: "sym_after_inner_task_switch ?k = sym_after_inner_task_switch k"
    by (simp add: inner_task_switch_def switch_context_def Let_def)
  have "kmem (task_switch t k) = kmem ?k" by (simp add: task_switch_def Let_def)
  then have "eip (regs ?k) \<noteq> sym_after_inner_task_switch ?k" using assms(2) s by (simp add: r)
  then show ?thesis by (simp add: task_switch_def Let_def) (simp add: r)
qed

definition two_stacks :: kernel where
  "two_stacks = kernel_zero\<lparr>cpu_task := 1,
     regs := \<lparr>eip = 0, esp = 0x22000, ebp = 7, ebx = 8, esi = 9, edi = 10\<rparr>,
     tasks := (\<lambda>_. task_zero)(2 := task_zero\<lparr>kernel_esp := 0x23F00\<rparr>)\<rparr>"

theorem context_switch_roundtrip_witness:
  "regs (task_switch 1 (task_switch 2 two_stacks)) =
     \<lparr>eip = 0x10400, esp = 0x21FFC, ebp = 7, ebx = 8, esi = 9, edi = 10\<rparr>"
proof -
  have k: "cpu_task two_stacks = 1" "esp (regs two_stacks) = 0x22000" "kernel_esp (tasks two_stacks 2) = 0x23F00"
    "sym_after_inner_task_switch two_stacks = 0x10300" "sym_after_task_switch two_stacks = 0x10400"
    "\<And>x. kmem two_stacks x = 0"
    by (simp_all add: two_stacks_def kernel_zero_def)
  have "esp (regs (task_switch 2 two_stacks)) = 0x23F08"
    by (subst task_switch_new_regs) (simp_all add: k task_switch_kmem)
  then have dis: "frame_addrs (esp (regs (task_switch 2 two_stacks))) \<inter> frame_addrs (esp (regs two_stacks)) = {}"
    by (simp add: k frame_addrs_def)
  have sym: "sym_after_task_switch (task_switch 2 two_stacks) = sym_after_task_switch two_stacks"
    "sym_after_inner_task_switch (task_switch 2 two_stacks) = sym_after_inner_task_switch two_stacks"
    by (simp_all add: task_switch_def inner_task_switch_def switch_context_def Let_def)
  have "cpu_task (task_switch 2 two_stacks) \<noteq> 1" by simp
  from context_switch_roundtrip [OF k(1) this refl _ sym dis] show ?thesis
    by (simp add: two_stacks_def kernel_zero_def)
qed

end
