(* ===== verification/Zeos_Helpers.thy ===== *)
theory Zeos_Helpers
  imports Zeos_Sched
begin

text \<open>
  \<open>project/kernel_helpers.c\<close>: file descriptor checks, the keyboard context test, user stack
  regions and their growth on a page fault. The lemmas show that a region handed out is
  free, that a failed mapping gives every frame back, and what a stack fault does.
\<close>

section \<open>Definitions\<close>

abbreviation (input) FD_CONSOLE :: int where "FD_CONSOLE \<equiv> 1"
abbreviation (input) FD_DEBUG :: int where "FD_DEBUG \<equiv> 2"
abbreviation (input) FD_SCREEN :: int where "FD_SCREEN \<equiv> 10"
abbreviation (input) O_WRONLY :: int where "O_WRONLY \<equiv> 1"

definition check_fd :: "int \<Rightarrow> int \<Rightarrow> int" where
  "check_fd fd permissions =
     (if fd \<noteq> FD_CONSOLE \<and> fd \<noteq> FD_DEBUG \<and> fd \<noteq> FD_SCREEN then - EBADF
      else if permissions \<noteq> O_WRONLY then - EACCES
      else 0)"

definition in_keyboard_context :: "kernel \<Rightarrow> bool" where
  "in_keyboard_context k =
     (case current_task k of None \<Rightarrow> False | Some t \<Rightarrow> in_kbd_context (tasks k t) \<noteq> 0)"

definition page_of :: "u32 \<Rightarrow> nat" where
  "page_of a = unat (drop_bit 12 a)"

definition page_addr :: "nat \<Rightarrow> u32" where
  "page_addr p = push_bit 12 (of_nat p)"

definition grow_user_stack :: "u32 \<Rightarrow> kernel \<Rightarrow> int \<times> kernel" where
  "grow_user_stack fault_addr k =
     (case current_task k of
        None \<Rightarrow> (- EFAULT, k)
      | Some thread \<Rightarrow>
          let t = tasks k thread in
          if user_stack_region_pages t = 0 \<or> user_stack_ptr t = NULL then (- EFAULT, k) else
          let fault_page = page_of fault_addr;
              region_start = user_stack_region_start t;
              region_end = uadd region_start (user_stack_region_pages t) in
          if fault_page < region_start \<or> fault_page \<ge> region_end then (- EFAULT, k) else
          if unsigned_of (user_stack_frames t) \<ge> user_stack_region_pages t then (- ENOMEM, k) else
          let first_mapped_page = page_of (user_stack_ptr t) in
          if fault_page + 1 \<noteq> first_mapped_page then (- EFAULT, k) else
          let PT = task_PT thread k;
              (frame, m) = alloc_frame (mm k);
              k = k\<lparr>mm := m\<rparr> in
          if frame < 0 then (frame, k) else
          let k = k\<lparr>mm := set_ss_pag PT fault_page (nat frame) (mm k)\<rparr>;
              k = task_update thread (\<lambda>t. t\<lparr>user_stack_ptr := page_addr fault_page,
                    user_stack_frames := user_stack_frames t + 1\<rparr>) k
          in (0, k\<lparr>mm := set_cr3 (get_DIR thread k) (mm k)\<rparr>))"

definition stack_region_overlaps :: "task_struct \<Rightarrow> nat \<Rightarrow> nat \<Rightarrow> bool" where
  "stack_region_overlaps task start pages =
     (if user_stack_region_pages task = 0 then False else
      let end = uadd start pages;
          existing_start = user_stack_region_start task;
          existing_end = uadd existing_start (user_stack_region_pages task)
      in \<not> (end \<le> existing_start \<or> start \<ge> existing_end))"

text \<open>The \<open>list_for_each\<close> of \<open>stack_region_in_use\<close> over the thread list, first match returns.\<close>

fun any_region_overlaps :: "kernel \<Rightarrow> nat \<Rightarrow> nat \<Rightarrow> lnode list \<Rightarrow> bool option" where
  "any_region_overlaps k start pages [] = Some False"
| "any_region_overlaps k start pages (pos # rest) = do {
     thread \<leftarrow> thread_list_entry pos;
     if stack_region_overlaps (tasks k thread) start pages then Some True
     else any_region_overlaps k start pages rest }"

definition stack_region_in_use :: "nat \<Rightarrow> nat \<Rightarrow> nat \<Rightarrow> kernel \<Rightarrow> bool option" where
  "stack_region_in_use master start pages k =
     (if stack_region_overlaps (tasks k master) start pages then Some True
      else do {
        ps \<leftarrow> list_for_each (Some (Threads master)) (lists k);
        any_region_overlaps k start pages ps })"

function find_region_from :: "nat \<Rightarrow> nat \<Rightarrow> kernel \<Rightarrow> int option" where
  "find_region_from page master k =
     (if page + THREAD_STACK_REGION_PAGES \<le> TOTAL_PAGES
      then do {
        used \<leftarrow> stack_region_in_use master page THREAD_STACK_REGION_PAGES k;
        if \<not> used then Some (int page)
        else find_region_from (page + THREAD_STACK_REGION_PAGES) master k }
      else Some (-1))"
  by pat_completeness auto
termination
  by (relation "measure (\<lambda>(page, _). TOTAL_PAGES - page)") auto

declare find_region_from.simps [simp del]

definition find_free_stack_region :: "nat \<Rightarrow> kernel \<Rightarrow> int option" where
  "find_free_stack_region master k = find_region_from THREAD_STACK_BASE_PAGE master k"

primrec map_stack_rollback :: "nat \<Rightarrow> nat \<Rightarrow> nat \<Rightarrow> mm_state \<Rightarrow> mm_state" where
  "map_stack_rollback PT first_page 0 m = m"
| "map_stack_rollback PT first_page (Suc i) m =
     map_stack_rollback PT first_page i
       (del_ss_pag PT (first_page + i) (free_frame (get_frame PT (first_page + i) m) m))"

fun map_stack_loop :: "nat \<Rightarrow> nat \<Rightarrow> nat list \<Rightarrow> mm_state \<Rightarrow> int \<times> mm_state" where
  "map_stack_loop PT first_page [] m = (0, m)"
| "map_stack_loop PT first_page (i # is) m =
     (let (frame, m) = alloc_frame m in
      if frame < 0 then (- EAGAIN, map_stack_rollback PT first_page i m)
      else map_stack_loop PT first_page is (set_ss_pag PT (first_page + i) (nat frame) m))"

definition map_stack_pages :: "nat \<Rightarrow> nat \<Rightarrow> nat \<Rightarrow> kernel \<Rightarrow> int \<times> kernel" where
  "map_stack_pages master first_page pages_to_map k =
     (let PT = task_PT master k;
          (r, m) = map_stack_loop PT first_page [0..<pages_to_map] (mm k)
      in (r, k\<lparr>mm := m\<rparr>))"

definition release_thread_stack :: "nat \<Rightarrow> kernel \<Rightarrow> kernel" where
  "release_thread_stack thread k =
     (let t = tasks k thread in
      if user_stack_frames t \<le> 0 \<or> user_stack_ptr t = NULL
      then task_update thread (\<lambda>t. t\<lparr>user_stack_region_start := 0, user_stack_region_pages := 0,
             user_initial_esp := 0, user_entry := 0\<rparr>) k
      else
        let PT = task_PT thread k;
            first_page = page_of (user_stack_ptr t);
            m = fold (\<lambda>i m. del_ss_pag PT (first_page + i)
                    (free_frame (get_frame PT (first_page + i) m) m))
                  [0..<nat (user_stack_frames t)] (mm k);
            k = k\<lparr>mm := set_cr3 (get_DIR thread k) m\<rparr>
        in task_update thread (\<lambda>t. t\<lparr>user_stack_ptr := NULL, user_stack_frames := 0,
             user_stack_region_start := 0, user_stack_region_pages := 0,
             user_initial_esp := 0, user_entry := 0\<rparr>) k)"

section \<open>Stack regions\<close>

lemma any_region_overlaps_threads:
  "any_region_overlaps k s p (map Thread_list ts) =
     Some (\<exists>t \<in> set ts. stack_region_overlaps (tasks k t) s p)"
  by (induction ts) auto

lemma stack_region_in_use_spec:
  assumes "rings (lists k) R" and "R (Threads master) = Some (map Thread_list ts)"
  shows "stack_region_in_use master s p k =
    Some (\<exists>t \<in> set (master # ts). stack_region_overlaps (tasks k t) s p)"
  using zl.for_each [OF assms] by (simp add: stack_region_in_use_def any_region_overlaps_threads)

lemma stack_region_overlaps_iff:
  assumes "s + p < 2 ^ 32" and "user_stack_region_start t + user_stack_region_pages t < 2 ^ 32" and "p > 0"
  shows "stack_region_overlaps t s p \<longleftrightarrow> {s..<s + p} \<inter>
    {user_stack_region_start t..<user_stack_region_start t + user_stack_region_pages t} \<noteq> {}"
proof -
  let ?a = "user_stack_region_start t" and ?n = "user_stack_region_pages t"
  have "{s..<s + p} \<inter> {?a..<?a + ?n} = {max s ?a..<min (s + p) (?a + ?n)}" by simp
  then show ?thesis using assms by (auto simp: stack_region_overlaps_def Let_def)
qed

lemma find_region_from_step:
  assumes "stack_region_in_use master page THREAD_STACK_REGION_PAGES k = Some u"
  shows "find_region_from page master k =
    (if page + 8 \<le> TOTAL_PAGES then if u then find_region_from (page + 8) master k else Some (int page)
     else Some (-1))"
  by (subst find_region_from.simps) (simp add: assms)

lemma find_region_from_spec:
  assumes use: "\<And>p. stack_region_in_use master p THREAD_STACK_REGION_PAGES k = Some (used p)"
  shows "(find_region_from page master k = Some (-1) \<and>
      (\<forall>j. page + 8 * j + 8 \<le> TOTAL_PAGES \<longrightarrow> used (page + 8 * j))) \<or>
    (\<exists>j. find_region_from page master k = Some (int (page + 8 * j)) \<and>
       page + 8 * j + 8 \<le> TOTAL_PAGES \<and> \<not> used (page + 8 * j) \<and> (\<forall>i < j. used (page + 8 * i)))"
proof (induction "TOTAL_PAGES - page" arbitrary: page rule: less_induct)
  case less
  note step = find_region_from_step [OF use, of page]
  consider (out) "\<not> page + 8 \<le> TOTAL_PAGES" | (hit) "page + 8 \<le> TOTAL_PAGES" "\<not> used page"
    | (busy) "page + 8 \<le> TOTAL_PAGES" "used page" by blast
  then show ?case
  proof cases
    case out
    then show ?thesis by (simp add: step)
  next
    case hit
    then show ?thesis by (intro disjI2 exI [of _ 0]) (simp add: step)
  next
    case busy
    have eq: "find_region_from page master k = find_region_from (page + 8) master k"
      using busy by (simp add: step)
    have shift: "page + 8 + 8 * j = page + 8 * Suc j" for j by simp
    from busy have "TOTAL_PAGES - (page + 8) < TOTAL_PAGES - page" by simp
    from less [OF this] show ?thesis
    proof (elim disjE exE conjE)
      assume none: "find_region_from (page + 8) master k = Some (-1)"
        "\<forall>j. page + 8 + 8 * j + 8 \<le> TOTAL_PAGES \<longrightarrow> used (page + 8 + 8 * j)"
      have "used (page + 8 * j)" if "page + 8 * j + 8 \<le> TOTAL_PAGES" for j
        using none(2) that busy(2) unfolding shift by (cases j) auto
      with none(1) show ?thesis by (simp add: eq)
    next
      fix j assume some: "find_region_from (page + 8) master k = Some (int (page + 8 + 8 * j))"
        "page + 8 + 8 * j + 8 \<le> TOTAL_PAGES" "\<not> used (page + 8 + 8 * j)" "\<forall>i < j. used (page + 8 + 8 * i)"
      then have "\<forall>i < Suc j. used (page + 8 * i)"
        using busy(2) unfolding shift by (auto simp: less_Suc_eq_0_disj)
      with some show ?thesis unfolding shift eq by blast
    qed
  qed
qed

text \<open>The regions handed out lie on a grid of eight pages above the code.\<close>

definition region_wf :: "task_struct \<Rightarrow> bool" where
  "region_wf t \<longleftrightarrow> user_stack_region_pages t = 0 \<or>
     (user_stack_region_pages t = THREAD_STACK_REGION_PAGES \<and>
      (\<exists>j. user_stack_region_start t = THREAD_STACK_BASE_PAGE + 8 * j \<and>
        user_stack_region_start t + 8 \<le> TOTAL_PAGES))"

lemma region_wf_overlaps_unique:
  assumes "region_wf t" and "stack_region_overlaps t (THREAD_STACK_BASE_PAGE + 8 * i) 8"
    and "THREAD_STACK_BASE_PAGE + 8 * i + 8 \<le> TOTAL_PAGES"
  shows "user_stack_region_start t = THREAD_STACK_BASE_PAGE + 8 * i"
  using assms by (auto simp: region_wf_def stack_region_overlaps_def Let_def)

lemma free_region_exists:
  assumes "\<forall>t \<in> T. region_wf (f t)" and "finite T" and "card T \<le> 80"
  shows "\<exists>j \<le> card T. \<not> (\<exists>t \<in> T. stack_region_overlaps (f t) (THREAD_STACK_BASE_PAGE + 8 * j) 8)"
proof (rule ccontr)
  assume "\<not> ?thesis"
  then have all: "\<forall>j \<in> {..card T}. \<exists>t \<in> T. stack_region_overlaps (f t) (THREAD_STACK_BASE_PAGE + 8 * j) 8"
    by auto
  have "\<forall>j \<in> {..card T}. THREAD_STACK_BASE_PAGE + 8 * j \<in> (user_stack_region_start \<circ> f) ` T"
  proof
    fix j assume j: "j \<in> {..card T}"
    with all obtain t where t: "t \<in> T" "stack_region_overlaps (f t) (THREAD_STACK_BASE_PAGE + 8 * j) 8" by blast
    have "user_stack_region_start (f t) = THREAD_STACK_BASE_PAGE + 8 * j"
      by (rule region_wf_overlaps_unique) (use t assms j in auto)
    with t(1) show "THREAD_STACK_BASE_PAGE + 8 * j \<in> (user_stack_region_start \<circ> f) ` T"
      by (auto simp: image_iff intro!: bexI [of _ t])
  qed
  then have "(\<lambda>j. THREAD_STACK_BASE_PAGE + 8 * j) ` {..card T} \<subseteq> (user_stack_region_start \<circ> f) ` T" by blast
  then have "card ((\<lambda>j. THREAD_STACK_BASE_PAGE + 8 * j) ` {..card T}) \<le> card ((user_stack_region_start \<circ> f) ` T)"
    using assms(2) by (intro card_mono) auto
  moreover have "card ((\<lambda>j. THREAD_STACK_BASE_PAGE + 8 * j) ` {..card T}) = card T + 1"
    by (subst card_image) (auto simp: inj_on_def)
  ultimately show False using card_image_le [OF assms(2), of "user_stack_region_start \<circ> f"] by linarith
qed

section \<open>Mapping and rolling back\<close>

abbreviation frame_pool_set :: "nat set" where
  "frame_pool_set \<equiv> {k. NUM_PAG_KERNEL < k \<and> k < TOTAL_PAGES \<and> even k}"

text \<open>Releasing one page of a table, the body of every release loop.\<close>

definition unmap_page :: "nat \<Rightarrow> nat \<Rightarrow> mm_state \<Rightarrow> mm_state" where
  "unmap_page PT page m = del_ss_pag PT page (free_frame (get_frame PT page m) m)"

definition mm_other :: "mm_state \<Rightarrow> mm_state" where
  "mm_other m = m\<lparr>phys_mem := (\<lambda>_. 0), pagusr_table := (\<lambda>_ _. entry_zero)\<rparr>"

lemma mm_other_simps [simp]:
  "mm_other (pt_write PT p e m) = mm_other m" "mm_other (set_ss_pag PT p f m) = mm_other m"
  "mm_other (del_ss_pag PT p m) = mm_other m" "mm_other (free_frame f m) = mm_other m"
  by (simp_all add: mm_other_def pt_write_def set_ss_pag_def del_ss_pag_def free_frame_def)

lemma mm_other_rest: "mm_rest m' = mm_rest m \<Longrightarrow> mm_other m' = mm_other m"
proof -
  have "mm_other m = (mm_rest m)\<lparr>pagusr_table := (\<lambda>_ _. entry_zero)\<rparr>" for m
    by (simp add: mm_other_def mm_rest_def)
  then show "mm_rest m' = mm_rest m \<Longrightarrow> mm_other m' = mm_other m" by simp
qed

lemma mm_other_eqD:
  assumes "mm_other m' = mm_other m"
  shows "dir_pages m' = dir_pages m" "pagusr_frame m' = pagusr_frame m" "ram m' = ram m"
    "cr3 m' = cr3 m" "tlb m' = tlb m" "get_PT d m' = get_PT d m"
proof -
  show *: "dir_pages m' = dir_pages m" "pagusr_frame m' = pagusr_frame m" "ram m' = ram m"
    "cr3 m' = cr3 m" "tlb m' = tlb m"
    using assms by (cases m; cases m'; simp add: mm_other_def)+
  from *(1,2) show "get_PT d m' = get_PT d m" by (rule get_PT_cong)
qed

lemma unmap_page_simps [simp]:
  "pagusr_table (unmap_page PT p m) PT' p' = (if PT' = PT \<and> p' = p then entry_zero else pagusr_table m PT' p')"
  "get_frame PT' p' (unmap_page PT p m) = (if PT' = PT \<and> p' = p then 0 else get_frame PT' p' m)"
  "avail (unmap_page PT p m) = avail m \<union> ({get_frame PT p m} \<inter> frame_pool_set)"
  "mm_other (unmap_page PT p m) = mm_other m"
  by (auto simp: unmap_page_def avail_free_frame)

lemma unmap_pages_table [simp]:
  "pagusr_table (fold (unmap_page PT) ps m) PT' p' =
     (if PT' = PT \<and> p' \<in> set ps then entry_zero else pagusr_table m PT' p')"
  by (induction ps arbitrary: m) auto

lemma unmap_pages_other [simp]: "mm_other (fold (unmap_page PT) ps m) = mm_other m"
  by (induction ps arbitrary: m) auto

lemma unmap_pages_avail:
  "distinct ps \<Longrightarrow> avail (fold (unmap_page PT) ps m) =
     avail m \<union> ((\<lambda>p. get_frame PT p m) ` set ps \<inter> frame_pool_set)"
proof (induction ps arbitrary: m)
  case Nil
  then show ?case by simp
next
  case (Cons p ps)
  have "(\<lambda>q. get_frame PT q (unmap_page PT p m)) ` set ps = (\<lambda>q. get_frame PT q m) ` set ps"
    using Cons.prems by (intro image_cong) auto
  with Cons show ?case by (simp add: Un_assoc Int_Un_distrib2 [symmetric])
qed

lemma map_stack_rollback_fold:
  "map_stack_rollback PT first i m = fold (unmap_page PT) (rev (map ((+) first) [0..<i])) m"
  by (induction i arbitrary: m) (simp_all add: unmap_page_def)

definition user_entry :: "nat \<Rightarrow> page_table_entry" where
  "user_entry f = \<lparr>present = True, rw = True, user = True, other_bits = 0, pbase_addr = f\<rparr>"

lemma set_ss_pag_user_entry:
  "f < TOTAL_PAGES \<Longrightarrow> pagusr_table (set_ss_pag PT p f m) PT' p' =
     (if PT' = PT \<and> p' = p then user_entry f else pagusr_table m PT' p')"
  by (simp add: user_entry_def)

text \<open>
  The mapping loop from index \<open>i\<close> on: with enough frames every page gets its own frame;
  otherwise everything mapped so far, from page \<open>first\<close> on, is released.
\<close>

lemma map_stack_loop_fail:
  assumes "card (avail m) < n - i" and "NUM_PAG_KERNEL \<notin> avail m"
    and "map_stack_loop PT first [i..<n] m = (r, m')"
  shows "r = - EAGAIN \<and> mm_other m' = mm_other m \<and>
    avail m' = avail m \<union> ((\<lambda>p. get_frame PT p m) ` {first..<first + i} \<inter> frame_pool_set) \<and>
    (\<forall>PT' p. pagusr_table m' PT' p = (if PT' = PT \<and> first \<le> p \<and> p < first + i + card (avail m)
       then entry_zero else pagusr_table m PT' p))"
  using assms
proof (induction "n - i" arbitrary: i m)
  case 0
  then have False by linarith
  then show ?case ..
next
  case (Suc d)
  then have i: "[i..<n] = i # [Suc i..<n]" by (simp add: upt_conv_Cons)
  show ?case
  proof (cases m rule: fp.alloc_cases)
    case none
    then have "r = - EAGAIN" "m' = map_stack_rollback PT first i m"
      using Suc.prems(3) by (simp_all add: i)
    then show ?thesis
      using none(1) by (simp add: map_stack_rollback_fold unmap_pages_avail distinct_map add.commute)
  next
    case (one k m1)
    let ?m2 = "set_ss_pag PT (first + i) k m1"
    have k: "k < TOTAL_PAGES" "k \<in> frame_pool_set"
      using one(2) availD [OF one(2)] Suc.prems(2) by (auto simp: le_less)
    have c: "card (avail ?m2) = card (avail m) - 1" "card (avail m) > 0" "NUM_PAG_KERNEL \<notin> avail ?m2"
      using one(2,3) Suc.prems(2) by (auto simp: card_gt_0_iff)
    have "map_stack_loop PT first [Suc i..<n] ?m2 = (r, m')"
      using Suc.prems(3) one(1) by (simp add: i)
    moreover have "d = n - Suc i" "card (avail ?m2) < n - Suc i"
      using Suc.hyps(2) Suc.prems(1) c(1,2) by linarith+
    ultimately have IH: "r = - EAGAIN" "mm_other m' = mm_other ?m2"
      "avail m' = avail ?m2 \<union> ((\<lambda>p. get_frame PT p ?m2) ` {first..<first + Suc i} \<inter> frame_pool_set)"
      "\<forall>PT' p. pagusr_table m' PT' p = (if PT' = PT \<and> first \<le> p \<and> p < first + Suc i + card (avail ?m2)
         then entry_zero else pagusr_table ?m2 PT' p)"
      using Suc.hyps(1) [of "Suc i" ?m2] c(3) by blast+
    have "(\<lambda>p. get_frame PT p ?m2) ` {first..<first + Suc i} = insert k ((\<lambda>p. get_frame PT p m) ` {first..<first + i})"
    proof -
      have "{first..<first + Suc i} = insert (first + i) {first..<first + i}"
        "{first..<first + i} \<inter> {x. x \<noteq> first + i} = {first..<first + i}" by auto
      then show ?thesis using k(1) mm_rest_eqD(7) [OF one(4)] by simp
    qed
    with IH(3) one(2,3) k(2) have "avail m' = avail m \<union> ((\<lambda>p. get_frame PT p m) ` {first..<first + i} \<inter> frame_pool_set)"
      by auto
    moreover have "first + Suc i + card (avail ?m2) = first + i + card (avail m)" using c(1,2) by simp
    then have "\<forall>PT' p. pagusr_table m' PT' p = (if PT' = PT \<and> first \<le> p \<and> p < first + i + card (avail m)
       then entry_zero else pagusr_table m PT' p)"
      using IH(4) c(2) by (simp add: mm_rest_eqD(1) [OF one(4)])
    ultimately show ?thesis using IH(1,2) mm_other_rest [OF one(4)] by simp
  qed
qed

lemma map_stack_loop_ok:
  assumes "n - i \<le> card (avail m)"
  shows "\<exists>m' fs. map_stack_loop PT first [i..<n] m = (0, m') \<and> mm_other m' = mm_other m \<and>
    length fs = n - i \<and> distinct fs \<and> set fs \<subseteq> avail m \<and> avail m' = avail m - set fs \<and>
    (\<forall>PT' p. pagusr_table m' PT' p = (if PT' = PT \<and> first + i \<le> p \<and> p < first + n
       then user_entry (fs ! (p - (first + i))) else pagusr_table m PT' p))"
  using assms
proof (induction "n - i" arbitrary: i m)
  case 0
  then have "n \<le> i" by linarith
  then show ?case by (intro exI [of _ m] exI [of _ "[]"]) auto
next
  case (Suc d)
  then have i: "[i..<n] = i # [Suc i..<n]" by (simp add: upt_conv_Cons)
  have ne: "avail m \<noteq> {}" using Suc.hyps(2) Suc.prems by auto
  obtain k m1 where one: "alloc_frame m = (int k, m1)" "k \<in> avail m" "avail m1 = avail m - {k}"
    "mm_rest m1 = mm_rest m" using fp.alloc_ok [OF ne] by blast
  let ?m2 = "set_ss_pag PT (first + i) k m1"
  have k: "k < TOTAL_PAGES" using availD [OF one(2)] by simp
  have c: "card (avail ?m2) = card (avail m) - 1" using one(2,3) by simp
  have "d = n - Suc i" "n - Suc i \<le> card (avail ?m2)" using Suc.hyps(2) Suc.prems c by linarith+
  from Suc.hyps(1) [OF this] obtain m' fs where
    IH: "map_stack_loop PT first [Suc i..<n] ?m2 = (0, m')" "mm_other m' = mm_other ?m2"
      "length fs = n - Suc i" "distinct fs" "set fs \<subseteq> avail ?m2" "avail m' = avail ?m2 - set fs"
      "\<forall>PT' p. pagusr_table m' PT' p = (if PT' = PT \<and> first + Suc i \<le> p \<and> p < first + n
         then user_entry (fs ! (p - (first + Suc i))) else pagusr_table ?m2 PT' p)" by blast
  have T: "pagusr_table m' PT' p = (if PT' = PT \<and> first + i \<le> p \<and> p < first + n
      then user_entry ((k # fs) ! (p - (first + i))) else pagusr_table m PT' p)" for PT' p
  proof (cases "PT' = PT \<and> first + Suc i \<le> p \<and> p < first + n")
    case True
    then have "p - (first + i) = Suc (p - (first + Suc i))" by linarith
    with True IH(7) show ?thesis by simp
  next
    case False
    with IH(7) Suc.hyps(2) show ?thesis
      by (auto simp: set_ss_pag_user_entry [OF k] mm_rest_eqD(1) [OF one(4)] simp del: set_ss_pag_simps(1))
  qed
  show ?case
  proof (intro exI [of _ m'] exI [of _ "k # fs"] conjI allI)
    show "map_stack_loop PT first [i..<n] m = (0, m')" using IH(1) by (simp add: i one(1))
    show "mm_other m' = mm_other m" using IH(2) mm_other_rest [OF one(4)] by simp
    show "length (k # fs) = n - i" using IH(3) Suc.hyps(2) by simp
    show "distinct (k # fs)" "set (k # fs) \<subseteq> avail m" "avail m' = avail m - set (k # fs)"
      using IH(4,5,6) one(2,3) by auto
  qed (rule T)
qed

section \<open>Growing a stack\<close>

lemma page_of_eq: "page_of a = unat a div 4096"
  by (simp add: page_of_def drop_bit_eq_div unat_div)

lemma page_addr_eq: "page_addr p = of_nat (4096 * p)"
  by (simp add: page_addr_def push_bit_eq_mult mult.commute)

lemma page_of_page_addr: "p < 2 ^ 20 \<Longrightarrow> page_of (page_addr p) = p"
  by (simp add: page_of_eq page_addr_eq unat_of_nat del: of_nat_mult)

text \<open>A user stack occupies the last \<open>user_stack_frames\<close> pages of its region.\<close>

definition user_stack_wf :: "task_struct \<Rightarrow> bool" where
  "user_stack_wf t \<longleftrightarrow>
     user_stack_frames t > 0 \<and> user_stack_ptr t \<noteq> NULL \<and>
     user_stack_region_start t \<le> page_of (user_stack_ptr t) \<and>
     int (page_of (user_stack_ptr t)) + user_stack_frames t =
       int (user_stack_region_start t + user_stack_region_pages t) \<and>
     user_stack_region_start t + user_stack_region_pages t \<le> TOTAL_PAGES"

lemma user_stack_wfD:
  assumes "user_stack_wf t"
  shows "user_stack_ptr t \<noteq> NULL" "user_stack_region_pages t \<noteq> 0"
    "uadd (user_stack_region_start t) (user_stack_region_pages t) =
       user_stack_region_start t + user_stack_region_pages t"
    "unsigned_of (user_stack_frames t) = nat (user_stack_frames t)"
  using assms by (auto simp: user_stack_wf_def unsigned_of_def)

lemma grow_user_stack_eq:
  assumes cur: "current_task k = Some t" and wf: "user_stack_wf (tasks k t)"
  defines "p \<equiv> page_of (user_stack_ptr (tasks k t))" and "s \<equiv> user_stack_region_start (tasks k t)"
    and "e \<equiv> user_stack_region_start (tasks k t) + user_stack_region_pages (tasks k t)"
  shows "grow_user_stack a k =
    (if page_of a < s \<or> page_of a \<ge> e then (- EFAULT, k)
     else if p = s then (- ENOMEM, k)
     else if page_of a + 1 \<noteq> p then (- EFAULT, k)
     else if fst (alloc_frame (mm k)) < 0 then (fst (alloc_frame (mm k)), k\<lparr>mm := snd (alloc_frame (mm k))\<rparr>)
     else (0, (task_update t (\<lambda>t. t\<lparr>user_stack_ptr := page_addr (page_of a),
          user_stack_frames := user_stack_frames t + 1\<rparr>) k)
        \<lparr>mm := set_cr3 (get_DIR t k) (set_ss_pag (task_PT t k) (page_of a)
           (nat (fst (alloc_frame (mm k)))) (snd (alloc_frame (mm k))))\<rparr>))"
proof -
  note d = user_stack_wfD [OF wf]
  have full: "unsigned_of (user_stack_frames (tasks k t)) \<ge> user_stack_region_pages (tasks k t) \<longleftrightarrow> p = s"
    using wf unfolding d(4) by (auto simp: user_stack_wf_def p_def s_def)
  show ?thesis
    unfolding grow_user_stack_def cur option.case Let_def full
    by (simp add: d s_def e_def p_def split: prod.split) (auto simp: task_update_def get_DIR_def)
qed

section \<open>Properties\<close>



text \<open>Property C11 (map_stack_pages_spec). \<open>map_stack_pages\<close> is all or nothing. With enough frames it
  returns 0, every page of the range gets a frame of its own that was free, and no other entry
  changes. With too few it returns \<open>-EAGAIN\<close>, every frame it took is free again and the
  touched entries are cleared (frame \<open>NUM_PAG_KERNEL\<close> is in use since boot).\<close>

theorem map_stack_pages_spec:
  assumes "NUM_PAG_KERNEL \<notin> avail (mm k)" and "map_stack_pages master first n k = (r, k')"
  defines "PT \<equiv> task_PT master k"
  shows "if n \<le> card (avail (mm k))
    then r = 0 \<and> (\<exists>fs. length fs = n \<and> distinct fs \<and> set fs \<subseteq> avail (mm k) \<and>
      avail (mm k') = avail (mm k) - set fs \<and>
      (\<forall>PT' p. pagusr_table (mm k') PT' p = (if PT' = PT \<and> first \<le> p \<and> p < first + n
         then user_entry (fs ! (p - first)) else pagusr_table (mm k) PT' p)))
    else r = - EAGAIN \<and> avail (mm k') = avail (mm k) \<and>
      (\<forall>PT' p. pagusr_table (mm k') PT' p = (if PT' = PT \<and> first \<le> p \<and> p < first + card (avail (mm k))
         then entry_zero else pagusr_table (mm k) PT' p))"
proof -
  obtain m' where l: "map_stack_loop PT first [0..<n] (mm k) = (r, m')" "k' = k\<lparr>mm := m'\<rparr>"
    using assms(2) by (auto simp: map_stack_pages_def PT_def split: prod.splits)
  show ?thesis
  proof (cases "n \<le> card (avail (mm k))")
    case True
    with map_stack_loop_ok [of n 0 "mm k" PT first] l show ?thesis by auto
  next
    case False
    then have "card (avail (mm k)) < n - 0" by simp
    from map_stack_loop_fail [OF this assms(1) l(1)] False l(2) show ?thesis by simp
  qed
qed

theorem map_stack_pages_spec_witness:
  "fst (map_stack_pages 1 317 2 (kernel_zero\<lparr>mm := mm_zero\<lparr>phys_mem := (\<lambda>i. if i = 300 then 0 else 1)\<rparr>\<rparr>)) = - EAGAIN"
proof -
  let ?k = "kernel_zero\<lparr>mm := mm_zero\<lparr>phys_mem := (\<lambda>i. if i = 300 then 0 else 1)\<rparr>\<rparr>"
  have a: "avail (mm ?k) = {300}" by (auto simp: avail_def kernel_zero_def mm_zero_def)
  obtain r k' where rk: "map_stack_pages 1 317 2 ?k = (r, k')" by fastforce
  have "NUM_PAG_KERNEL \<notin> avail (mm ?k)" unfolding a by simp
  from map_stack_pages_spec [OF this rk] have "r = - EAGAIN" unfolding a by simp
  then show ?thesis unfolding rk by simp
qed

text \<open>Property C22 (grow_user_stack_spec). A page fault grows the stack of the current thread only by
  the page just below it: then one fresh frame is mapped there, the stack stays well formed
  with one more page, the look-aside buffer is flushed and no other entry changes. A fault
  elsewhere, in a full region, or with no frame left returns a negative code and leaves the
  page tables and the control block as they were.\<close>

theorem grow_user_stack_spec:
  assumes cur: "current_task k = Some t" and wf: "user_stack_wf (tasks k t)" and st: "256 \<le> user_stack_region_start (tasks k t)"
    and g: "grow_user_stack a k = (r, k')"
  defines "p \<equiv> page_of (user_stack_ptr (tasks k t))"
  shows "if page_of a + 1 = p \<and> user_stack_region_start (tasks k t) \<le> page_of a \<and> avail (mm k) \<noteq> {}
    then r = 0 \<and> user_stack_wf (tasks k' t) \<and> page_of (user_stack_ptr (tasks k' t)) = page_of a \<and>
      user_stack_frames (tasks k' t) = user_stack_frames (tasks k t) + 1 \<and> tlb (mm k') = Map.empty \<and>
      (\<exists>f \<in> avail (mm k). avail (mm k') = avail (mm k) - {f} \<and>
        (\<forall>PT q. pagusr_table (mm k') PT q = (if PT = task_PT t k \<and> q = page_of a then user_entry f
           else pagusr_table (mm k) PT q)))
    else r < 0 \<and> k' = k"
proof -
  note w = wf [unfolded user_stack_wf_def] and eq = grow_user_stack_eq [OF cur wf, of a]
  show ?thesis
  proof (cases "page_of a + 1 = p \<and> user_stack_region_start (tasks k t) \<le> page_of a")
    case False
    have "p = user_stack_region_start (tasks k t) \<or> page_of a + 1 \<noteq> p \<or> page_of a < user_stack_region_start (tasks k t)"
      using False by linarith
    then have "r < 0 \<and> k' = k" using g eq by (auto simp: p_def split: if_splits)
    with False show ?thesis by auto
  next
    case True
    then have in_region: "\<not> (page_of a < user_stack_region_start (tasks k t) \<or>
        page_of a \<ge> user_stack_region_start (tasks k t) + user_stack_region_pages (tasks k t))"
      "p \<noteq> user_stack_region_start (tasks k t)"
      using w unfolding p_def by linarith+
    have small2: "page_of a < TOTAL_PAGES" using True w unfolding p_def by linarith
    then have small: "page_of a < 2 ^ 20" "page_of a < TOTAL_PAGES" by simp_all
    show ?thesis
    proof (cases "mm k" rule: fp.alloc_cases)
      case none
      with True in_region g eq show ?thesis by (simp add: p_def [symmetric])
    next
      case (one f m1)
      have f: "f < TOTAL_PAGES" using availD [OF one(2)] by simp
      have k': "r = 0" "k' = (task_update t (\<lambda>t. t\<lparr>user_stack_ptr := page_addr (page_of a),
            user_stack_frames := user_stack_frames t + 1\<rparr>) k)
          \<lparr>mm := set_cr3 (get_DIR t k) (set_ss_pag (task_PT t k) (page_of a) f m1)\<rparr>"
        using True in_region g eq one(1) by (simp_all add: p_def [symmetric])
      have "page_addr (page_of a) \<noteq> NULL"
        using page_of_page_addr [OF small(1)] st True by (auto simp: page_of_def)
      then have "user_stack_wf (tasks k' t)"
        using w True small(2) page_of_page_addr [OF small(1)] unfolding k'(2) p_def by (simp add: user_stack_wf_def)
      moreover have "\<forall>PT q. pagusr_table (mm k') PT q = (if PT = task_PT t k \<and> q = page_of a then user_entry f
           else pagusr_table (mm k) PT q)"
        using mm_rest_eqD(1) [OF one(4)] f unfolding k'(2) by (simp add: user_entry_def)
      moreover have "avail (mm k') = avail (mm k) - {f}" unfolding k'(2) using one(3) by simp
      ultimately show ?thesis
        using True k'(1) one(2) page_of_page_addr [OF small(1)] unfolding k'(2) by auto
    qed
  qed
qed

theorem grow_user_stack_spec_witness:
  "let k = kernel_zero\<lparr>current_task := Some 1, tasks := (\<lambda>_. task_zero\<lparr>user_stack_ptr := 0x13D000,
       user_stack_frames := 1, user_stack_region_start := 310, user_stack_region_pages := 8\<rparr>)\<rparr>
   in fst (grow_user_stack 0x13C010 k) = 0 \<and> user_stack_frames (tasks (snd (grow_user_stack 0x13C010 k)) 1) = 2"
proof -
  let ?k = "kernel_zero\<lparr>current_task := Some 1, tasks := (\<lambda>_. task_zero\<lparr>user_stack_ptr := 0x13D000,
       user_stack_frames := 1, user_stack_region_start := 310, user_stack_region_pages := 8\<rparr>)\<rparr>"
  have p: "page_of 0x13D000 = 317" "page_of 0x13C010 = 316" by (simp_all add: page_of_eq)
  have c: "current_task ?k = Some 1" by simp
  have w: "user_stack_wf (tasks ?k 1)" by (simp add: user_stack_wf_def p)
  have s: "256 \<le> user_stack_region_start (tasks ?k 1)" by simp
  have "256 \<in> avail (mm ?k)" by (simp add: avail_def kernel_zero_def mm_zero_def)
  then have a: "avail (mm ?k) \<noteq> {}" by blast
  obtain r k' where g: "grow_user_stack 0x13C010 ?k = (r, k')" by fastforce
  have u: "user_stack_ptr (tasks ?k 1) = 0x13D000" "user_stack_region_start (tasks ?k 1) = 310"
    "user_stack_frames (tasks ?k 1) = 1" by simp_all
  from grow_user_stack_spec [OF c w s g] a have "r = 0 \<and> user_stack_frames (tasks k' 1) = 2"
    unfolding u p by simp
  then show ?thesis unfolding Let_def g by simp
qed

end
