(* ===== verification/Zeos_Keyboard.thy ===== *)
theory Zeos_Keyboard
  imports Zeos_Helpers
begin

text \<open>
  \<open>project/keyboard.c\<close>: the auxiliary user stack of the keyboard handler, the interrupt that
  diverts a thread into its handler, and the trap that brings it back. The lemmas show that
  the trap restores the sixteen words of the saved context and what the interrupt sets up.
\<close>

section \<open>Definitions\<close>

definition setup_kbd_aux_stack :: "nat \<Rightarrow> kernel \<Rightarrow> int \<times> kernel" where
  "setup_kbd_aux_stack t k =
     (if kbd_aux_stack (tasks k t) \<noteq> NULL then (0, k) else
      let (frame, m) = alloc_frame (mm k);
          k = k\<lparr>mm := m\<rparr> in
      if frame < 0 then (- ENOMEM, k) else
      let PT = task_PT t k;
          k = k\<lparr>mm := set_ss_pag PT KBD_AUX_STACK_PAGE (nat frame) (mm k)\<rparr>;
          k = k\<lparr>mm := set_cr3 (get_DIR t k) (mm k)\<rparr>
      in (0, task_update t (kbd_aux_stack_update (\<lambda>_. page_addr (KBD_AUX_STACK_PAGE + 1))) k))"

text \<open>The frame number is an unsigned field of twenty bits, so the test \<open>frame >= 0\<close> holds.\<close>

definition free_kbd_aux_stack :: "nat \<Rightarrow> kernel \<Rightarrow> kernel" where
  "free_kbd_aux_stack t k =
     (if kbd_aux_stack (tasks k t) = NULL then k else
      let PT = task_PT t k;
          frame = get_frame PT KBD_AUX_STACK_PAGE (mm k);
          k = k\<lparr>mm := free_frame frame (mm k)\<rparr>;
          k = k\<lparr>mm := del_ss_pag PT KBD_AUX_STACK_PAGE (mm k)\<rparr>;
          k = k\<lparr>mm := set_cr3 (get_DIR t k) (mm k)\<rparr>
      in task_update t (kbd_aux_stack_update (\<lambda>_. NULL)) k)"

definition cleanup_kbd_handler :: "nat \<Rightarrow> kernel \<Rightarrow> kernel" where
  "cleanup_kbd_handler t k =
     free_kbd_aux_stack t
       (task_update t (\<lambda>t. clear_kbd_saved_ctx (t\<lparr>kbd_handler := NULL, in_kbd_context := 0\<rparr>)) k)"

text \<open>The words of the kernel stack that hold a thread's user context, in the order of
  \<open>kbd_saved_ctx\<close>.\<close>

definition kbd_ctx_slots :: "nat list" where
  "kbd_ctx_slots = [STACK_EBX, STACK_ECX, STACK_EDX, STACK_ESI, STACK_EDI, STACK_EBP, STACK_EAX,
     STACK_DS, STACK_ES, STACK_FS, STACK_GS, STACK_USER_EIP, STACK_USER_CS, STACK_EFLAGS,
     STACK_USER_ESP, STACK_USER_SS]"

definition save_kbd_ctx :: "nat \<Rightarrow> kernel \<Rightarrow> kernel" where
  "save_kbd_ctx t k =
     fold (\<lambda>i k. task_update t (kbd_saved_ctx_update (\<lambda>c. c[i := stack_get t (kbd_ctx_slots ! i) k])) k)
       [0..<KBD_CTX_SIZE] k"

definition restore_kbd_ctx :: "nat \<Rightarrow> kernel \<Rightarrow> kernel" where
  "restore_kbd_ctx t k =
     fold (\<lambda>i k. stack_set t (kbd_ctx_slots ! i) (kbd_saved_ctx (tasks k t) ! i) k) [0..<KBD_CTX_SIZE] k"

text \<open>A store of the kernel to a user address, through the page tables.\<close>

definition user_store :: "u32 \<Rightarrow> u32 \<Rightarrow> kernel \<Rightarrow> kernel option" where
  "user_store a v k = do {
     m \<leftarrow> store_word (page_of a) (unat (a AND 0xFFF) div 4) v (mm k);
     Some (k\<lparr>mm := m\<rparr>) }"

text \<open>\<open>kbd_irq_handler\<close> for the scancode read from the data port.\<close>

definition kbd_irq_handler :: "u8 \<Rightarrow> kernel \<Rightarrow> kernel option" where
  "kbd_irq_handler scancode k =
     (let pressed = (if scancode AND 0x80 = 0 then 1 else 0);
          key = ucast (scancode AND 0x7F) in
      case current_task k of
        None \<Rightarrow> Some k
      | Some t \<Rightarrow>
          if kbd_handler (tasks k t) = NULL \<or> in_kbd_context (tasks k t) \<noteq> 0 then Some k
          else do {
            k \<leftarrow> Some (task_update t (in_kbd_context_update (\<lambda>_. 1)) k);
            k \<leftarrow> Some (save_kbd_ctx t k);
            stack_ptr \<leftarrow> Some (kbd_aux_stack (tasks k t) - 16);
            k \<leftarrow> user_store stack_ptr 0 k;
            k \<leftarrow> user_store (stack_ptr + 4) (kbd_handler (tasks k t)) k;
            k \<leftarrow> user_store (stack_ptr + 8) key k;
            k \<leftarrow> user_store (stack_ptr + 12) pressed k;
            k \<leftarrow> Some (stack_set t STACK_USER_EIP (kbd_wrapper (tasks k t)) k);
            Some (stack_set t STACK_USER_ESP stack_ptr k) })"

definition kbd_resume_handler :: "kernel \<Rightarrow> kernel" where
  "kbd_resume_handler k =
     (case current_task k of
        None \<Rightarrow> k
      | Some t \<Rightarrow>
          if in_kbd_context (tasks k t) = 0 then k
          else task_update t (in_kbd_context_update (\<lambda>_. 0)) (restore_kbd_ctx t k))"

section \<open>Lemmas\<close>

lemma length_kbd_ctx_slots [simp]: "length kbd_ctx_slots = 16"
  by (simp add: kbd_ctx_slots_def)

lemma kbd_ctx_slots_eq: "kbd_ctx_slots = [1008..<1024]"
  by (simp add: kbd_ctx_slots_def upt_rec)

lemma kbd_ctx_slots_nth: "i < 16 \<Longrightarrow> kbd_ctx_slots ! i = 1008 + i"
  unfolding kbd_ctx_slots_eq by simp

lemma save_kbd_ctx_upto:
  assumes "n \<le> 16" and "length (kbd_saved_ctx (tasks k t)) = 16"
  shows "fold (\<lambda>i k. task_update t (kbd_saved_ctx_update (\<lambda>c. c[i := stack_get t (kbd_ctx_slots ! i) k])) k) [0..<n] k =
    k\<lparr>tasks := (tasks k)(t := (tasks k t)\<lparr>kbd_saved_ctx :=
      map (\<lambda>i. stack_get t (kbd_ctx_slots ! i) k) [0..<n] @ drop n (kbd_saved_ctx (tasks k t))\<rparr>)\<rparr>"
  using assms(1)
proof (induction n)
  case (Suc n)
  let ?f = "\<lambda>i. stack_get t (kbd_ctx_slots ! i) k"
  have "(map ?f [0..<n] @ drop n (kbd_saved_ctx (tasks k t)))[n := ?f n] =
      map ?f [0..<Suc n] @ drop (Suc n) (kbd_saved_ctx (tasks k t))"
    using Suc.prems assms(2) by (simp add: list_update_append flip: Cons_nth_drop_Suc)
  moreover have "stack_get t i (k\<lparr>tasks := f\<rparr>) = stack_get t i k" for i f
    by (simp add: stack_get_def stack_addr_def)
  ultimately show ?case using Suc by (simp add: task_update_def o_def fun_upd_def cong: if_cong)
qed simp

lemma save_kbd_ctx_eq:
  assumes "length (kbd_saved_ctx (tasks k t)) = 16"
  shows "save_kbd_ctx t k = task_update t (kbd_saved_ctx_update (\<lambda>_. map (\<lambda>i. stack_get t i k) kbd_ctx_slots)) k"
proof -
  have "map (\<lambda>i. stack_get t (kbd_ctx_slots ! i) k) [0..<16] = map (\<lambda>i. stack_get t i k) kbd_ctx_slots"
    by (rule nth_equalityI) simp_all
  then show ?thesis
    unfolding save_kbd_ctx_def save_kbd_ctx_upto [OF order_refl assms]
    using assms by (simp add: task_update_def)
qed

text \<open>Restoring writes only words of the saved context of this slot.\<close>

lemma restore_kbd_ctx_upto:
  assumes "n \<le> 16" and "t < NR_TASKS" and "u < NR_TASKS" and "j < KERNEL_STACK_SIZE"
  shows "stack_get u j (fold (\<lambda>i k. stack_set t (kbd_ctx_slots ! i) (kbd_saved_ctx (tasks k t) ! i) k) [0..<n] k) =
      (if u = t \<and> 1008 \<le> j \<and> j < 1008 + n then kbd_saved_ctx (tasks k t) ! (j - 1008) else stack_get u j k)"
    (is "stack_get u j (fold ?f _ _) = _")
  using assms(1)
proof (induction n)
  case (Suc n)
  have tasks: "tasks (fold ?f xs k) = tasks k" and base: "stack_addr (fold ?f xs k) = stack_addr k" for xs
    by (induction xs arbitrary: k) (simp_all add: stack_addr_def fun_eq_iff)
  have "stack_addr k t (1008 + n) = stack_addr k u j \<longleftrightarrow> t = u \<and> 1008 + n = j"
    using Suc.prems assms by (intro stack_addr_inj) simp_all
  with Suc show ?case
    by (auto simp: kbd_ctx_slots_nth stack_get_def tasks base)
qed auto

lemma stack_get_restore:
  assumes "t < NR_TASKS" and "u < NR_TASKS" and "j < KERNEL_STACK_SIZE"
  shows "stack_get u j (restore_kbd_ctx t k) =
    (if u = t \<and> 1008 \<le> j then kbd_saved_ctx (tasks k t) ! (j - 1008) else stack_get u j k)"
  using restore_kbd_ctx_upto [OF order_refl assms, of k] assms(3) by (simp add: restore_kbd_ctx_def)

lemma restore_kbd_ctx_simps [simp]:
  "tasks (restore_kbd_ctx t k) = tasks k" "lists (restore_kbd_ctx t k) = lists k"
  "current_task (restore_kbd_ctx t k) = current_task k" "mm (restore_kbd_ctx t k) = mm k"
proof -
  let ?f = "\<lambda>i k. stack_set t (kbd_ctx_slots ! i) (kbd_saved_ctx (tasks k t) ! i) k"
  have "tasks (fold ?f xs k) = tasks k" "lists (fold ?f xs k) = lists k"
    "current_task (fold ?f xs k) = current_task k" "mm (fold ?f xs k) = mm k" for xs
    by (induction xs arbitrary: k) simp_all
  then show "tasks (restore_kbd_ctx t k) = tasks k" "lists (restore_kbd_ctx t k) = lists k"
    "current_task (restore_kbd_ctx t k) = current_task k" "mm (restore_kbd_ctx t k) = mm k"
    unfolding restore_kbd_ctx_def by blast+
qed

lemma user_store_mapped:
  assumes "translate (page_of a) (mm k) = Some (f, m)"
  defines "w \<equiv> unat (a AND 0xFFF) div 4"
  shows "user_store a v k = Some (k\<lparr>mm := m\<lparr>ram := (ram m)(f := (ram m f)(w := v))\<rparr>\<rparr>)"
    and "translate (page_of a) (m\<lparr>ram := r\<rparr>) = Some (f, m\<lparr>ram := r\<rparr>)"
  using assms by (auto simp: user_store_def store_word_def translate_def Let_def split: option.splits if_splits)

text \<open>The four words pushed on the auxiliary stack.\<close>

lemma aux_stack_store:
  assumes "translate 1021 (mm k) = Some (f, m)"
  shows "user_store 0x3FDFF0 v k = Some (k\<lparr>mm := m\<lparr>ram := (ram m)(f := (ram m f)(1020 := v))\<rparr>\<rparr>)"
    and "user_store 0x3FDFF4 v k = Some (k\<lparr>mm := m\<lparr>ram := (ram m)(f := (ram m f)(1021 := v))\<rparr>\<rparr>)"
    and "user_store 0x3FDFF8 v k = Some (k\<lparr>mm := m\<lparr>ram := (ram m)(f := (ram m f)(1022 := v))\<rparr>\<rparr>)"
    and "user_store 0x3FDFFC v k = Some (k\<lparr>mm := m\<lparr>ram := (ram m)(f := (ram m f)(1023 := v))\<rparr>\<rparr>)"
    and "translate 1021 (m\<lparr>ram := r\<rparr>) = Some (f, m\<lparr>ram := r\<rparr>)"
proof -
  have p: "page_of 0x3FDFF0 = 1021" "page_of 0x3FDFF4 = 1021" "page_of 0x3FDFF8 = 1021" "page_of 0x3FDFFC = 1021"
    by (simp_all add: page_of_eq)
  note s = user_store_mapped [of "0x3FDFF0", unfolded p, OF assms] user_store_mapped [of "0x3FDFF4", unfolded p, OF assms]
    user_store_mapped [of "0x3FDFF8", unfolded p, OF assms] user_store_mapped [of "0x3FDFFC", unfolded p, OF assms]
  show "user_store 0x3FDFF0 v k = Some (k\<lparr>mm := m\<lparr>ram := (ram m)(f := (ram m f)(1020 := v))\<rparr>\<rparr>)"
    "user_store 0x3FDFF4 v k = Some (k\<lparr>mm := m\<lparr>ram := (ram m)(f := (ram m f)(1021 := v))\<rparr>\<rparr>)"
    "user_store 0x3FDFF8 v k = Some (k\<lparr>mm := m\<lparr>ram := (ram m)(f := (ram m f)(1022 := v))\<rparr>\<rparr>)"
    "user_store 0x3FDFFC v k = Some (k\<lparr>mm := m\<lparr>ram := (ram m)(f := (ram m f)(1023 := v))\<rparr>\<rparr>)"
    "translate 1021 (m\<lparr>ram := r\<rparr>) = Some (f, m\<lparr>ram := r\<rparr>)"
    by (simp_all add: s)
qed

lemma stack_get_congs [simp]:
  "stack_get u j (k\<lparr>mm := m\<rparr>) = stack_get u j k" "stack_get u j (task_update t f k) = stack_get u j k"
  by (simp_all add: stack_get_def stack_addr_def)

lemma stack_get_set:
  assumes "t < NR_TASKS" "u < NR_TASKS" "i < KERNEL_STACK_SIZE" "j < KERNEL_STACK_SIZE"
  shows "stack_get u j (stack_set t i v k) = (if u = t \<and> j = i then v else stack_get u j k)"
  using stack_addr_inj [OF assms, of k] by (auto simp: stack_get_def)

lemma kbd_irq_handler_eq:
  assumes "current_task k = Some t" and "kbd_handler (tasks k t) \<noteq> NULL" and "in_kbd_context (tasks k t) = 0"
    and "length (kbd_saved_ctx (tasks k t)) = 16" and "kbd_aux_stack (tasks k t) = page_addr (KBD_AUX_STACK_PAGE + 1)"
    and "translate KBD_AUX_STACK_PAGE (mm k) = Some (f, m)"
  shows "kbd_irq_handler sc k =
    Some (stack_set t STACK_USER_ESP 0x3FDFF0 (stack_set t STACK_USER_EIP (kbd_wrapper (tasks k t))
      ((task_update t (\<lambda>t'. t'\<lparr>in_kbd_context := 1, kbd_saved_ctx := map (\<lambda>i. stack_get t i k) kbd_ctx_slots\<rparr>) k)
        \<lparr>mm := m\<lparr>ram := (ram m)(f := (ram m f)(1020 := 0, 1021 := kbd_handler (tasks k t),
           1022 := ucast (sc AND 0x7F), 1023 := if sc AND 0x80 = 0 then 1 else 0))\<rparr>\<rparr>)))"
proof -
  define k1 where "k1 = task_update t (\<lambda>t'. t'\<lparr>in_kbd_context := 1, kbd_saved_ctx := map (\<lambda>i. stack_get t i k) kbd_ctx_slots\<rparr>) k"
  have "length (kbd_saved_ctx (tasks (task_update t (in_kbd_context_update (\<lambda>_. 1)) k) t)) = 16"
    using assms(4) by simp
  from save_kbd_ctx_eq [OF this]
  have save: "save_kbd_ctx t (task_update t (in_kbd_context_update (\<lambda>_. 1)) k) = k1"
    by (simp add: k1_def task_update_def stack_get_def stack_addr_def)
  have aux: "kbd_aux_stack (tasks k1 t) = 0x3FE000" using assms(5) by (simp add: k1_def page_addr_def)
  have tr: "translate 1021 (mm k1) = Some (f, m)" using assms(6) by (simp add: k1_def)
  have k1: "kbd_handler (tasks k1 t) = kbd_handler (tasks k t)" "kbd_wrapper (tasks k1 t) = kbd_wrapper (tasks k t)"
    by (simp_all add: k1_def)
  have "kbd_irq_handler sc k =
    Some (stack_set t STACK_USER_ESP 0x3FDFF0 (stack_set t STACK_USER_EIP (kbd_wrapper (tasks k t))
      (k1\<lparr>mm := m\<lparr>ram := (ram m)(f := (ram m f)(1020 := 0, 1021 := kbd_handler (tasks k t),
           1022 := ucast (sc AND 0x7F), 1023 := if sc AND 0x80 = 0 then 1 else 0))\<rparr>\<rparr>)))"
    using assms(1-3) unfolding kbd_irq_handler_def Let_def
    by (simp add: save aux k1 aux_stack_store(1) [OF tr]) (simp add: aux_stack_store(5) [OF tr] aux_stack_store(2-4) k1)
  then show ?thesis unfolding k1_def .
qed

section \<open>Properties\<close>

text \<open>Property C34 (kbd_irq_diverts). A key event of a thread with a handler saves the sixteen words of
  its user context, pushes the handler, the key code and the pressed flag on the auxiliary
  stack and redirects the thread to its wrapper on that stack; no other word of any kernel
  stack changes. While the handler runs, or without a handler, an event changes nothing.\<close>

theorem kbd_irq_diverts:
  assumes cur: "current_task k = Some t" and t: "t < NR_TASKS"
    and ctx: "length (kbd_saved_ctx (tasks k t)) = KBD_CTX_SIZE"
    and aux: "kbd_aux_stack (tasks k t) = page_addr (KBD_AUX_STACK_PAGE + 1)"
    and map: "translate KBD_AUX_STACK_PAGE (mm k) = Some (f, m)"
  shows "if kbd_handler (tasks k t) = NULL \<or> in_kbd_context (tasks k t) \<noteq> 0 then kbd_irq_handler sc k = Some k
    else \<exists>k'. kbd_irq_handler sc k = Some k' \<and> in_kbd_context (tasks k' t) = 1 \<and>
      kbd_saved_ctx (tasks k' t) = map (\<lambda>i. stack_get t i k) kbd_ctx_slots \<and>
      stack_get t STACK_USER_EIP k' = kbd_wrapper (tasks k t) \<and>
      stack_get t STACK_USER_ESP k' = kbd_aux_stack (tasks k t) - 16 \<and>
      (\<forall>u < NR_TASKS. \<forall>j < KERNEL_STACK_SIZE. (u, j) \<notin> {(t, STACK_USER_EIP), (t, STACK_USER_ESP)} \<longrightarrow>
        stack_get u j k' = stack_get u j k) \<and>
      ram (mm k') f 1021 = kbd_handler (tasks k t) \<and> ram (mm k') f 1022 = ucast (sc AND 0x7F) \<and>
      ram (mm k') f 1023 = (if sc AND 0x80 = 0 then 1 else 0)"
proof (cases "kbd_handler (tasks k t) = NULL \<or> in_kbd_context (tasks k t) \<noteq> 0")
  case True
  then show ?thesis using cur by (auto simp: kbd_irq_handler_def Let_def)
next
  case False
  then have "kbd_handler (tasks k t) \<noteq> NULL" "in_kbd_context (tasks k t) = 0" by simp_all
  from kbd_irq_handler_eq [OF cur this ctx aux map, of sc] False show ?thesis
    using t aux by (auto simp: stack_get_set page_addr_def)
qed

text \<open>A thread with a handler, for the examples.\<close>

definition kbd_example :: kernel where
  "kbd_example = kernel_zero\<lparr>current_task := Some 1, mm := mm_zero\<lparr>tlb := [1021 \<mapsto> 300]\<rparr>,
     tasks := (\<lambda>_. task_zero\<lparr>kbd_handler := 0x11A000, kbd_wrapper := 0x11B000, kbd_aux_stack := 0x3FE000\<rparr>)\<rparr>"

lemma kbd_example_facts:
  "current_task kbd_example = Some 1" "kbd_handler (tasks kbd_example 1) \<noteq> NULL" "in_kbd_context (tasks kbd_example 1) = 0"
  "length (kbd_saved_ctx (tasks kbd_example 1)) = KBD_CTX_SIZE"
  "kbd_aux_stack (tasks kbd_example 1) = page_addr (KBD_AUX_STACK_PAGE + 1)"
  "translate KBD_AUX_STACK_PAGE (mm kbd_example) = Some (300, mm_zero\<lparr>tlb := [1021 \<mapsto> 300]\<rparr>)"
  by (simp_all add: kbd_example_def task_zero_def page_addr_def translate_def)

theorem kbd_irq_diverts_witness:
  "\<exists>k'. kbd_irq_handler 0x9E kbd_example = Some k' \<and> ram (mm k') 300 1022 = 0x1E \<and> ram (mm k') 300 1023 = 0"
  using kbd_irq_diverts [OF kbd_example_facts(1) _ kbd_example_facts(4-6), of "0x9E"] kbd_example_facts(2,3) by auto

text \<open>Property C13 (kbd_resume_restores). The resume trap undoes the diversion: whatever the handler left
  in the saved user context on the kernel stack, after the trap each of its sixteen words is
  the one the interrupt found, and the thread accepts key events again.\<close>

theorem kbd_resume_restores:
  assumes cur: "current_task k = Some t" and t: "t < NR_TASKS"
    and on: "kbd_handler (tasks k t) \<noteq> NULL" "in_kbd_context (tasks k t) = 0"
    and ctx: "length (kbd_saved_ctx (tasks k t)) = KBD_CTX_SIZE"
    and aux: "kbd_aux_stack (tasks k t) = page_addr (KBD_AUX_STACK_PAGE + 1)"
    and map: "translate KBD_AUX_STACK_PAGE (mm k) = Some (f, m)"
    and k1: "kbd_irq_handler sc k = Some k1"
    and k2: "current_task k2 = Some t" "tasks k2 t = tasks k1 t"
  shows "(\<forall>j. 1008 \<le> j \<and> j < KERNEL_STACK_SIZE \<longrightarrow>
      stack_get t j (kbd_resume_handler k2) = stack_get t j k) \<and>
    tasks (kbd_resume_handler k2) t = (tasks k t)\<lparr>kbd_saved_ctx := kbd_saved_ctx (tasks k1 t)\<rparr>"
proof -
  have t1: "tasks k1 t = (tasks k t)\<lparr>in_kbd_context := 1, kbd_saved_ctx := map (\<lambda>i. stack_get t i k) kbd_ctx_slots\<rparr>"
    using kbd_irq_handler_eq [OF cur on ctx aux map, of sc] k1 by auto
  have "stack_get t j (kbd_resume_handler k2) = stack_get t j k" if "1008 \<le> j" "j < KERNEL_STACK_SIZE" for j
  proof -
    have "kbd_ctx_slots ! (j - 1008) = j" "j - 1008 < 16" using that kbd_ctx_slots_nth [of "j - 1008"] by auto
    then show ?thesis using that t k2 t1 by (simp add: kbd_resume_handler_def stack_get_restore)
  qed
  moreover have "tasks (kbd_resume_handler k2) t = (tasks k t)\<lparr>kbd_saved_ctx := kbd_saved_ctx (tasks k1 t)\<rparr>"
    using k2 t1 on(2) by (simp add: kbd_resume_handler_def)
  ultimately show ?thesis by blast
qed

theorem kbd_resume_restores_witness:
  "\<exists>k1. kbd_irq_handler 0x1E kbd_example = Some k1 \<and>
     stack_get 1 STACK_USER_EIP (kbd_resume_handler k1) = stack_get 1 STACK_USER_EIP kbd_example"
proof -
  obtain k1 where k1: "kbd_irq_handler 0x1E kbd_example = Some k1" "current_task k1 = Some 1"
    using kbd_irq_handler_eq [OF kbd_example_facts, of "0x1E"] kbd_example_facts(1) by simp
  from kbd_resume_restores [OF kbd_example_facts(1) _ kbd_example_facts(2-6) k1 refl]
  have "stack_get 1 STACK_USER_EIP (kbd_resume_handler k1) = stack_get 1 STACK_USER_EIP kbd_example" by simp
  with k1(1) show ?thesis by blast
qed

end
