(* ===== verification/Zeos_Utils.thy ===== *)
theory Zeos_Utils
  imports Zeos_Prelude
begin

text \<open>
  The routines of \<open>project/utils.c\<close> and \<open>project/libc.c\<close> that work on memory and strings:
  block copies, the user address check, number formatting and the formatted print of the
  user library. A buffer is the list of its bytes; memory is a function from addresses to
  bytes, and a 32-bit access reads or writes four of them.
\<close>

section \<open>Block copies\<close>

type_synonym memory = "u32 \<Rightarrow> u8"

definition load_dword :: "u32 \<Rightarrow> memory \<Rightarrow> u8 \<times> u8 \<times> u8 \<times> u8" where
  "load_dword p m = (m p, m (p + 1), m (p + 2), m (p + 3))"

definition store_dword :: "u32 \<Rightarrow> u8 \<times> u8 \<times> u8 \<times> u8 \<Rightarrow> memory \<Rightarrow> memory" where
  "store_dword q v m = (case v of (a, b, c, d) \<Rightarrow>
     m(q := a, q + 1 := b, q + 2 := c, q + 3 := d))"

function copy_dwords :: "u32 \<Rightarrow> u32 \<Rightarrow> int \<Rightarrow> memory \<Rightarrow> u32 \<times> u32 \<times> int \<times> memory" where
  "copy_dwords p q sz m =
     (if sz > 4
      then copy_dwords (p + 4) (q + 4) (sz - 4) (store_dword q (load_dword p m) m)
      else (p, q, sz, m))"
  by pat_completeness auto
termination
  by (relation "measure (\<lambda>(p, q, sz, m). nat sz)") auto

function copy_bytes :: "u32 \<Rightarrow> u32 \<Rightarrow> int \<Rightarrow> memory \<Rightarrow> memory" where
  "copy_bytes p1 q1 sz m =
     (if sz > 0 then copy_bytes (p1 + 1) (q1 + 1) (sz - 1) (m(q1 := m p1)) else m)"
  by pat_completeness auto
termination
  by (relation "measure (\<lambda>(p, q, sz, m). nat sz)") auto

declare copy_dwords.simps [simp del] copy_bytes.simps [simp del]

definition copy_data :: "u32 \<Rightarrow> u32 \<Rightarrow> int \<Rightarrow> memory \<Rightarrow> memory" where
  "copy_data start dest sz m =
     (let (p, q, sz, m) = copy_dwords start dest sz m in copy_bytes p q sz m)"

definition copy_from_user :: "u32 \<Rightarrow> u32 \<Rightarrow> int \<Rightarrow> memory \<Rightarrow> int \<times> memory" where
  "copy_from_user start dest sz m =
     (let (p, q, sz, m) = copy_dwords start dest sz m in (0, copy_bytes p q sz m))"

definition copy_to_user :: "u32 \<Rightarrow> u32 \<Rightarrow> int \<Rightarrow> memory \<Rightarrow> int \<times> memory" where
  "copy_to_user start dest sz m =
     (let (p, q, sz, m) = copy_dwords start dest sz m in (0, copy_bytes p q sz m))"

section \<open>The user address check\<close>

text \<open>Both cases of the \<open>switch\<close> on \<open>type\<close> make the same test.\<close>

definition access_ok :: "int \<Rightarrow> u32 \<Rightarrow> u32 \<Rightarrow> bool" where
  "access_ok type addr sz =
     (let addr_ini = drop_bit 12 addr;
          addr_fin = drop_bit 12 (addr + sz);
          max_user_page = 1024
      in if addr_fin < addr_ini then False
         else if type = 1 then addr_ini \<ge> 256 \<and> addr_fin < max_user_page
         else addr_ini \<ge> 256 \<and> addr_fin < max_user_page)"

section \<open>Number formatting\<close>

definition hex_chars :: "u8 list" where
  "hex_chars = [48, 49, 50, 51, 52, 53, 54, 55, 56, 57, 65, 66, 67, 68, 69, 70]"

definition itoa_hex :: "u32 \<Rightarrow> u8 list \<Rightarrow> u8 list" where
  "itoa_hex num buffer =
     (let buffer = buffer[0 := 48, 1 := 120];
          (num, buffer) = fold (\<lambda>i (num, b). (drop_bit 4 num, b[i := hex_chars ! unat (num AND 15)]))
            (rev [2..<10]) (num, buffer)
      in buffer[10 := 0])"

function utoa_digits :: "u32 \<Rightarrow> nat \<Rightarrow> u8 list \<Rightarrow> nat \<times> u8 list" where
  "utoa_digits a i b =
     (if a > 0 then utoa_digits (a div 10) (i + 1) (b[i := ucast (a mod 10) + 48]) else (i, b))"
  by pat_completeness auto
termination
  by (relation "measure (\<lambda>(a, i, b). unat a)") (auto simp: unat_div word_less_nat_alt)

declare utoa_digits.simps [simp del]

definition reverse_loop :: "nat \<Rightarrow> u8 list \<Rightarrow> u8 list" where
  "reverse_loop i b =
     fold (\<lambda>i1 b. let c = b ! i1 in (b[i1 := b ! (i - i1 - 1)])[i - i1 - 1 := c]) [0..<i div 2] b"

definition utoa :: "u32 \<Rightarrow> u8 list \<Rightarrow> u8 list" where
  "utoa a b =
     (if a = 0 then b[0 := 48, 1 := 0]
      else let (i, b) = utoa_digits a 0 b in (reverse_loop i b)[i := 0])"

function itoa_digits :: "int \<Rightarrow> nat \<Rightarrow> u8 list \<Rightarrow> nat \<times> u8 list" where
  "itoa_digits a i b =
     (if a > 0 then itoa_digits (cdiv a 10) (i + 1) (b[i := of_int (cmod a 10) + 48]) else (i, b))"
  by pat_completeness auto
termination
  by (relation "measure (\<lambda>(a, i, b). nat a)") auto

declare itoa_digits.simps [simp del]

definition itoa :: "int \<Rightarrow> u8 list \<Rightarrow> u8 list" where
  "itoa a b =
     (if a = 0 then b[0 := 48, 1 := 0]
      else let (i, b) = itoa_digits a 0 b in (reverse_loop i b)[i := 0])"

text \<open>\<open>strlen\<close> scans to the first zero byte; running off the buffer is \<open>None\<close>.\<close>

fun strlen :: "u8 list \<Rightarrow> int option" where
  "strlen [] = None"
| "strlen (c # cs) = (if c \<noteq> 0 then map_option ((+) 1) (strlen cs) else Some 0)"

definition abs_int :: "int \<Rightarrow> int" where
  "abs_int x = (if x < 0 then - x else x)"

section \<open>Lemmas on the copies\<close>

definition disjoint_blocks :: "u32 \<Rightarrow> u32 \<Rightarrow> nat \<Rightarrow> bool" where
  "disjoint_blocks p q n \<longleftrightarrow> (\<forall>i < n. \<forall>j < n. p + of_nat i \<noteq> q + of_nat j)"

lemma disjoint_blocks_shift:
  assumes "disjoint_blocks p q n" and "k + l \<le> n"
  shows "disjoint_blocks (p + of_nat k) (q + of_nat k) l"
  unfolding disjoint_blocks_def
proof (intro allI impI)
  fix i j assume "i < l" "j < l"
  with assms have "p + of_nat (k + i) \<noteq> q + of_nat (k + j)" unfolding disjoint_blocks_def by auto
  then show "p + of_nat k + of_nat i \<noteq> q + of_nat k + of_nat j" by (simp add: add.assoc)
qed

lemma copy_bytes_step: "0 < sz \<Longrightarrow> copy_bytes p q sz m = copy_bytes (p + 1) (q + 1) (sz - 1) (m(q := m p))"
  by (subst copy_bytes.simps) simp

lemma copy_bytes_0 [simp]: "copy_bytes p q 0 m = m"
  by (subst copy_bytes.simps) simp

lemma copy_four:
  assumes "disjoint_blocks p q 4" and "4 < sz"
  shows "copy_bytes p q sz m = copy_bytes (p + 4) (q + 4) (sz - 4) (store_dword q (load_dword p m) m)"
proof -
  have d: "p + of_nat i \<noteq> q + of_nat j" if "i < 4" "j < 4" for i j
    using assms(1) that unfolding disjoint_blocks_def by blast
  have ne: "p + 1 \<noteq> q" "p + 2 \<noteq> q" "p + 2 \<noteq> q + 1" "p + 3 \<noteq> q" "p + 3 \<noteq> q + 1" "p + 3 \<noteq> q + 2"
    using d [of 1 0] d [of 2 0] d [of 2 1] d [of 3 0] d [of 3 1] d [of 3 2] by simp_all
  have "copy_bytes p q sz m = copy_bytes (p + 1 + 1 + 1 + 1) (q + 1 + 1 + 1 + 1) (sz - 1 - 1 - 1 - 1)
      (m(q := m p, q + 1 := m (p + 1), q + 2 := m (p + 2), q + 3 := m (p + 3)))"
    using assms(2) ne by (simp add: copy_bytes_step add.assoc)
  then show ?thesis by (simp add: store_dword_def load_dword_def add.assoc)
qed

lemma copy_data_bytes:
  assumes "disjoint_blocks start dest (nat sz)"
  shows "copy_data start dest sz m = copy_bytes start dest sz m"
proof -
  have "(case copy_dwords p q s m of (p, q, s, m) \<Rightarrow> copy_bytes p q s m) = copy_bytes p q s m"
    if "disjoint_blocks p q (nat s)" for p q s m
    using that
  proof (induction p q s m rule: copy_dwords.induct)
    case (1 p q s m)
    show ?case
    proof (cases "4 < s")
      case True
      have "disjoint_blocks (p + 4) (q + 4) (nat (s - 4))"
        using disjoint_blocks_shift [OF 1(2), of 4 "nat (s - 4)"] True by simp
      moreover have "disjoint_blocks p q 4"
        using disjoint_blocks_shift [OF 1(2), of 0 4] True by simp
      ultimately show ?thesis
        using 1(1) True by (subst copy_dwords.simps) (simp add: copy_four)
    next
      case False
      then show ?thesis by (subst copy_dwords.simps) simp
    qed
  qed
  with assms show ?thesis by (simp add: copy_data_def)
qed

lemma copy_bytes_spec:
  assumes "disjoint_blocks p q n" and "n < 2 ^ 32"
  shows "copy_bytes p q (int n) m a = (if unat (a - q) < n then m (p + (a - q)) else m a)"
  using assms
proof (induction n arbitrary: p q m)
  case 0
  then show ?case by simp
next
  case (Suc n)
  have d: "disjoint_blocks (p + 1) (q + 1) n" using disjoint_blocks_shift [OF Suc.prems(1), of 1 n] by simp
  let ?m = "m(q := m p)"
  have IH: "copy_bytes p q (int (Suc n)) m a =
      (if unat (a - (q + 1)) < n then ?m (p + 1 + (a - (q + 1))) else ?m a)"
    using Suc.IH [OF d] Suc.prems(2) by (subst copy_bytes_step) simp_all
  show ?case
  proof (cases "a = q")
    case True
    have "unat (q - (q + 1)) = 2 ^ 32 - 1" by (simp add: unsigned_minus_1_eq_mask mask_eq_exp_minus_1)
    with True IH Suc.prems(2) show ?thesis by simp
  next
    case False
    then have w: "unat (a - q) = Suc (unat (a - (q + 1)))"
      using unat_minus_one [of "a - q"] unat_gt_0 [of "a - q"] by (simp add: diff_diff_eq)
    have "p + (a - q) \<noteq> q" if "unat (a - (q + 1)) < n"
    proof -
      have "p + of_nat (unat (a - q)) \<noteq> q + of_nat 0"
        using Suc.prems(1) that w unfolding disjoint_blocks_def by (metis not_less_eq zero_less_Suc)
      then show ?thesis by simp
    qed
    with False IH w show ?thesis by simp
  qed
qed

lemma copy_from_user_eq:
  assumes "disjoint_blocks p q n" and "n < 2 ^ 32"
  shows "copy_from_user p q (int n) m = (0, \<lambda>a. if unat (a - q) < n then m (p + (a - q)) else m a)"
proof -
  have "copy_from_user p q (int n) m = (0, copy_data p q (int n) m)"
    by (auto simp: copy_from_user_def copy_data_def split: prod.splits)
  moreover have "copy_data p q (int n) m = (\<lambda>a. if unat (a - q) < n then m (p + (a - q)) else m a)"
    using assms copy_data_bytes [of p q "int n" m] copy_bytes_spec [OF assms] by (intro ext) simp
  ultimately show ?thesis by simp
qed

section \<open>Lemmas on number formatting\<close>

text \<open>Decimal digits, least significant first, and the value of a digit string.\<close>

fun ndigits :: "nat \<Rightarrow> nat list" where
  "ndigits n = (if n = 0 then [] else n mod 10 # ndigits (n div 10))"

declare ndigits.simps [simp del]

definition dchar :: "nat \<Rightarrow> u8" where
  "dchar d = of_nat d + 48"

definition dval :: "u8 list \<Rightarrow> nat" where
  "dval s = foldl (\<lambda>v c. 10 * v + (unat c - 48)) 0 s"

lemma ndigits_less: "d \<in> set (ndigits n) \<Longrightarrow> d < 10"
proof (induction n rule: ndigits.induct)
  case (1 n)
  then show ?case by (subst (asm) (2) ndigits.simps) (auto split: if_splits)
qed

lemma length_ndigits: "n < 10 ^ k \<Longrightarrow> length (ndigits n) \<le> k"
proof (induction k arbitrary: n)
  case 0
  then show ?case by (simp add: ndigits.simps)
next
  case (Suc k)
  then have "n div 10 < 10 ^ k" by (simp add: less_mult_imp_div_less mult.commute)
  then show ?case using Suc.IH by (subst ndigits.simps) simp
qed

lemma ndigits_last: "n > 0 \<Longrightarrow> ndigits n \<noteq> [] \<and> last (ndigits n) > 0"
proof (induction n rule: ndigits.induct)
  case (1 n)
  show ?case
  proof (cases "n div 10 = 0")
    case True
    then have "n div 10 = 0" "n mod 10 = n" using "1.prems" by auto
    then have "ndigits n = [n]" using "1.prems" by (subst ndigits.simps) (simp add: ndigits.simps [of 0])
    with "1.prems" show ?thesis by simp
  next
    case False
    with 1 have "ndigits (n div 10) \<noteq> [] \<and> last (ndigits (n div 10)) > 0" by auto
    moreover have "ndigits n = n mod 10 # ndigits (n div 10)" using "1.prems" by (subst ndigits.simps) simp
    ultimately show ?thesis by simp
  qed
qed

lemma unat_dchar: "d < 10 \<Longrightarrow> unat (dchar d) = d + 48"
proof -
  assume "d < 10"
  have "dchar d = of_nat (d + 48)" by (simp add: dchar_def)
  then have "unat (dchar d) = (d + 48) mod 2 ^ 8" by (simp add: unat_of_nat del: of_nat_add)
  with \<open>d < 10\<close> show ?thesis by simp
qed

lemma dchar_nonzero: "d < 10 \<Longrightarrow> dchar d \<noteq> 0"
  using unat_dchar [of d] by auto

lemma dval_snoc [simp]: "dval (s @ [c]) = 10 * dval s + (unat c - 48)"
  by (simp add: dval_def)

lemma dval_ndigits: "dval (rev (map dchar (ndigits n))) = n"
proof (induction n rule: ndigits.induct)
  case (1 n)
  show ?case
  proof (cases "n = 0")
    case True
    then show ?thesis by (simp add: ndigits.simps dval_def)
  next
    case False
    then have "ndigits n = n mod 10 # ndigits (n div 10)" by (subst ndigits.simps) simp
    with 1 False show ?thesis by (simp add: unat_dchar)
  qed
qed

lemma utoa_digits_spec:
  assumes "i + length (ndigits (unat a)) \<le> length b"
  shows "utoa_digits a i b = (i + length (ndigits (unat a)),
    take i b @ map dchar (ndigits (unat a)) @ drop (i + length (ndigits (unat a))) b)"
  using assms
proof (induction a i b rule: utoa_digits.induct)
  case (1 a i b)
  show ?case
  proof (cases "a > 0")
    case False
    then have "a = 0" using word_gt_0 by blast
    then show ?thesis by (subst utoa_digits.simps) (simp add: ndigits.simps [of 0])
  next
    case True
    then have n: "ndigits (unat a) = unat a mod 10 # ndigits (unat (a div 10))"
      by (subst ndigits.simps) (simp add: unat_div unat_eq_zero)
    have c: "ucast (a mod 10) + 48 = dchar (unat a mod 10)"
    proof -
      have "(of_nat (unat (a mod 10)) :: u8) = ucast (a mod 10)" by simp
      then show ?thesis by (simp only: dchar_def unat_mod unat_numeral) simp
    qed
    have i: "i < length b" using "1.prems" n by simp
    then have b: "take (Suc i) (b[i := dchar (unat a mod 10)]) = take i b @ [dchar (unat a mod 10)]"
      by (simp add: take_Suc_conv_app_nth)
    have "utoa_digits a i b = utoa_digits (a div 10) (i + 1) (b[i := dchar (unat a mod 10)])"
      using True by (subst utoa_digits.simps) (simp add: c)
    then show ?thesis
      using "1.IH" [OF True] "1.prems" i by (simp add: n c b)
  qed
qed

definition swap_ends :: "nat \<Rightarrow> nat \<Rightarrow> u8 list \<Rightarrow> u8 list" where
  "swap_ends i i1 b = (let c = b ! i1 in (b[i1 := b ! (i - i1 - 1)])[i - i1 - 1 := c])"

lemma length_swap_ends [simp]: "length (fold (swap_ends i) xs b) = length b"
  by (induction xs arbitrary: b) (simp_all add: swap_ends_def Let_def)

lemma nth_swap_ends:
  "j < length b \<Longrightarrow> i - j - 1 < length b \<Longrightarrow> swap_ends i j b ! x =
     (if x = i - j - 1 then b ! j else if x = j then b ! (i - j - 1) else b ! x)"
  by (simp add: swap_ends_def Let_def nth_list_update)

lemma fold_swap_ends_nth:
  assumes "i \<le> length b" and "j \<le> i div 2"
  shows "fold (swap_ends i) [0..<j] b ! x =
    (if x < j \<or> i - j \<le> x \<and> x < i then b ! (i - 1 - x) else b ! x)"
  using assms(2)
proof (induction j arbitrary: x)
  case 0
  then show ?case by (auto simp: not_le)
next
  case (Suc j)
  let ?f = "fold (swap_ends i) [0..<j] b"
  have j: "j \<le> i div 2" "j < i - j - 1" "j < length ?f" "i - j - 1 < length ?f"
    using Suc.prems assms(1) unfolding length_swap_ends by linarith+
  note f = Suc.IH [OF j(1)]
  have step: "fold (swap_ends i) [0..<Suc j] b ! x =
      (if x = i - j - 1 then ?f ! j else if x = j then ?f ! (i - j - 1) else ?f ! x)"
    by (simp add: nth_swap_ends [OF j(3,4)] del: length_swap_ends)
  consider "x = i - j - 1" | "x = j" | "x \<noteq> i - j - 1" "x \<noteq> j" by blast
  then show ?case
  proof cases
    case 1
    then have "i - 1 - x = j" "i - Suc j \<le> x" "x < i" using j(2) by linarith+
    moreover have "\<not> (i - j \<le> j)" using j(2) by linarith
    then have "?f ! j = b ! j" using f [of j] by simp
    ultimately show ?thesis unfolding step using 1 by simp
  next
    case 2
    moreover have "?f ! (i - j - 1) = b ! (i - j - 1)" using f [of "i - j - 1"] j(2) by simp
    ultimately show ?thesis unfolding step using j(2) by simp
  next
    case 3
    then have "x < Suc j \<or> i - Suc j \<le> x \<and> x < i \<longleftrightarrow> x < j \<or> i - j \<le> x \<and> x < i"
      using j(2) by linarith
    then show ?thesis unfolding step using 3 f [of x] by presburger
  qed
qed

lemma reverse_loop_rev:
  assumes "i \<le> length b"
  shows "reverse_loop i b = rev (take i b) @ drop i b"
proof (rule nth_equalityI)
  have eq: "reverse_loop i b = fold (swap_ends i) [0..<i div 2] b"
    by (simp add: reverse_loop_def swap_ends_def [abs_def])
  then show "length (reverse_loop i b) = length (rev (take i b) @ drop i b)" using assms by simp
  fix x
  have "reverse_loop i b ! x = (if x < i then b ! (i - 1 - x) else b ! x)"
  proof (cases "x < i div 2 \<or> i - i div 2 \<le> x \<and> x < i")
    case True
    then show ?thesis unfolding eq fold_swap_ends_nth [OF assms order_refl] by auto
  next
    case False
    then have "i - 1 - x = x" if "x < i" using that by linarith
    with False show ?thesis unfolding eq fold_swap_ends_nth [OF assms order_refl] by simp
  qed
  moreover assume "x < length (reverse_loop i b)"
  ultimately show "reverse_loop i b ! x = (rev (take i b) @ drop i b) ! x"
    using assms by (simp add: nth_append rev_nth)
qed

lemma takeWhile_string:
  "0 \<notin> set s \<Longrightarrow> takeWhile (\<lambda>c. c \<noteq> 0) (s @ 0 # r) = s"
  by (metis (mono_tags, lifting) takeWhile_append2 takeWhile.simps(2) append_Nil2)

lemma utoa_string:
  assumes "11 \<le> length b" and "a \<noteq> 0"
  shows "takeWhile (\<lambda>c. c \<noteq> 0) (utoa a b) = rev (map dchar (ndigits (unat a)))"
proof -
  let ?ds = "ndigits (unat a)"
  have "unat a < 2 ^ LENGTH(32)" by (rule unsigned_less)
  then have len: "length ?ds \<le> 10" by (intro length_ndigits) simp
  let ?b = "map dchar ?ds @ drop (length ?ds) b"
  have "utoa_digits a 0 b = (length ?ds, ?b)" using utoa_digits_spec [of 0 a b] assms(1) len by simp
  moreover have "reverse_loop (length ?ds) ?b = rev (map dchar ?ds) @ drop (length ?ds) b"
    by (subst reverse_loop_rev) simp_all
  moreover obtain c r where "drop (length ?ds) b = c # r"
    using assms(1) len by (cases "drop (length ?ds) b") auto
  ultimately have "utoa a b = rev (map dchar ?ds) @ 0 # r"
    using assms(2) by (simp add: utoa_def list_update_append)
  moreover have "0 \<notin> set (rev (map dchar ?ds))" using ndigits_less dchar_nonzero by fastforce
  ultimately show ?thesis by (simp add: takeWhile_string)
qed

lemma itoa_digits_spec:
  assumes "i + length (ndigits (nat a)) \<le> length b"
  shows "itoa_digits a i b = (i + length (ndigits (nat a)),
    take i b @ map dchar (ndigits (nat a)) @ drop (i + length (ndigits (nat a))) b)"
  using assms
proof (induction a i b rule: itoa_digits.induct)
  case (1 a i b)
  show ?case
  proof (cases "a > 0")
    case False
    then show ?thesis by (subst itoa_digits.simps) (simp add: ndigits.simps [of 0])
  next
    case True
    then have n: "ndigits (nat a) = nat a mod 10 # ndigits (nat (cdiv a 10))"
      by (subst ndigits.simps) (simp add: nat_div_distrib)
    have c: "of_int (a mod 10) + 48 = dchar (nat a mod 10)"
    proof -
      have "a mod 10 = int (nat a mod 10)" using True by (simp add: zmod_int)
      then have "(of_int (a mod 10) :: u8) = of_int (int (nat a mod 10))" by (rule arg_cong)
      then show ?thesis by (simp only: dchar_def of_int_of_nat_eq)
    qed
    have i: "i < length b" using "1.prems" n by simp
    then have b: "take (Suc i) (b[i := dchar (nat a mod 10)]) = take i b @ [dchar (nat a mod 10)]"
      by (simp add: take_Suc_conv_app_nth)
    have "itoa_digits a i b = itoa_digits (cdiv a 10) (i + 1) (b[i := dchar (nat a mod 10)])"
      using True by (subst itoa_digits.simps) (simp add: c)
    then show ?thesis
      using "1.IH" [OF True] "1.prems" i True by (simp add: n c b)
  qed
qed

lemma itoa_string:
  assumes "11 \<le> length b" and "0 < a" and "a < 2 ^ 31"
  shows "takeWhile (\<lambda>c. c \<noteq> 0) (itoa a b) = rev (map dchar (ndigits (nat a)))"
proof -
  let ?ds = "ndigits (nat a)"
  have len: "length ?ds \<le> 10" using assms(3) by (intro length_ndigits) simp
  let ?b = "map dchar ?ds @ drop (length ?ds) b"
  have "itoa_digits a 0 b = (length ?ds, ?b)" using itoa_digits_spec [of 0 a b] assms(1) len by simp
  moreover have "reverse_loop (length ?ds) ?b = rev (map dchar ?ds) @ drop (length ?ds) b"
    by (subst reverse_loop_rev) simp_all
  moreover obtain c r where "drop (length ?ds) b = c # r"
    using assms(1) len by (cases "drop (length ?ds) b") auto
  ultimately have "itoa a b = rev (map dchar ?ds) @ 0 # r"
    using assms(2) by (simp add: itoa_def list_update_append)
  moreover have "0 \<notin> set (rev (map dchar ?ds))" using ndigits_less dchar_nonzero by fastforce
  ultimately show ?thesis by (simp add: takeWhile_string)
qed

lemma itoa_negative:
  assumes "1 \<le> length b" and "a < 0"
  shows "takeWhile (\<lambda>c. c \<noteq> 0) (itoa a b) = []"
proof -
  have "itoa a b = b[0 := 0]"
    using assms(2) by (simp add: itoa_def reverse_loop_def itoa_digits.simps [of a])
  then show ?thesis using assms(1) by (cases b) auto
qed

lemma unat_drop_bit_u32: "unat (drop_bit n (w :: u32)) = unat w div 2 ^ n"
  by (subst unat_drop_bit_eq) (simp add: drop_bit_eq_div)

lemma unat_nibble: "unat (w AND 15 :: u32) = unat w mod 16"
proof -
  have "w AND 15 = take_bit 4 w" by (simp add: take_bit_eq_mask mask_eq_exp_minus_1)
  then show ?thesis by (simp add: take_bit_eq_mod unat_mod)
qed

definition hex_digit :: "u32 \<Rightarrow> nat \<Rightarrow> u8" where
  "hex_digit num k = hex_chars ! (unat num div 16 ^ k mod 16)"

lemma hex_digit_eq: "hex_chars ! unat (drop_bit (4 * k) num AND 15) = hex_digit num k"
  by (simp add: hex_digit_def unat_nibble unat_drop_bit_u32 power_mult)

lemma itoa_hex_eq:
  assumes "11 \<le> length b"
  shows "itoa_hex num b = 48 # 120 # map (hex_digit num) (rev [0..<8]) @ 0 # drop 11 b"
proof -
  have "Suc (Suc (Suc (Suc (Suc (Suc (Suc (Suc (Suc (Suc (Suc 0)))))))))) \<le> length b" using assms by simp
  then obtain a0 a1 a2 a3 a4 a5 a6 a7 a8 a9 a10 r
    where b: "b = a0 # a1 # a2 # a3 # a4 # a5 # a6 # a7 # a8 # a9 # a10 # r"
    unfolding Suc_le_length_iff by blast
  have u: "rev [2..<10] = [9, 8, 7, 6, 5, 4, 3, 2 :: nat]" "rev [0..<8] = [7, 6, 5, 4, 3, 2, 1, 0 :: nat]"
    by (simp_all add: upt_rec)
  have h: "hex_chars ! unat (num AND 15) = hex_digit num 0"
    "hex_chars ! unat (drop_bit 4 num AND 15) = hex_digit num 1"
    "hex_chars ! unat (drop_bit 8 num AND 15) = hex_digit num 2"
    "hex_chars ! unat (drop_bit 12 num AND 15) = hex_digit num 3"
    "hex_chars ! unat (drop_bit 16 num AND 15) = hex_digit num 4"
    "hex_chars ! unat (drop_bit 20 num AND 15) = hex_digit num 5"
    "hex_chars ! unat (drop_bit 24 num AND 15) = hex_digit num 6"
    "hex_chars ! unat (drop_bit 28 num AND 15) = hex_digit num 7"
    using hex_digit_eq [of 0 num] hex_digit_eq [of 1 num] hex_digit_eq [of 2 num] hex_digit_eq [of 3 num]
      hex_digit_eq [of 4 num] hex_digit_eq [of 5 num] hex_digit_eq [of 6 num] hex_digit_eq [of 7 num]
    by simp_all
  show ?thesis unfolding itoa_hex_def u Let_def by (simp add: b h)
qed

text \<open>The value of a string of hexadecimal digits.\<close>

definition hex_val :: "u8 \<Rightarrow> nat" where
  "hex_val c = (if c \<le> 57 then unat c - 48 else unat c - 55)"

lemma hex_val_digit: "hex_val (hex_digit num k) = unat num div 16 ^ k mod 16"
proof -
  have "list_all (\<lambda>d. hex_val (hex_chars ! d) = d) [0..<16]" by code_simp
  then have "hex_val (hex_chars ! d) = d" if "d < 16" for d using that by (auto simp: list_all_iff)
  then show ?thesis by (simp add: hex_digit_def)
qed

lemma access_ok_iff:
  assumes "unat sz < 2 ^ 31"
  shows "access_ok type addr sz \<longleftrightarrow> 2 ^ 20 \<le> unat addr \<and> unat addr + unat sz < 2 ^ 22"
proof -
  have a: "unat addr < 2 ^ 32" using unsigned_less [of addr, where ?'a = nat] by simp
  have s: "unat (addr + sz) = (unat addr + unat sz) mod 2 ^ 32" by (simp add: unat_word_ariths)
  have "access_ok type addr sz \<longleftrightarrow> \<not> unat (addr + sz) div 4096 < unat addr div 4096 \<and>
      256 \<le> unat addr div 4096 \<and> unat (addr + sz) div 4096 < 1024"
    by (auto simp: access_ok_def Let_def word_less_nat_alt word_le_nat_alt unat_drop_bit_u32)
  moreover have "unat (addr + sz) = (if unat addr + unat sz < 2 ^ 32 then unat addr + unat sz
      else unat addr + unat sz - 2 ^ 32)"
    using a assms unfolding s by (auto simp: mod_if)
  ultimately show ?thesis using a assms by (auto split: if_splits)
qed

section \<open>Properties\<close>

text \<open>Property C25 (copy_data_exact). On disjoint blocks the copy routines (double words while more
  than four bytes remain, then single bytes) copy exactly the given number of bytes and
  change no other byte of memory; the two user copies do the same and return 0.\<close>

theorem copy_data_exact:
  assumes "disjoint_blocks start dest n" and "n < 2 ^ 31"
  shows "copy_data start dest (int n) m =
      (\<lambda>a. if unat (a - dest) < n then m (start + (a - dest)) else m a) \<and>
    copy_from_user start dest (int n) m = (0, copy_data start dest (int n) m) \<and>
    copy_to_user start dest (int n) m = (0, copy_data start dest (int n) m)"
proof -
  have "copy_data start dest (int n) m a = (if unat (a - dest) < n then m (start + (a - dest)) else m a)" for a
    using assms copy_data_bytes [of start dest "int n" m] copy_bytes_spec [of start dest n m a] by simp
  then show ?thesis
    by (auto simp: copy_data_def copy_from_user_def copy_to_user_def split: prod.splits)
qed

theorem copy_data_exact_witness:
  "copy_data 0x100000 0x200000 6 (\<lambda>a. ucast a) 0x200005 = 5"
proof -
  have "disjoint_blocks 0x100000 0x200000 6"
  proof (unfold disjoint_blocks_def, intro allI impI)
    fix i j :: nat assume "i < 6" "j < 6"
    then have "unat (0x100000 + of_nat i :: u32) = 0x100000 + i" "unat (0x200000 + of_nat j :: u32) = 0x200000 + j"
      by (simp_all add: unat_word_ariths unat_of_nat)
    with \<open>i < 6\<close> show "(0x100000 :: u32) + of_nat i \<noteq> 0x200000 + of_nat j" by auto
  qed
  from copy_data_exact [OF this, of "\<lambda>a. ucast a"] show ?thesis by simp
qed

text \<open>Property C26 (access_ok_pages). For sizes below two gigabytes the address check accepts a
  block exactly when every address from its first byte to the one after its last lies in a
  user page of the 4 MB address space, for reading and for writing alike.\<close>

theorem access_ok_pages:
  assumes "unat sz < 2 ^ 31"
  shows "access_ok type addr sz \<longleftrightarrow>
    (\<forall>i \<le> unat sz. 256 \<le> drop_bit 12 (addr + of_nat i) \<and> drop_bit 12 (addr + of_nat i) < 1024)"
proof -
  have a: "unat addr < 2 ^ 32" using unsigned_less [of addr, where ?'a = nat] by simp
  have u: "unat (addr + of_nat i) = (if unat addr + i < 2 ^ 32 then unat addr + i else unat addr + i - 2 ^ 32)"
    if "i \<le> unat sz" for i
    using a assms that by (auto simp: unat_word_ariths unat_of_nat mod_if)
  have r: "256 \<le> drop_bit 12 w \<and> drop_bit 12 w < 1024 \<longleftrightarrow> 2 ^ 20 \<le> unat w \<and> unat w < 2 ^ 22" for w :: u32
    by (auto simp: word_less_nat_alt word_le_nat_alt unat_drop_bit_u32)
  show ?thesis
  proof
    assume "access_ok type addr sz"
    then have "2 ^ 20 \<le> unat addr" "unat addr + unat sz < 2 ^ 22" using access_ok_iff [OF assms] by simp_all
    then show "\<forall>i \<le> unat sz. 256 \<le> drop_bit 12 (addr + of_nat i) \<and> drop_bit 12 (addr + of_nat i) < 1024"
      unfolding r by (auto simp: u)
  next
    assume "\<forall>i \<le> unat sz. 256 \<le> drop_bit 12 (addr + of_nat i) \<and> drop_bit 12 (addr + of_nat i) < 1024"
    then have "2 ^ 20 \<le> unat (addr + of_nat i) \<and> unat (addr + of_nat i) < 2 ^ 22" if "i \<le> unat sz" for i
      using that unfolding r by blast
    from this [of 0] this [of "unat sz"] show "access_ok type addr sz"
      unfolding access_ok_iff [OF assms] using u [of "unat sz"] assms by (auto split: if_splits)
  qed
qed

theorem access_ok_pages_witness:
  "access_ok 0 0x100000 4000 \<and> 256 \<le> drop_bit 12 ((0x100000 :: u32) + of_nat 3999)"
proof -
  have s: "unat (4000 :: u32) < 2 ^ 31" by simp
  have a: "access_ok 0 0x100000 4000" by (simp add: access_ok_def)
  with access_ok_pages [OF s, of 0 "0x100000"]
  have "\<forall>i \<le> unat (4000 :: u32). 256 \<le> drop_bit 12 ((0x100000 :: u32) + of_nat i)" by blast
  with a show ?thesis by (auto dest!: spec [of _ 3999])
qed

text \<open>Property C27 (number_strings). The number routines print what they are given: read back, the
  decimal string of \<open>utoa\<close> (any unsigned value) and of \<open>itoa\<close> (non-negative values) has the
  value printed and no leading zero, and the eight digits \<open>itoa_hex\<close> writes after \<open>0x\<close> are the
  hexadecimal digits of the value; eleven bytes of buffer are enough.\<close>

theorem number_strings:
  assumes "11 \<le> length b" and "0 \<le> i" and "i < 2 ^ 31"
  shows "dval (takeWhile (\<lambda>c. c \<noteq> 0) (utoa a b)) = unat a \<and>
    dval (takeWhile (\<lambda>c. c \<noteq> 0) (itoa i b)) = nat i \<and>
    (a \<noteq> 0 \<longrightarrow> hd (utoa a b) \<noteq> 48) \<and> (i \<noteq> 0 \<longrightarrow> hd (itoa i b) \<noteq> 48) \<and>
    (\<exists>ds. itoa_hex a b = 48 # 120 # ds @ 0 # drop 11 b \<and> length ds = 8 \<and>
      (\<forall>k < 8. hex_val (ds ! k) = unat a div 16 ^ (7 - k) mod 16))"
proof -
  obtain x y r where b: "b = x # y # r" using assms(1) by (cases b; cases "tl b") auto
  have z: "takeWhile (\<lambda>c. c \<noteq> 0) (utoa 0 b) = [48]" "takeWhile (\<lambda>c. c \<noteq> 0) (itoa 0 b) = [48]"
    by (simp_all add: utoa_def itoa_def b)
  have lead: "hd s \<noteq> 48" if "takeWhile (\<lambda>c. c \<noteq> 0) s = rev (map dchar (ndigits n))" "n > 0" for s :: "u8 list" and n
  proof -
    have n: "ndigits n \<noteq> []" "last (ndigits n) > 0" "last (ndigits n) < 10"
      using ndigits_last [OF that(2)] ndigits_less [of "last (ndigits n)" n] by auto
    then have "hd (takeWhile (\<lambda>c. c \<noteq> 0) s) = dchar (last (ndigits n))" "takeWhile (\<lambda>c. c \<noteq> 0) s \<noteq> []"
      unfolding that(1) by (simp_all add: hd_rev last_map)
    moreover from this(2) have "hd (takeWhile (\<lambda>c. c \<noteq> 0) s) = hd s" by (cases s) auto
    moreover have "dchar (last (ndigits n)) \<noteq> 48"
    proof
      assume "dchar (last (ndigits n)) = 48"
      then have "unat (dchar (last (ndigits n))) = unat (48 :: u8)" by simp
      then show False using unat_dchar [OF n(3)] n(2) by simp
    qed
    ultimately show ?thesis by simp
  qed
  have "dval (takeWhile (\<lambda>c. c \<noteq> 0) (utoa a b)) = unat a"
    using utoa_string [OF assms(1), of a] z by (cases "a = 0") (simp_all add: dval_ndigits, simp add: dval_def)
  moreover have "dval (takeWhile (\<lambda>c. c \<noteq> 0) (itoa i b)) = nat i"
    using itoa_string [OF assms(1), of i] z assms(2,3)
    by (cases "i = 0") (simp_all add: dval_ndigits, simp add: dval_def)
  moreover have "a \<noteq> 0 \<longrightarrow> hd (utoa a b) \<noteq> 48"
    using lead [OF utoa_string [OF assms(1)]] unat_gt_0 by blast
  moreover have "i \<noteq> 0 \<longrightarrow> hd (itoa i b) \<noteq> 48"
    using lead [OF itoa_string [OF assms(1) _ assms(3)]] assms(2) by simp
  ultimately show ?thesis
    using itoa_hex_eq [OF assms(1), of a]
    by (auto intro!: exI [of _ "map (hex_digit a) (rev [0..<8])"] simp: hex_val_digit rev_nth)
qed

theorem number_strings_witness:
  "dval (takeWhile (\<lambda>c. c \<noteq> 0) (utoa 4294967295 (replicate 32 0))) = 4294967295 \<and>
   dval (takeWhile (\<lambda>c. c \<noteq> 0) (itoa 1000 (replicate 12 0))) = 1000"
  using number_strings [of "replicate 32 0" 0 4294967295] number_strings [of "replicate 12 0" 1000 0] by simp

end
