(* ===== verification/Zeos_Syscalls.thy ===== *)
theory Zeos_Syscalls
  imports Zeos_Keyboard Zeos_Utils
begin

text \<open>
  \<open>project/sys.c\<close>: processes, threads, blocking and keyboard registration. A system call takes
  and returns the kernel state; its result is the value left in \<open>eax\<close>. When a call switches
  to another task the state returned is the one in which that task runs, and the result is
  the one the caller finds once it runs again. \<open>sys_write\<close> is in \<open>Zeos_System\<close>.
\<close>

section \<open>Identity\<close>

definition sys_ni_syscall :: "kernel \<Rightarrow> (int \<times> kernel) option" where
  "sys_ni_syscall k = Some (- 38, k)"

definition sys_getpid :: "kernel \<Rightarrow> (int \<times> kernel) option" where
  "sys_getpid k =
     (if in_keyboard_context k then Some (- EINPROGRESS, k)
      else do { t \<leftarrow> current_task k; Some (PID (tasks k t), k) })"

definition sys_gettid :: "kernel \<Rightarrow> (int \<times> kernel) option" where
  "sys_gettid k =
     (if in_keyboard_context k then Some (- EINPROGRESS, k)
      else do { t \<leftarrow> current_task k; Some (TID (tasks k t), k) })"

section \<open>Fork\<close>

text \<open>The copy of a whole \<open>union task_union\<close>: the fields of the control block, its list nodes
  and the words of the kernel stack.\<close>

definition copy_node :: "lnode \<Rightarrow> lnode \<Rightarrow> lnode list_head \<Rightarrow> lnode list_head" where
  "copy_node src dst h = h\<lparr>next_of := (next_of h)(dst := next_of h src), prev_of := (prev_of h)(dst := prev_of h src)\<rparr>"

definition copy_task_union :: "nat \<Rightarrow> nat \<Rightarrow> kernel \<Rightarrow> kernel" where
  "copy_task_union src dst k =
     (let k = task_update dst (\<lambda>_. tasks k src) k;
          k = k\<lparr>lists := fold (\<lambda>f. copy_node (f src) (f dst))
                [Task_list, Children, Child_list, Threads, Thread_list] (lists k)\<rparr>
      in fold (\<lambda>i k. stack_set dst i (stack_get src i k) k) [0..<KERNEL_STACK_SIZE] k)"

text \<open>Step d: frames for the data pages; on failure the ones taken so far are given back.\<close>

fun fork_alloc_frames :: "nat \<Rightarrow> nat list \<Rightarrow> mm_state \<Rightarrow> nat list option \<times> mm_state" where
  "fork_alloc_frames 0 new_frames m = (Some new_frames, m)"
| "fork_alloc_frames (Suc n) new_frames m =
     (let (frame, m) = alloc_frame m in
      if frame < 0 then (None, fold free_frame new_frames m)
      else fork_alloc_frames n (new_frames @ [nat frame]) m)"

text \<open>Step e: the shared pages.\<close>

definition fork_share_pages :: "nat \<Rightarrow> nat \<Rightarrow> mm_state \<Rightarrow> mm_state" where
  "fork_share_pages child_PT parent_PT m =
     (let m = fold (\<lambda>page m. set_ss_pag child_PT page (get_frame parent_PT page m) m) [0..<NUM_PAG_KERNEL] m
      in fold (\<lambda>page m. set_ss_pag child_PT (PAG_LOG_INIT_CODE + page)
             (get_frame parent_PT (PAG_LOG_INIT_CODE + page) m) m) [0..<NUM_PAG_CODE] m)"

text \<open>Step f: each data page of the child is mapped in the parent, filled and unmapped again.\<close>

definition fork_copy_data :: "nat \<Rightarrow> nat \<Rightarrow> nat list \<Rightarrow> mm_state \<Rightarrow> mm_state option" where
  "fork_copy_data child_PT parent_PT new_frames m =
     ofold (\<lambda>page m. do {
         m \<leftarrow> Some (set_ss_pag child_PT (PAG_LOG_INIT_DATA + page) (new_frames ! page) m);
         m \<leftarrow> Some (set_ss_pag parent_PT (FORK_TEMP_MAPPING_PAGE + page) (new_frames ! page) m);
         m \<leftarrow> copy_page (PAG_LOG_INIT_DATA + page) (FORK_TEMP_MAPPING_PAGE + page) m;
         Some (del_ss_pag parent_PT (FORK_TEMP_MAPPING_PAGE + page) m) })
       [0..<NUM_PAG_DATA] m"

text \<open>Steps g and h: the fields of the new control block.\<close>

definition fork_init_child :: "nat \<Rightarrow> nat \<Rightarrow> kernel \<Rightarrow> kernel option" where
  "fork_init_child cur child k = do {
     (pid, k) \<leftarrow> Some (get_next_pid k);
     k \<leftarrow> Some (task_update child (\<lambda>t. t\<lparr>PID := pid, quantum := quantum (tasks k cur), status := ST_READY\<rparr>) k);
     k \<leftarrow> on_lists (INIT_LIST_HEAD (Some (Task_list child))) k;
     k \<leftarrow> Some (task_update child (parent_update (\<lambda>_. Some cur)) k);
     k \<leftarrow> on_lists (INIT_LIST_HEAD (Some (Children child))) k;
     k \<leftarrow> on_lists (INIT_LIST_HEAD (Some (Child_list child))) k;
     k \<leftarrow> on_lists (list_add_tail (Some (Child_list child)) (Some (Children cur))) k;
     k \<leftarrow> Some (task_update child (\<lambda>t. t\<lparr>pending_unblocks := 0, thread_count := 1, master_thread := child\<rparr>) k);
     k \<leftarrow> on_lists (INIT_LIST_HEAD (Some (Threads child))) k;
     k \<leftarrow> on_lists (INIT_LIST_HEAD (Some (Thread_list child))) k;
     Some (task_update child (\<lambda>t. init_keyboard_fields ((init_tid_slots t)\<lparr>TID := pid * 10\<rparr>)) k) }"

text \<open>The frames of the child's user stack, taken and mapped one by one; on failure those
  mapped so far and the data frames are given back.\<close>

fun fork_stack_frames :: "nat \<Rightarrow> nat \<Rightarrow> nat list \<Rightarrow> nat list \<Rightarrow> mm_state \<Rightarrow> bool \<times> mm_state" where
  "fork_stack_frames child_PT first_mapped_page new_frames [] m = (True, m)"
| "fork_stack_frames child_PT first_mapped_page new_frames (i # is) m =
     (let (frame, m) = alloc_frame m in
      if frame < 0 then
        let m = fold (\<lambda>j m. del_ss_pag child_PT (first_mapped_page + j)
                  (free_frame (get_frame child_PT (first_mapped_page + j) m) m)) [0..<i] m
        in (False, fold free_frame new_frames m)
      else fork_stack_frames child_PT first_mapped_page new_frames is
             (set_ss_pag child_PT (first_mapped_page + i) (nat frame) m))"

definition fork_copy_stack :: "nat \<Rightarrow> nat \<Rightarrow> nat \<Rightarrow> nat \<Rightarrow> nat \<Rightarrow> mm_state \<Rightarrow> mm_state option" where
  "fork_copy_stack child_PT parent_PT first_mapped_page parent_stack_page frames m =
     ofold (\<lambda>i m. do {
         m \<leftarrow> Some (set_ss_pag parent_PT (FORK_TEMP_MAPPING_PAGE + i)
                (get_frame child_PT (first_mapped_page + i) m) m);
         m \<leftarrow> copy_page (parent_stack_page + i) (FORK_TEMP_MAPPING_PAGE + i) m;
         Some (del_ss_pag parent_PT (FORK_TEMP_MAPPING_PAGE + i) m) })
       [0..<frames] m"

text \<open>The user stack step as a whole; \<open>False\<close> is the failure exit.\<close>

definition fork_stack :: "nat \<Rightarrow> nat \<Rightarrow> nat list \<Rightarrow> kernel \<Rightarrow> (bool \<times> kernel) option" where
  "fork_stack cur child new_frames k =
     (let child_PT = task_PT child k; parent_PT = task_PT cur k; p = tasks k cur in
      if user_stack_ptr p \<noteq> NULL \<and> user_stack_frames p > 0 then
        let region_start = THREAD_STACK_BASE_PAGE;
            region_end = region_start + THREAD_STACK_REGION_PAGES;
            first_mapped_page = region_end - nat (user_stack_frames p);
            (ok, m) = fork_stack_frames child_PT first_mapped_page new_frames
                        [0..<nat (user_stack_frames p)] (mm k);
            k = k\<lparr>mm := m\<rparr> in
        if \<not> ok then do {
          k \<leftarrow> on_lists (list_add_tail (Some (Task_list child)) (Some Freequeue)) k;
          Some (False, k) }
        else do {
          m \<leftarrow> fork_copy_stack child_PT parent_PT first_mapped_page (page_of (user_stack_ptr p))
                 (nat (user_stack_frames p)) (mm k);
          k \<leftarrow> Some (k\<lparr>mm := m\<rparr>);
          k \<leftarrow> Some (task_update child (\<lambda>t. t\<lparr>user_stack_region_start := region_start,
                 user_stack_region_pages := THREAD_STACK_REGION_PAGES,
                 user_stack_frames := user_stack_frames p,
                 user_stack_ptr := page_addr first_mapped_page\<rparr>) k);
          parent_esp \<leftarrow> Some (stack_get cur (KERNEL_STACK_SIZE - 2) k);
          child_esp \<leftarrow> Some (user_stack_ptr (tasks k child) + (parent_esp - user_stack_ptr p));
          k \<leftarrow> Some (stack_set child (KERNEL_STACK_SIZE - 2) child_esp k);
          Some (True, task_update child (user_initial_esp_update (\<lambda>_. child_esp)) k) }
      else Some (True, task_update child (\<lambda>t. t\<lparr>user_stack_ptr := NULL, user_stack_frames := 0,
             user_stack_region_start := 0, user_stack_region_pages := 0, user_initial_esp := 0\<rparr>) k))"

definition fork_finish :: "nat \<Rightarrow> kernel \<Rightarrow> kernel option" where
  "fork_finish child k = do {
     k \<leftarrow> Some (task_update child (user_entry_update (\<lambda>_. 0)) k);
     k \<leftarrow> Some (stack_set child (KERNEL_STACK_SIZE - 19) 0 k);
     k \<leftarrow> Some (stack_set child (KERNEL_STACK_SIZE - 18) (sym_ret_from_fork k) k);
     k \<leftarrow> Some (task_update child (kernel_esp_update (\<lambda>_. stack_addr k child (KERNEL_STACK_SIZE - 19))) k);
     on_lists (list_add_tail (Some (Task_list child)) (Some Readyqueue)) k }"

definition sys_fork :: "kernel \<Rightarrow> (int \<times> kernel) option" where
  "sys_fork k =
     (if in_keyboard_context k then Some (- EINPROGRESS, k) else do {
      e \<leftarrow> list_empty (Some Freequeue) (lists k);
      if e then Some (- ENOMEM, k) else do {
      free_node \<leftarrow> list_first (Some Freequeue) (lists k);
      k \<leftarrow> on_lists (list_del free_node) k;
      child \<leftarrow> list_head_to_task_struct free_node;
      cur \<leftarrow> current_task k;
      k \<leftarrow> Some (copy_task_union cur child k);
      k \<leftarrow> Some (allocate_DIR child k);
      (fs, m) \<leftarrow> Some (fork_alloc_frames NUM_PAG_DATA [] (mm k));
      k \<leftarrow> Some (k\<lparr>mm := m\<rparr>);
      case fs of
        None \<Rightarrow> do {
          k \<leftarrow> on_lists (list_add_tail (Some (Task_list child)) (Some Freequeue)) k;
          Some (- EAGAIN, k) }
      | Some new_frames \<Rightarrow> do {
          k \<leftarrow> Some (k\<lparr>mm := fork_share_pages (task_PT child k) (task_PT cur k) (mm k)\<rparr>);
          m \<leftarrow> fork_copy_data (task_PT child k) (task_PT cur k) new_frames (mm k);
          k \<leftarrow> Some (k\<lparr>mm := set_cr3 (get_DIR cur k) m\<rparr>);
          k \<leftarrow> fork_init_child cur child k;
          (ok, k) \<leftarrow> fork_stack cur child new_frames k;
          if \<not> ok then Some (- EAGAIN, k) else do {
            k \<leftarrow> fork_finish child k;
            Some (PID (tasks k child), k) } } } })"

section \<open>Exit\<close>

text \<open>\<open>list_for_each_safe\<close>: the next element is read before the body runs.\<close>

partial_function (option) list_for_each_safe ::
  "lnode option \<Rightarrow> (lnode \<Rightarrow> kernel \<Rightarrow> kernel option) \<Rightarrow> lnode option \<Rightarrow> lnode option \<Rightarrow> kernel \<Rightarrow> kernel option" where
  "list_for_each_safe head body pos n k =
     (if pos = head then Some k
      else Option.bind pos (\<lambda>p. Option.bind (body p k) (\<lambda>k.
        Option.bind (load_next n (lists k)) (\<lambda>n'. list_for_each_safe head body n n' k))))"

definition for_each_safe :: "lnode option \<Rightarrow> (lnode \<Rightarrow> kernel \<Rightarrow> kernel option) \<Rightarrow> kernel \<Rightarrow> kernel option" where
  "for_each_safe head body k = do {
     pos \<leftarrow> load_next head (lists k);
     n \<leftarrow> load_next pos (lists k);
     list_for_each_safe head body pos n k }"

definition exit_thread_body :: "nat \<Rightarrow> lnode \<Rightarrow> kernel \<Rightarrow> kernel option" where
  "exit_thread_body master pos k = do {
     thread \<leftarrow> thread_list_entry pos;
     k \<leftarrow> Some (release_thread_stack thread k);
     k \<leftarrow> Some (task_update master (free_tid (TID (tasks k thread))) k);
     k \<leftarrow> on_lists (list_del (Some (Thread_list thread))) k;
     k \<leftarrow> (if status (tasks k thread) \<noteq> ST_RUN then on_lists (list_del (Some (Task_list thread))) k else Some k);
     on_lists (list_add_tail (Some (Task_list thread)) (Some Freequeue)) k }"

definition exit_child_body :: "lnode \<Rightarrow> kernel \<Rightarrow> kernel option" where
  "exit_child_body pos k = do {
     child \<leftarrow> child_list_entry pos;
     k \<leftarrow> on_lists (list_del (Some (Child_list child))) k;
     k \<leftarrow> Some (task_update child (parent_update (\<lambda>_. Some (idle_task k))) k);
     on_lists (list_add_tail (Some (Child_list child)) (Some (Children (idle_task k)))) k }"

definition exit_free_pages :: "nat \<Rightarrow> mm_state \<Rightarrow> mm_state" where
  "exit_free_pages PT m =
     fold (\<lambda>page m. del_ss_pag PT (PAG_LOG_INIT_DATA + page)
             (free_frame (get_frame PT (PAG_LOG_INIT_DATA + page) m) m)) [0..<NUM_PAG_DATA] m"

definition sys_exit :: "kernel \<Rightarrow> kernel option" where
  "sys_exit k = do {
     cur \<leftarrow> current_task k;
     master \<leftarrow> Some (master_thread (tasks k cur));
     e \<leftarrow> list_empty (Some (Threads master)) (lists k);
     k \<leftarrow> (if \<not> e then for_each_safe (Some (Threads master)) (exit_thread_body master) k else Some k);
     k \<leftarrow> for_each_safe (Some (Children cur)) exit_child_body k;
     k \<leftarrow> (if parent (tasks k cur) \<noteq> None then on_lists (list_del (Some (Child_list cur))) k else Some k);
     k \<leftarrow> Some (k\<lparr>mm := exit_free_pages (task_PT master k) (mm k)\<rparr>);
     k \<leftarrow> on_lists (list_add_tail (Some (Task_list master)) (Some Freequeue)) k;
     k \<leftarrow> Some (cleanup_kbd_handler cur k);
     sched_next_rr k }"

section \<open>Blocking\<close>

definition sys_block :: "kernel \<Rightarrow> (int \<times> kernel) option" where
  "sys_block k =
     (if in_keyboard_context k then Some (- EINPROGRESS, k) else do {
      cur \<leftarrow> current_task k;
      if pending_unblocks (tasks k cur) = 0 then do {
        k \<leftarrow> update_process_state_rr cur (Some Blockedqueue) k;
        k \<leftarrow> scheduler k;
        Some (0, k) }
      else Some (0, task_update cur (\<lambda>t. t\<lparr>pending_unblocks := pending_unblocks t - 1\<rparr>) k) })"

definition sys_waitfortick :: "kernel \<Rightarrow> (int \<times> kernel) option" where
  "sys_waitfortick k =
     (if in_keyboard_context k then Some (- EINPROGRESS, k) else do {
      cur \<leftarrow> current_task k;
      k \<leftarrow> update_process_state_rr cur (Some Tick_blockedqueue) k;
      k \<leftarrow> sched_next_rr k;
      Some (0, k) })"

text \<open>The search among the children stops at the first with the given identifier.\<close>

fun unblock_search :: "int \<Rightarrow> lnode list \<Rightarrow> kernel \<Rightarrow> (int \<times> kernel) option" where
  "unblock_search pid [] k = Some (- ESRCH, k)"
| "unblock_search pid (pos # rest) k = do {
     child \<leftarrow> child_list_entry pos;
     if PID (tasks k child) = pid then
       if status (tasks k child) = ST_BLOCKED then do {
         k \<leftarrow> update_process_state_rr child (Some Readyqueue) k;
         Some (0, k) }
       else Some (0, task_update child (\<lambda>t. t\<lparr>pending_unblocks := pending_unblocks t + 1\<rparr>) k)
     else unblock_search pid rest k }"

definition sys_unblock :: "int \<Rightarrow> kernel \<Rightarrow> (int \<times> kernel) option" where
  "sys_unblock pid k =
     (if in_keyboard_context k then Some (- EINPROGRESS, k) else do {
      cur \<leftarrow> current_task k;
      ps \<leftarrow> list_for_each (Some (Children cur)) (lists k);
      unblock_search pid ps k })"

section \<open>Threads\<close>

definition thread_init_fields :: "nat \<Rightarrow> nat \<Rightarrow> int \<Rightarrow> kernel \<Rightarrow> kernel option" where
  "thread_init_fields master new_thread new_tid k = do {
     k \<leftarrow> Some (task_update new_thread (dir_pages_baseAddr_update (\<lambda>_. dir_pages_baseAddr (tasks k master))) k);
     k \<leftarrow> on_lists (INIT_LIST_HEAD (Some (Task_list new_thread))) k;
     k \<leftarrow> on_lists (INIT_LIST_HEAD (Some (Children new_thread))) k;
     k \<leftarrow> on_lists (INIT_LIST_HEAD (Some (Child_list new_thread))) k;
     k \<leftarrow> on_lists (INIT_LIST_HEAD (Some (Threads new_thread))) k;
     k \<leftarrow> on_lists (INIT_LIST_HEAD (Some (Thread_list new_thread))) k;
     Some (task_update new_thread (\<lambda>t. init_keyboard_fields (t\<lparr>PID := PID (tasks k master), TID := new_tid,
       parent := Some master, master_thread := master, quantum := DEFAULT_QUANTUM, status := ST_READY,
       pending_unblocks := 0, user_stack_ptr := NULL, user_stack_frames := 0,
       user_stack_region_start := 0, user_stack_region_pages := 0, user_initial_esp := 0, user_entry := 0\<rparr>)) k) }"

text \<open>The first words of the new stack are written through a temporary mapping.\<close>

definition thread_stack_setup :: "nat \<Rightarrow> nat \<Rightarrow> nat \<Rightarrow> u32 \<Rightarrow> u32 \<Rightarrow> kernel \<Rightarrow> kernel option" where
  "thread_stack_setup cur master first_mapped_page function_ptr parameter k = do {
     current_PT \<leftarrow> Some (task_PT cur k);
     process_PT \<leftarrow> Some (task_PT master k);
     m \<leftarrow> Some (fold (\<lambda>i m. set_ss_pag current_PT (TEMP_STACK_MAPPING_PAGE + i)
            (get_frame process_PT (first_mapped_page + i) m) m) [0..<THREAD_STACK_INITIAL_PAGES] (mm k));
     m \<leftarrow> store_word TEMP_STACK_MAPPING_PAGE 1023 parameter m;
     m \<leftarrow> store_word TEMP_STACK_MAPPING_PAGE 1022 function_ptr m;
     m \<leftarrow> store_word TEMP_STACK_MAPPING_PAGE 1021 0 m;
     m \<leftarrow> Some (fold (\<lambda>i m. del_ss_pag current_PT (TEMP_STACK_MAPPING_PAGE + i) m) [0..<THREAD_STACK_INITIAL_PAGES] m);
     k \<leftarrow> Some (k\<lparr>mm := set_cr3 (get_DIR cur k) m\<rparr>);
     Some (k\<lparr>mm := set_cr3 (get_DIR master k) (mm k)\<rparr>) }"

definition thread_start :: "nat \<Rightarrow> nat \<Rightarrow> nat \<Rightarrow> nat \<Rightarrow> u32 \<Rightarrow> u32 \<Rightarrow> kernel \<Rightarrow> kernel option" where
  "thread_start master new_thread region_start first_mapped_page user_esp wrapper k = do {
     k \<leftarrow> Some (task_update new_thread (\<lambda>t. t\<lparr>user_stack_region_start := region_start,
            user_stack_region_pages := THREAD_STACK_REGION_PAGES,
            user_stack_frames := int THREAD_STACK_INITIAL_PAGES,
            user_stack_ptr := page_addr first_mapped_page, user_initial_esp := user_esp,
            user_entry := wrapper\<rparr>) k);
     k \<leftarrow> Some (stack_set new_thread STACK_USER_EIP wrapper k);
     k \<leftarrow> Some (stack_set new_thread STACK_USER_ESP user_esp k);
     k \<leftarrow> Some (stack_set new_thread STACK_EAX 0 k);
     k \<leftarrow> Some (stack_set new_thread STACK_EBP 0 k);
     k \<leftarrow> Some (stack_set new_thread STACK_FAKE_EBP 0 k);
     k \<leftarrow> Some (stack_set new_thread STACK_RET_ADDR (sym_ret_from_fork k) k);
     k \<leftarrow> Some (task_update new_thread (kernel_esp_update (\<lambda>_. stack_addr k new_thread STACK_FAKE_EBP)) k);
     k \<leftarrow> Some (task_update master (\<lambda>t. t\<lparr>thread_count := thread_count t + 1\<rparr>) k);
     k \<leftarrow> on_lists (list_add_tail (Some (Thread_list new_thread)) (Some (Threads master))) k;
     on_lists (list_add_tail (Some (Task_list new_thread)) (Some Readyqueue)) k }"

text \<open>The exits after the control block has been taken: it goes back to the free queue.\<close>

definition thread_fail :: "int \<Rightarrow> nat \<Rightarrow> kernel \<Rightarrow> (int \<times> kernel) option" where
  "thread_fail e new_thread k = do {
     k \<leftarrow> on_lists (list_add_tail (Some (Task_list new_thread)) (Some Freequeue)) k;
     Some (e, k) }"

definition sys_create_thread :: "u32 \<Rightarrow> u32 \<Rightarrow> u32 \<Rightarrow> kernel \<Rightarrow> (int \<times> kernel) option" where
  "sys_create_thread function_ptr parameter wrapper k =
     (if in_keyboard_context k then Some (- EINPROGRESS, k)
      else if function_ptr = NULL then Some (- EINVAL, k)
      else if wrapper = NULL then Some (- EINVAL, k)
      else if \<not> access_ok 0 function_ptr 4 then Some (- EFAULT, k)
      else if \<not> access_ok 0 wrapper 4 then Some (- EFAULT, k)
      else if parameter \<noteq> NULL \<and> \<not> access_ok 0 parameter 4 then Some (- EFAULT, k)
      else do {
      e \<leftarrow> list_empty (Some Freequeue) (lists k);
      if e then Some (- ENOMEM, k) else do {
      free_node \<leftarrow> list_first (Some Freequeue) (lists k);
      k \<leftarrow> on_lists (list_del free_node) k;
      new_thread \<leftarrow> list_head_to_task_struct free_node;
      cur \<leftarrow> current_task k;
      k \<leftarrow> Some (copy_task_union cur new_thread k);
      master \<leftarrow> Some (master_thread (tasks k cur));
      (new_tid, mt) \<leftarrow> Some (allocate_tid (tasks k master));
      k \<leftarrow> Some (task_update master (\<lambda>_. mt) k);
      if new_tid < 0 then thread_fail (- ENOMEM) new_thread k else do {
      k \<leftarrow> thread_init_fields master new_thread new_tid k;
      region_start \<leftarrow> find_free_stack_region master k;
      if region_start < 0 then
        thread_fail (- ENOMEM) new_thread (task_update master (free_tid new_tid) k) else do {
      region_end \<leftarrow> Some (nat region_start + THREAD_STACK_REGION_PAGES);
      first_mapped_page \<leftarrow> Some (region_end - THREAD_STACK_INITIAL_PAGES);
      (map_result, k) \<leftarrow> Some (map_stack_pages master first_mapped_page THREAD_STACK_INITIAL_PAGES k);
      if map_result < 0 then
        thread_fail map_result new_thread (task_update master (free_tid new_tid) k) else do {
      user_esp \<leftarrow> Some (page_addr region_end - 12);
      k \<leftarrow> thread_stack_setup cur master first_mapped_page function_ptr parameter k;
      k \<leftarrow> thread_start master new_thread (nat region_start) first_mapped_page user_esp wrapper k;
      Some (TID (tasks k new_thread), k) } } } } })"

text \<open>The hand-over of a process whose first thread ends before the others.\<close>

fun first_other :: "nat \<Rightarrow> lnode list \<Rightarrow> nat option option" where
  "first_other master [] = Some None"
| "first_other master (pos # rest) = do {
     candidate \<leftarrow> thread_list_entry pos;
     if candidate \<noteq> master then Some (Some candidate) else first_other master rest }"

definition handover_body :: "nat \<Rightarrow> nat \<Rightarrow> lnode \<Rightarrow> kernel \<Rightarrow> kernel option" where
  "handover_body master new_master pos k = do {
     t \<leftarrow> thread_list_entry pos;
     if t = master then Some k else do {
       k \<leftarrow> Some (task_update t (master_thread_update (\<lambda>_. new_master)) k);
       k \<leftarrow> on_lists (list_del (Some (Thread_list t))) k;
       on_lists (list_add_tail (Some (Thread_list t)) (Some (Threads new_master))) k } }"

definition thread_handover :: "nat \<Rightarrow> nat \<Rightarrow> kernel \<Rightarrow> kernel option" where
  "thread_handover master new_master k = do {
     k \<leftarrow> Some (task_update new_master (\<lambda>t. t\<lparr>master_thread := new_master,
            thread_count := thread_count (tasks k master)\<rparr>) k);
     k \<leftarrow> Some (task_update new_master (tid_slots_update
            (fold (\<lambda>i s. s[i := tid_slots (tasks k master) ! i]) [0..<MAX_TIDS_PER_PROCESS])) k);
     k \<leftarrow> Some (task_update new_master (free_tid (TID (tasks k master))) k);
     k \<leftarrow> on_lists (list_del (Some (Thread_list new_master))) k;
     k \<leftarrow> on_lists (INIT_LIST_HEAD (Some (Threads new_master))) k;
     for_each_safe (Some (Threads master)) (handover_body master new_master) k }"

definition sys_exit_thread :: "kernel \<Rightarrow> kernel option" where
  "sys_exit_thread k = do {
     thread \<leftarrow> current_task k;
     master \<leftarrow> Some (master_thread (tasks k thread));
     if thread_count (tasks k master) = 1 then sys_exit k else do {
     k \<leftarrow> Some (release_thread_stack thread k);
     k \<leftarrow> Some (task_update master (free_tid (TID (tasks k thread))) k);
     k \<leftarrow> Some (task_update master (\<lambda>t. t\<lparr>thread_count := thread_count t - 1\<rparr>) k);
     k \<leftarrow> on_lists (list_del (Some (Thread_list thread))) k;
     if thread \<noteq> master then do {
       k \<leftarrow> on_lists (list_add_tail (Some (Task_list thread)) (Some Freequeue)) k;
       sched_next_rr k }
     else do {
       ps \<leftarrow> list_for_each (Some (Threads master)) (lists k);
       new_master \<leftarrow> first_other master ps;
       case new_master of
         None \<Rightarrow> sys_exit k
       | Some new_master \<Rightarrow> do {
           k \<leftarrow> thread_handover master new_master k;
           k \<leftarrow> on_lists (list_add_tail (Some (Task_list master)) (Some Freequeue)) k;
           sched_next_rr k } } } }"

section \<open>Keyboard events\<close>

definition sys_keyboard_event :: "u32 \<Rightarrow> u32 \<Rightarrow> kernel \<Rightarrow> (int \<times> kernel) option" where
  "sys_keyboard_event func wrapper k =
     (if in_keyboard_context k then Some (- EINPROGRESS, k) else do {
      task \<leftarrow> current_task k;
      if func = NULL then Some (0, cleanup_kbd_handler task k)
      else if \<not> access_ok 0 func 4 then Some (- EFAULT, k)
      else if \<not> access_ok 0 wrapper 4 then Some (- EFAULT, k)
      else
        let (r, k) = setup_kbd_aux_stack task k in
        if r < 0 then Some (r, k)
        else Some (0, task_update task (\<lambda>t. t\<lparr>kbd_handler := func, kbd_wrapper := wrapper, in_kbd_context := 0\<rparr>) k) })"

end
