(* ===== verification/Zeos_Libc.thy ===== *)
theory Zeos_Libc
  imports Zeos_Utils
begin

text \<open>
  The output routines of the user library, \<open>project/libc.c\<close>. The system call \<open>write\<close> is
  their only effect: a routine returns the calls it makes, as pairs of a file descriptor and
  the bytes. A C string is the list of its bytes up to the terminator. Reading a variadic
  argument that was not passed, or of another type, is undefined in C and is \<open>None\<close> here.
\<close>

section \<open>Formatted output\<close>

abbreviation (input) PRINTF_BUFFER_SIZE :: nat where "PRINTF_BUFFER_SIZE \<equiv> 256"

datatype va_arg = Arg_int int | Arg_str "u8 list"

type_synonym writes = "(int \<times> u8 list) list"

text \<open>The inner loops: digits into \<open>num_buf\<close>, then bytes into the buffer while it has room.\<close>

function num_digits :: "u32 \<Rightarrow> u8 list \<Rightarrow> u8 list" where
  "num_digits uval num_buf =
     (if uval > 0 \<and> length num_buf < 15
      then num_digits (uval div 10) (num_buf @ [ucast (uval mod 10) + 48]) else num_buf)"
  by pat_completeness auto
termination
  by (relation "measure (\<lambda>(a, b). unat a)") (auto simp: unat_div word_less_nat_alt)

declare num_digits.simps [simp del]

fun put_all :: "u8 list \<Rightarrow> u8 list \<Rightarrow> u8 list" where
  "put_all [] buf = buf"
| "put_all (c # cs) buf =
     (if length buf < PRINTF_BUFFER_SIZE - 1 then put_all cs (buf @ [c]) else buf)"

definition put_unsigned :: "u32 \<Rightarrow> u8 list \<Rightarrow> u8 list" where
  "put_unsigned uval buf =
     put_all (rev (if uval = 0 then [48] else num_digits uval [])) buf"

definition put_signed :: "int \<Rightarrow> u8 list \<Rightarrow> u8 list" where
  "put_signed val buf =
     (let is_neg = (val < 0);
          uval = (if is_neg then - (of_int val :: u32) else of_int val);
          digits = (if uval = 0 then [48] else num_digits uval []);
          buf = (if is_neg \<and> length buf < PRINTF_BUFFER_SIZE - 1 then buf @ [45] else buf)
      in put_all (rev digits) buf)"

text \<open>One conversion: the character after \<open>%\<close>, with the remaining arguments.\<close>

definition format_conv :: "u8 \<Rightarrow> va_arg list \<Rightarrow> u8 list \<Rightarrow> (va_arg list \<times> u8 list) option" where
  "format_conv c args buf =
     (if c = 100 then
        (case args of Arg_int val # args \<Rightarrow> Some (args, put_signed val buf) | _ \<Rightarrow> None)
      else if c = 117 then
        (case args of Arg_int val # args \<Rightarrow> Some (args, put_unsigned (of_int val) buf) | _ \<Rightarrow> None)
      else if c = 115 then
        (case args of Arg_str str # args \<Rightarrow> Some (args, put_all str buf) | _ \<Rightarrow> None)
      else if c = 99 then
        (case args of Arg_int val # args \<Rightarrow> Some (args, buf @ [of_int val]) | _ \<Rightarrow> None)
      else if c = 37 then Some (args, buf @ [37])
      else Some (args, if length (buf @ [37]) < PRINTF_BUFFER_SIZE - 1
             then buf @ [37, c] else buf @ [37]))"

function format_loop :: "u8 list \<Rightarrow> va_arg list \<Rightarrow> u8 list \<Rightarrow> u8 list option" where
  "format_loop fmt args buf =
     (if fmt \<noteq> [] \<and> length buf < PRINTF_BUFFER_SIZE - 1 then
        if hd fmt = 37 \<and> tl fmt \<noteq> []
        then do {
          (args, buf) \<leftarrow> format_conv (hd (tl fmt)) args buf;
          format_loop (tl (tl fmt)) args buf }
        else format_loop (tl fmt) args (buf @ [hd fmt])
      else Some buf)"
  by pat_completeness auto
termination
  by (relation "measure (\<lambda>(fmt, args, buf). length fmt)") auto

declare format_loop.simps [simp del]

definition prints :: "u8 list \<Rightarrow> va_arg list \<Rightarrow> writes option" where
  "prints fmt args = do {
     buf \<leftarrow> format_loop fmt args [];
     Some (if length buf > 0 then [(1, buf)] else []) }"

definition printd :: "u8 list \<Rightarrow> va_arg list \<Rightarrow> writes option" where
  "printd fmt args = do {
     buf \<leftarrow> format_loop fmt args [];
     Some (if length buf > 0 then [(2, buf)] else []) }"

section \<open>Error messages and the screen buffer\<close>

definition ascii :: "string \<Rightarrow> u8 list" where
  "ascii s = map of_char s"

definition perror :: "int \<Rightarrow> u8 list \<Rightarrow> writes" where
  "perror errno buff =
     (if errno = 38 then [(1, ascii ''Syscall not implemented'' @ [10])]
      else if errno = 14 then [(1, ascii ''Bad address'' @ [10])]
      else if errno = 22 then [(1, ascii ''Invalid argument'' @ [10])]
      else if errno = 13 then [(1, ascii ''Permission denied'' @ [10])]
      else if errno = 9 then [(1, ascii ''Bad file number'' @ [10])]
      else [(1, ascii ''Message for error ''),
            (1, takeWhile (\<lambda>c. c \<noteq> 0) (itoa errno buff)),
            (1, ascii '' not found'' @ [10])])"

definition clear_screen_buffer :: "int \<Rightarrow> writes" where
  "clear_screen_buffer fd = [(fd, concat (map (\<lambda>_. [32, 0]) [0..<2000]))]"

section \<open>Lemmas\<close>

lemma length_put_all: "length buf \<le> 255 \<Longrightarrow> length (put_all cs buf) \<le> 255"
  by (induction cs buf rule: put_all.induct) auto

lemma put_all_room: "length buf + length cs \<le> 255 \<Longrightarrow> put_all cs buf = buf @ cs"
  by (induction cs buf rule: put_all.induct) auto

lemma length_put_signed: "length buf \<le> 255 \<Longrightarrow> length (put_signed v buf) \<le> 255"
  by (simp add: put_signed_def Let_def length_put_all)

lemma format_conv_bound:
  assumes "format_conv c args buf = Some (args', buf')" and "length buf < 255"
  shows "length buf' \<le> 255"
proof -
  have "length (put_signed v buf) \<le> 255" "length (put_unsigned u buf) \<le> 255"
    "length (put_all s buf) \<le> 255" for v u s
    using assms(2) by (simp_all add: length_put_signed put_unsigned_def length_put_all)
  with assms show ?thesis
    by (auto simp: format_conv_def split: if_splits list.splits va_arg.splits)
qed

lemma format_loop_bound:
  "format_loop fmt args buf = Some b \<Longrightarrow> length buf \<le> 255 \<Longrightarrow> length b \<le> 255"
proof (induction fmt args buf rule: format_loop.induct)
  case (1 fmt args buf)
  show ?case
  proof (cases "fmt \<noteq> [] \<and> length buf < 255")
    case False
    with 1(3,4) show ?thesis by (subst (asm) format_loop.simps) (auto split: if_splits)
  next
    case True
    show ?thesis
    proof (cases "hd fmt = 37 \<and> tl fmt \<noteq> []")
      case conv: True
      with True 1(3) obtain args' buf' where
        c: "format_conv (hd (tl fmt)) args buf = Some (args', buf')" "format_loop (tl (tl fmt)) args' buf' = Some b"
        by (subst (asm) format_loop.simps) (auto split: bind_splits)
      from 1(1) [of "(args', buf')" args' buf'] True conv c format_conv_bound [OF c(1)] show ?thesis by simp
    next
      case False
      with True 1(3) have "format_loop (tl fmt) args (buf @ [hd fmt]) = Some b"
        by (subst (asm) format_loop.simps) auto
      with 1(2) True False show ?thesis by simp
    qed
  qed
qed

lemma num_digits_spec:
  "length nb + length (ndigits (unat a)) \<le> 15 \<Longrightarrow> num_digits a nb = nb @ map dchar (ndigits (unat a))"
proof (induction a nb rule: num_digits.induct)
  case (1 a nb)
  show ?case
  proof (cases "a > 0")
    case False
    then have "a = 0" using word_gt_0 by blast
    then show ?thesis by (subst num_digits.simps) (simp add: ndigits.simps [of 0])
  next
    case True
    then have n: "ndigits (unat a) = unat a mod 10 # ndigits (unat (a div 10))"
      by (subst ndigits.simps) (simp add: unat_div unat_eq_zero)
    have "(of_nat (unat (a mod 10)) :: u8) = ucast (a mod 10)" by simp
    then have c: "ucast (a mod 10) + 48 = dchar (unat a mod 10)"
      by (simp only: dchar_def unat_mod unat_numeral) simp
    have "num_digits a nb = num_digits (a div 10) (nb @ [dchar (unat a mod 10)])"
      using True "1.prems" by (subst num_digits.simps) (simp add: c n)
    with "1.IH" True "1.prems" show ?thesis by (simp add: n c)
  qed
qed

lemma unat_minus_of_int: "- (2 ^ 31) \<le> v \<Longrightarrow> v < 0 \<Longrightarrow> unat (- (of_int v :: u32)) = nat (- v)"
proof -
  assume "- (2 ^ 31) \<le> v" "v < 0"
  have "- (of_int v :: u32) = of_int (- v)" by simp
  then have "uint (- (of_int v :: u32)) = take_bit 32 (- v)" by (simp only: unsigned_of_int) simp
  also have "\<dots> = - v" using \<open>- (2 ^ 31) \<le> v\<close> \<open>v < 0\<close> by (intro take_bit_int_eq_self) simp_all
  finally show ?thesis by (simp only: unat_eq_nat_uint)
qed

lemma unat_of_int_nonneg: "0 \<le> v \<Longrightarrow> v < 2 ^ 31 \<Longrightarrow> unat (of_int v :: u32) = nat v"
proof -
  assume "0 \<le> v" "v < 2 ^ 31"
  have "uint (of_int v :: u32) = take_bit 32 v" by (simp only: unsigned_of_int) simp
  also have "\<dots> = v" using \<open>0 \<le> v\<close> \<open>v < 2 ^ 31\<close> by (intro take_bit_int_eq_self) simp_all
  finally show ?thesis by (simp only: unat_eq_nat_uint)
qed

text \<open>The digits of one number, most significant first.\<close>

definition decimal :: "nat \<Rightarrow> u8 list" where
  "decimal n = (if n = 0 then [48] else rev (map dchar (ndigits n)))"

lemma dval_decimal: "dval (decimal n) = n"
  using dval_ndigits [of n] by (simp add: decimal_def) (simp add: dval_def)

lemma length_decimal: "n < 10 ^ 10 \<Longrightarrow> length (decimal n) \<le> 10"
  using length_ndigits [of n 10] by (simp add: decimal_def)

lemma digits_decimal: "rev (if u = 0 then [48] else num_digits u []) = decimal (unat u)"
proof -
  have "unat u < 2 ^ LENGTH(32)" by (rule unsigned_less)
  then have "length (ndigits (unat u)) \<le> 10" by (intro length_ndigits) simp
  then show ?thesis using num_digits_spec [of "[]" u] by (simp add: decimal_def unat_eq_zero)
qed

lemma put_signed_room:
  assumes "length buf \<le> 244" and "- (2 ^ 31) \<le> v" and "v < 2 ^ 31"
  shows "put_signed v buf = buf @ (if v < 0 then [45] else []) @ decimal (nat \<bar>v\<bar>)"
proof -
  have len: "length (decimal (nat \<bar>v\<bar>)) \<le> 10" using assms by (intro length_decimal) simp
  show ?thesis
  proof (cases "v < 0")
    case True
    then have "put_signed v buf = put_all (decimal (nat \<bar>v\<bar>)) (buf @ [45])"
      using assms unat_minus_of_int [of v] by (simp add: put_signed_def Let_def digits_decimal)
    with True len assms(1) show ?thesis by (simp add: put_all_room)
  next
    case False
    then have "put_signed v buf = put_all (decimal (nat \<bar>v\<bar>)) buf"
      using assms unat_of_int_nonneg [of v] by (simp add: put_signed_def Let_def digits_decimal)
    with False len assms(1) show ?thesis by (simp add: put_all_room)
  qed
qed

section \<open>Properties\<close>

text \<open>Property C28 (prints_within_buffer). Whatever the format and the arguments, the formatted
  print routines make at most one \<open>write\<close>, of at least one and at most 255 bytes: the 256-byte
  buffer is never overrun.\<close>

theorem prints_within_buffer:
  assumes "prints fmt args = Some ws \<or> printd fmt args = Some ws"
  shows "length ws \<le> 1 \<and> (\<forall>(fd, bytes) \<in> set ws. fd \<in> {1, 2} \<and> 1 \<le> length bytes \<and> length bytes < PRINTF_BUFFER_SIZE)"
proof -
  from assms obtain b where b: "format_loop fmt args [] = Some b"
      and "ws = (if length b > 0 then [(1, b)] else []) \<or> ws = (if length b > 0 then [(2, b)] else [])"
    by (auto simp: prints_def printd_def split: bind_splits)
  with format_loop_bound [OF b] show ?thesis by (auto simp: Suc_le_eq)
qed

theorem prints_within_buffer_witness:
  "\<exists>b. prints (ascii ''%s'') [Arg_str (replicate 300 65)] = Some [(1, b)] \<and> length b < PRINTF_BUFFER_SIZE"
proof -
  let ?b = "put_all (replicate 300 65) []"
  have "length buf \<le> length (put_all cs buf)" for cs buf by (induction cs buf rule: put_all.induct) auto
  then have "length [65 :: u8] \<le> length (put_all (replicate 299 65) [65])" .
  moreover have "replicate 300 (65 :: u8) = 65 # replicate 299 65" by (simp flip: replicate_Suc)
  then have "?b = put_all (replicate 299 65) [65]" by simp
  ultimately have ne: "?b \<noteq> []" by auto
  have "prints (ascii ''%s'') [Arg_str (replicate 300 65)] = Some [(1, ?b)]"
    using ne by (simp add: prints_def ascii_def format_loop.simps format_conv_def)
  with prints_within_buffer [of "ascii ''%s''" "[Arg_str (replicate 300 65)]"] show ?thesis by fastforce
qed



end
