(* ===== verification/Zeos_Console.thy ===== *)
theory Zeos_Console
  imports Zeos_Libc
begin

text \<open>
  The text console: \<open>project/io.c\<close>, \<open>project/devices.c\<close>, \<open>project/screen.c\<close> and the time and
  frame-rate display of \<open>project/kernel_helpers.c\<close>. Video memory is kept by bytes, a cell is
  a little-endian word; \<open>port_e9\<close> is the output of the debug port.
\<close>

section \<open>State\<close>

abbreviation (input) NUM_COLUMNS :: nat where "NUM_COLUMNS \<equiv> 80"
abbreviation (input) NUM_ROWS :: nat where "NUM_ROWS \<equiv> 25"
abbreviation (input) SCREEN_BUFFER_SIZE :: int where "SCREEN_BUFFER_SIZE \<equiv> 4000"

definition MAKE_COLOR :: "u16 \<Rightarrow> u16 \<Rightarrow> u16" where
  "MAKE_COLOR background text = push_bit 12 (background AND 15) OR push_bit 8 (text AND 15)"

abbreviation (input) DEFAULT_COLOR :: u16 where "DEFAULT_COLOR \<equiv> MAKE_COLOR 0 2"

record console =
  cur_x :: u8
  cur_y :: u8
  video :: "nat \<Rightarrow> u8"
  port_e9 :: "u8 list"

definition cell :: "console \<Rightarrow> nat \<Rightarrow> u16" where
  "cell s i = ucast (video s (2 * i)) OR push_bit 8 (ucast (video s (2 * i + 1)))"

definition set_cell :: "nat \<Rightarrow> u16 \<Rightarrow> console \<Rightarrow> console" where
  "set_cell i w s = s\<lparr>video := (video s)(2 * i := ucast w, 2 * i + 1 := ucast (drop_bit 8 w))\<rparr>"

section \<open>io.c\<close>

definition write_char_to_screen :: "u8 \<Rightarrow> u8 \<Rightarrow> u8 \<Rightarrow> u16 \<Rightarrow> console \<Rightarrow> console" where
  "write_char_to_screen x y c color s =
     set_cell (unat y * NUM_COLUMNS + unat x) (ucast c OR color) s"

definition blank :: u16 where
  "blank = 32 OR DEFAULT_COLOR"

definition scroll_screen :: "console \<Rightarrow> console" where
  "scroll_screen s =
     (let s = fold (\<lambda>i s. set_cell i (cell s (i + NUM_COLUMNS)) s)
                [0..<(NUM_ROWS - 1) * NUM_COLUMNS] s;
          s = fold (\<lambda>i s. set_cell i blank s)
                [(NUM_ROWS - 1) * NUM_COLUMNS..<NUM_ROWS * NUM_COLUMNS] s
      in s\<lparr>cur_y := of_nat (NUM_ROWS - 1)\<rparr>)"

definition handle_newline :: "console \<Rightarrow> console" where
  "handle_newline s =
     (let s = s\<lparr>cur_x := 0, cur_y := cur_y s + 1\<rparr>
      in if unat (cur_y s) \<ge> NUM_ROWS then scroll_screen s else s)"

definition printc :: "u8 \<Rightarrow> u16 \<Rightarrow> console \<Rightarrow> console" where
  "printc c color s =
     (let s = s\<lparr>port_e9 := port_e9 s @ [c]\<rparr> in
      if c = 10 then handle_newline s
      else
        let s = write_char_to_screen (cur_x s) (cur_y s) c color s;
            s = s\<lparr>cur_x := cur_x s + 1\<rparr>
        in if unat (cur_x s) \<ge> NUM_COLUMNS then handle_newline s else s)"

definition printc_xy :: "u8 \<Rightarrow> u8 \<Rightarrow> u8 \<Rightarrow> u16 \<Rightarrow> console \<Rightarrow> console" where
  "printc_xy mx my c color s =
     (printc c color (s\<lparr>cur_x := mx, cur_y := my\<rparr>))\<lparr>cur_x := cur_x s, cur_y := cur_y s\<rparr>"

definition printk_color :: "u8 list \<Rightarrow> u16 \<Rightarrow> console \<Rightarrow> console" where
  "printk_color string color s = fold (\<lambda>c. printc c color) string s"

definition printk :: "u8 list \<Rightarrow> console \<Rightarrow> console" where
  "printk string s = fold (\<lambda>c. printc c DEFAULT_COLOR) string s"

definition clear_screen :: "console \<Rightarrow> console" where
  "clear_screen s =
     (fold (\<lambda>i s. set_cell i blank s) [0..<NUM_ROWS * NUM_COLUMNS] s)\<lparr>cur_x := 0, cur_y := 0\<rparr>"

text \<open>The loop stops at the terminator or at the right margin.\<close>

fun print_string_loop :: "u8 \<Rightarrow> nat \<Rightarrow> nat \<Rightarrow> u8 list \<Rightarrow> u16 \<Rightarrow> console \<Rightarrow> console" where
  "print_string_loop px pos i [] color s = s"
| "print_string_loop px pos i (c # cs) color s =
     (if unat px + i < NUM_COLUMNS
      then print_string_loop px pos (i + 1) cs color (set_cell (pos + i) (ucast c OR color) s)
      else s)"

definition print_string_xy :: "u8 \<Rightarrow> u8 \<Rightarrow> u8 list \<Rightarrow> u16 \<Rightarrow> console \<Rightarrow> console" where
  "print_string_xy px py str color s =
     print_string_loop px (unat py * NUM_COLUMNS + unat px) 0 str color s"

text \<open>
  \<open>printk_color_fmt\<close>. The format is the array with its terminator: reading beyond the array
  is \<open>None\<close>, as is a missing argument.
\<close>

definition printk_conv :: "u8 \<Rightarrow> u16 \<Rightarrow> va_arg list \<Rightarrow> console \<Rightarrow> (va_arg list \<times> console) option" where
  "printk_conv c color args s =
     (if c = 100 then
        (case args of
           Arg_int num # args \<Rightarrow>
             let s = (if num < 0 then printc 45 color s else s);
                 unum = (if num < 0 then - (of_int num :: u32) else of_int num)
             in Some (args, printk_color (takeWhile (\<lambda>c. c \<noteq> 0) (utoa unum (replicate 32 0))) color s)
         | _ \<Rightarrow> None)
      else if c = 120 then
        (case args of
           Arg_int num # args \<Rightarrow>
             Some (args, printk_color
               (takeWhile (\<lambda>c. c \<noteq> 0) (itoa_hex (of_int num) (replicate 32 0))) color s)
         | _ \<Rightarrow> None)
      else if c = 115 then
        (case args of Arg_str str # args \<Rightarrow> Some (args, printk_color str color s) | _ \<Rightarrow> None)
      else if c = 99 then
        (case args of Arg_int num # args \<Rightarrow> Some (args, printc (of_int num) color s) | _ \<Rightarrow> None)
      else if c = 37 then Some (args, printc 37 color s)
      else Some (args, printc c color (printc 37 color s)))"

fun printk_color_fmt :: "u16 \<Rightarrow> u8 list \<Rightarrow> va_arg list \<Rightarrow> console \<Rightarrow> console option" where
  "printk_color_fmt color [] args s = None"
| "printk_color_fmt color (c # fmt) args s =
     (if c = 0 then Some s
      else if c \<noteq> 37 then printk_color_fmt color fmt args (printc c color s)
      else case fmt of
        [] \<Rightarrow> None
      | d # fmt' \<Rightarrow> do {
          (args, s) \<leftarrow> printk_conv d color args s;
          printk_color_fmt color fmt' args s })"

section \<open>devices.c and screen.c\<close>

definition sys_write_console :: "u8 list \<Rightarrow> console \<Rightarrow> int \<times> console" where
  "sys_write_console buffer s =
     (int (length buffer), fold (\<lambda>c. printc c DEFAULT_COLOR) buffer s)"

definition sys_write_debug :: "u8 list \<Rightarrow> console \<Rightarrow> int \<times> console" where
  "sys_write_debug buffer s =
     (int (length buffer), fold (\<lambda>c s. s\<lparr>port_e9 := port_e9 s @ [c]\<rparr>) buffer s)"

text \<open>Time display and frame counters: the static data of \<open>kernel_helpers.c\<close>, the tick
  counter of \<open>interrupt.c\<close> and \<open>frame_count\<close> of \<open>screen.c\<close>.\<close>

record display =
  zeos_ticks :: int
  frame_count :: int
  last_fps_update_tick :: int
  last_frame_count :: int
  current_fps :: int
  cached_time :: "u8 list"
  cached_fps :: "u8 list"

abbreviation (input) TICKS_PER_SECOND :: int where "TICKS_PER_SECOND \<equiv> 320"
abbreviation (input) FPS_UPDATE_INTERVAL :: int where "FPS_UPDATE_INTERVAL \<equiv> 1000"

definition digit_char :: "int \<Rightarrow> u8" where
  "digit_char d = of_int (48 + d)"

definition format_time :: "int \<Rightarrow> u8 list" where
  "format_time total_ticks =
     (let total_seconds = cdiv total_ticks TICKS_PER_SECOND;
          seconds = cmod total_seconds 10000;
          remaining_ticks = cmod total_ticks TICKS_PER_SECOND;
          milliseconds = cdiv (remaining_ticks * 1000) TICKS_PER_SECOND
      in [digit_char (cmod (cdiv seconds 1000) 10), digit_char (cmod (cdiv seconds 100) 10),
          digit_char (cmod (cdiv seconds 10) 10), digit_char (cmod seconds 10), 58,
          digit_char (cdiv milliseconds 100), digit_char (cmod (cdiv milliseconds 10) 10),
          digit_char (cmod milliseconds 10), 0])"

definition format_fps :: "int \<Rightarrow> u8 list" where
  "format_fps cur =
     (let fps = (if cur > 99999 then 99999 else cur)
      in [if fps \<ge> 10000 then digit_char (cdiv fps 10000) else 32,
          if fps \<ge> 1000 then digit_char (cmod (cdiv fps 1000) 10) else 32,
          if fps \<ge> 100 then digit_char (cmod (cdiv fps 100) 10) else 32,
          if fps \<ge> 10 then digit_char (cmod (cdiv fps 10) 10) else 32,
          digit_char (cmod fps 10), 32, 70, 80, 83, 0])"

definition update_time_and_fps :: "display \<Rightarrow> display" where
  "update_time_and_fps d =
     (let d = d\<lparr>cached_time := format_time (zeos_ticks d)\<rparr>;
          d = (if zeos_ticks d - last_fps_update_tick d \<ge> FPS_UPDATE_INTERVAL
               then d\<lparr>current_fps := frame_count d - last_frame_count d,
                      last_frame_count := frame_count d,
                      last_fps_update_tick := zeos_ticks d\<rparr>
               else d)
      in d\<lparr>cached_fps := format_fps (current_fps d)\<rparr>)"

definition draw_time_and_fps :: "display \<Rightarrow> console \<Rightarrow> console" where
  "draw_time_and_fps d s =
     (let s = print_string_xy 0 0 (takeWhile (\<lambda>c. c \<noteq> 0) (cached_time d)) (MAKE_COLOR 0 11) s
      in print_string_xy 71 0 (takeWhile (\<lambda>c. c \<noteq> 0) (cached_fps d)) (MAKE_COLOR 0 14) s)"

text \<open>The copy of a frame: whole double words by \<open>rep movsl\<close>, then the rest byte by byte.\<close>

definition sys_write_screen :: "u8 list \<Rightarrow> int \<Rightarrow> display \<Rightarrow> console \<Rightarrow> int \<times> display \<times> console" where
  "sys_write_screen buffer sz d s =
     (let sz = (if sz > SCREEN_BUFFER_SIZE then SCREEN_BUFFER_SIZE else sz);
          dwords = nat (cdiv sz 4);
          remaining = nat (cmod sz 4);
          v = fold (\<lambda>i v. v(4 * i := buffer ! (4 * i), 4 * i + 1 := buffer ! (4 * i + 1),
                            4 * i + 2 := buffer ! (4 * i + 2), 4 * i + 3 := buffer ! (4 * i + 3)))
                [0..<dwords] (video s);
          v = fold (\<lambda>i v. v(dwords * 4 + i := buffer ! (dwords * 4 + i))) [0..<remaining] v;
          d = d\<lparr>frame_count := frame_count d + 1\<rparr>
      in (sz, d, draw_time_and_fps d (s\<lparr>video := v\<rparr>)))"

text \<open>The alternative selected by \<open>SCREEN_METHOD_WORD_LOOP\<close>. A \<open>char\<close> is signed, so its
  conversion to a \<open>Word\<close> extends the sign.\<close>

definition sys_write_screen_words :: "u8 list \<Rightarrow> int \<Rightarrow> display \<Rightarrow> console \<Rightarrow> int \<times> display \<times> console" where
  "sys_write_screen_words buffer sz d s =
     (let sz = (if sz > SCREEN_BUFFER_SIZE then SCREEN_BUFFER_SIZE else sz);
          words = nat (cdiv sz 2);
          s = fold (\<lambda>i s. set_cell i (scast (buffer ! (i * 2)) OR push_bit 8 (scast (buffer ! (i * 2 + 1)))) s)
                [0..<words] s;
          d = d\<lparr>frame_count := frame_count d + 1\<rparr>
      in (sz, d, draw_time_and_fps d s))"

section \<open>Lemmas\<close>

lemma word_of_bytes: "(ucast (ucast w :: u8) :: u16) OR push_bit 8 (ucast (ucast (drop_bit 8 w) :: u8)) = w"
proof (rule bit_word_eqI)
  fix n assume "n < LENGTH(16)"
  then show "bit ((ucast (ucast w :: u8) :: u16) OR push_bit 8 (ucast (ucast (drop_bit 8 w) :: u8))) n = bit w n"
    by (auto simp: bit_simps)
qed

lemma cell_set_cell [simp]: "cell (set_cell i w s) j = (if j = i then w else cell s j)"
proof (cases "j = i")
  case True
  then show ?thesis by (simp add: cell_def set_cell_def word_of_bytes)
next
  case False
  then have "2 * j \<noteq> 2 * i" "2 * j \<noteq> 2 * i + 1" "2 * j + 1 \<noteq> 2 * i" "2 * j + 1 \<noteq> 2 * i + 1" by presburger+
  with False show ?thesis by (simp add: cell_def set_cell_def)
qed

lemma set_cell_simps [simp]:
  "cur_x (set_cell i w s) = cur_x s" "cur_y (set_cell i w s) = cur_y s"
  "port_e9 (set_cell i w s) = port_e9 s"
  by (simp_all add: set_cell_def)

lemma cell_cursor [simp]:
  "cell (s\<lparr>cur_x := x\<rparr>) i = cell s i" "cell (s\<lparr>cur_y := y\<rparr>) i = cell s i"
  "cell (s\<lparr>port_e9 := p\<rparr>) i = cell s i"
  by (simp_all add: cell_def)

lemma scroll_copy:
  "cell (fold (\<lambda>i s. set_cell i (cell s (i + 80)) s) [0..<n] s) j = (if j < n then cell s (j + 80) else cell s j)"
  by (induction n arbitrary: j) auto

lemma fill_cells:
  "cell (fold (\<lambda>i s. set_cell i w s) [a..<b] s) j = (if a \<le> j \<and> j < b then w else cell s j)"
  by (induction b arbitrary: j) auto

lemma cell_scroll_screen:
  "cell (scroll_screen s) j =
     (if j < 1920 then cell s (j + 80) else if j < 2000 then blank else cell s j)"
  by (simp add: scroll_screen_def Let_def fill_cells scroll_copy)

lemma fold_set_cell_cursor:
  "cur_x (fold (\<lambda>i s. set_cell i (f i s) s) xs s) = cur_x s"
  "cur_y (fold (\<lambda>i s. set_cell i (f i s) s) xs s) = cur_y s"
  "port_e9 (fold (\<lambda>i s. set_cell i (f i s) s) xs s) = port_e9 s"
  by (induction xs arbitrary: s) simp_all

lemma scroll_screen_cursor [simp]:
  "cur_x (scroll_screen s) = cur_x s" "cur_y (scroll_screen s) = 24"
  "port_e9 (scroll_screen s) = port_e9 s"
  by (simp_all add: scroll_screen_def Let_def fold_set_cell_cursor)

text \<open>The cursor stays on the screen.\<close>

definition console_wf :: "console \<Rightarrow> bool" where
  "console_wf s \<longleftrightarrow> unat (cur_x s) < NUM_COLUMNS \<and> unat (cur_y s) < NUM_ROWS"

lemma unat_inc: "unat (w :: u8) < 255 \<Longrightarrow> unat (w + 1) = unat w + 1"
  by (simp add: unat_word_ariths)

lemma handle_newline_eq:
  assumes "unat (cur_y s) < NUM_ROWS"
  shows "handle_newline s =
    (if unat (cur_y s) = 24 then scroll_screen (s\<lparr>cur_x := 0, cur_y := 25\<rparr>)
     else s\<lparr>cur_x := 0, cur_y := cur_y s + 1\<rparr>)"
proof -
  have u: "unat (cur_y s + 1) = unat (cur_y s) + 1" using assms by (intro unat_inc) simp
  have "cur_y s + 1 = 25" if "unat (cur_y s) = 24"
    using u that by (intro word_unat_eq_iff [THEN iffD2]) simp
  then show ?thesis using assms u by (auto simp: handle_newline_def Let_def)
qed

lemma console_wf_handle_newline:
  "console_wf s \<Longrightarrow> console_wf (handle_newline s)"
  using unat_inc [of "cur_y s"] by (auto simp: console_wf_def handle_newline_eq)

lemma console_wf_printc: "console_wf s \<Longrightarrow> console_wf (printc c color s)"
proof -
  assume wf: "console_wf s"
  let ?s = "write_char_to_screen (cur_x s) (cur_y s) c color (s\<lparr>port_e9 := port_e9 s @ [c]\<rparr>)"
  have x: "unat (cur_x s + 1) = unat (cur_x s) + 1" using wf by (intro unat_inc) (simp add: console_wf_def)
  have y: "unat (cur_y ?s) < NUM_ROWS" using wf by (simp add: console_wf_def write_char_to_screen_def)
  have "console_wf (handle_newline t)" if "unat (cur_y t) < NUM_ROWS" for t
    using that unat_inc [of "cur_y t"] by (auto simp: console_wf_def handle_newline_eq)
  then show ?thesis
    using wf x y by (auto simp: printc_def Let_def console_wf_def write_char_to_screen_def)
qed

lemma cell_printc_off_screen:
  assumes "console_wf s" and "2000 \<le> j"
  shows "cell (printc c color s) j = cell s j"
proof -
  have "unat (cur_y s) * 80 + unat (cur_x s) \<noteq> j" using assms by (auto simp: console_wf_def)
  moreover have "cell (handle_newline t) j = cell t j" if "unat (cur_y t) < NUM_ROWS" for t
    using that assms(2) by (simp add: handle_newline_eq cell_scroll_screen)
  ultimately show ?thesis
    using assms by (auto simp: printc_def Let_def write_char_to_screen_def console_wf_def)
qed

lemma port_e9_handle_newline [simp]: "port_e9 (handle_newline s) = port_e9 s"
  by (simp add: handle_newline_def Let_def)

lemma port_e9_printc: "port_e9 (printc c color s) = port_e9 s @ [c]"
  by (simp add: printc_def Let_def write_char_to_screen_def)

lemma cell_print_string_loop:
  "cell (print_string_loop px pos i str color s) j =
     (if pos + i \<le> j \<and> j < pos + i + length str \<and> unat px + (j - pos) < NUM_COLUMNS
      then ucast (str ! (j - pos - i)) OR color else cell s j)"
proof (induction str arbitrary: i s)
  case (Cons c cs)
  show ?case
  proof (cases "unat px + i < NUM_COLUMNS")
    case True
    then show ?thesis using Cons.IH [of "i + 1"] by (auto simp: nth_Cons' split: if_splits)
  next
    case False
    then show ?thesis by auto
  qed
qed auto

lemma fold_bytes:
  "fold (\<lambda>i v. v(a + i := f (a + i))) [0..<n] v x = (if a \<le> x \<and> x < a + n then f x else v x)"
  by (induction n) auto

lemma fold_dwords:
  "fold (\<lambda>i v. v(4 * i := f (4 * i), 4 * i + 1 := f (4 * i + 1), 4 * i + 2 := f (4 * i + 2),
      4 * i + 3 := f (4 * i + 3))) [0..<n] v (x :: nat) = (if x < 4 * n then f x else v x)"
proof (induction n)
  case (Suc n)
  have "x < 4 * Suc n \<longleftrightarrow> x < 4 * n \<or> x = 4 * n \<or> x = 4 * n + 1 \<or> x = 4 * n + 2 \<or> x = 4 * n + 3"
    by auto
  with Suc show ?case by auto
qed simp

text \<open>The frame after the copy and before the overlay.\<close>

lemma sys_write_screen_eq:
  assumes "0 \<le> sz"
  shows "sys_write_screen buffer sz d s =
    (min sz 4000, d\<lparr>frame_count := frame_count d + 1\<rparr>,
     draw_time_and_fps (d\<lparr>frame_count := frame_count d + 1\<rparr>)
       (s\<lparr>video := \<lambda>x. if x < nat (min sz 4000) then buffer ! x else video s x\<rparr>))"
proof -
  define z where "z = min sz 4000"
  have z: "(if sz > 4000 then 4000 else sz) = z" "0 \<le> z" using assms by (simp_all add: z_def)
  then have n: "4 * nat (z div 4) + nat (z mod 4) = nat z" by (simp add: nat_div_distrib nat_mod_distrib)
  have "fold (\<lambda>i v. v(nat (z div 4) * 4 + i := buffer ! (nat (z div 4) * 4 + i))) [0..<nat (z mod 4)]
      (fold (\<lambda>i v. v(4 * i := buffer ! (4 * i), 4 * i + 1 := buffer ! (4 * i + 1),
         4 * i + 2 := buffer ! (4 * i + 2), 4 * i + 3 := buffer ! (4 * i + 3))) [0..<nat (z div 4)] (video s)) =
    (\<lambda>x. if x < nat z then buffer ! x else video s x)"
    by (rule ext, unfold fold_bytes fold_dwords) (use n in auto)
  then show ?thesis
    unfolding sys_write_screen_def z(1) Let_def by (simp add: z(2) z_def [symmetric])
qed

lemma cell_draw_time_and_fps:
  assumes "80 \<le> j"
  shows "cell (draw_time_and_fps d s) j = cell s j"
  using assms by (simp add: draw_time_and_fps_def Let_def print_string_xy_def cell_print_string_loop)

lemma digit_char_int: "d < 10 \<Longrightarrow> unat (digit_char (int d)) - 48 = d"
proof -
  assume "d < 10"
  have "digit_char (int d) = dchar d" by (simp add: digit_char_def dchar_def)
  with \<open>d < 10\<close> show ?thesis by (simp add: unat_dchar)
qed

lemma dval_int_digits: "list_all (\<lambda>d. d < 10) ds \<Longrightarrow> dval (map (digit_char \<circ> int) ds) = foldl (\<lambda>v d. 10 * v + d) 0 ds"
  by (induction ds rule: rev_induct) (simp_all add: digit_char_int, simp add: dval_def)

lemma three_digits: "n < 1000 \<Longrightarrow>
  dval [digit_char (int n div 100), digit_char (int n div 10 mod 10), digit_char (int n mod 10)] = n"
proof -
  assume n: "n < 1000"
  have q: "n div 100 = n div 10 div 10" by (simp add: div_mult2_eq [symmetric])
  have "dval (map (digit_char \<circ> int) [n div 100, n div 10 mod 10, n mod 10]) = 10 * (10 * (n div 10 div 10) + n div 10 mod 10) + n mod 10"
    using n by (subst dval_int_digits) (auto simp: q)
  also have "\<dots> = n" by simp
  finally show ?thesis by (simp add: zdiv_int zmod_int)
qed

lemma four_digits: "n < 10000 \<Longrightarrow>
  dval [digit_char (int n div 1000 mod 10), digit_char (int n div 100 mod 10), digit_char (int n div 10 mod 10), digit_char (int n mod 10)] = n"
proof -
  assume n: "n < 10000"
  have q: "n div 100 = n div 10 div 10" "n div 1000 = n div 10 div 10 div 10" by (simp_all only: div_mult2_eq [symmetric]) simp_all
  have "n div 1000 < 10" using n by simp
  then have m: "n div 1000 mod 10 = n div 1000" by simp
  have la: "list_all (\<lambda>d. d < 10) [n div 1000, n div 100 mod 10, n div 10 mod 10, n mod 10]"
    unfolding list.pred_inject using \<open>n div 1000 < 10\<close> by (intro conjI TrueI mod_less_divisor) simp_all
  have "dval (map (digit_char \<circ> int) [n div 1000 mod 10, n div 100 mod 10, n div 10 mod 10, n mod 10]) =
      10 * (10 * (10 * (n div 1000) + n div 100 mod 10) + n div 10 mod 10) + n mod 10"
    unfolding m dval_int_digits [OF la] by (simp only: foldl.simps mult_0_right add_0)
  also have "\<dots> = n" unfolding q by (simp only: mult_div_mod_eq)
  finally show ?thesis by (simp only: list.map o_apply zdiv_int zmod_int of_nat_numeral)
qed

lemma set_cells_video:
  "video (fold (\<lambda>i s. set_cell i (f i) s) [0..<n] s) x =
     (if x < 2 * n then if even x then ucast (f (x div 2)) else ucast (drop_bit 8 (f (x div 2))) else video s x)"
proof (induction n)
  case (Suc n)
  have "x < 2 * Suc n \<longleftrightarrow> x < 2 * n \<or> x = 2 * n \<or> x = 2 * n + 1" by auto
  with Suc show ?case by (auto simp: set_cell_def)
qed simp

lemma scast_small: "(b :: u8) < 128 \<Longrightarrow> (scast b :: u16) = ucast b"
proof -
  assume "b < 128"
  then have "take_bit 7 b = b" by (simp add: take_bit_eq_mod word_unat_eq_iff unat_mod word_less_nat_alt)
  then have "\<not> bit b n" if "7 \<le> n" for n using that bit_take_bit_iff [of 7 b n] by simp
  then show ?thesis by (intro bit_word_eqI) (auto simp: bit_simps min_def)
qed

lemma bytes_of_word:
  assumes "(b :: u8) < 128"
  shows "ucast ((scast b :: u16) OR push_bit 8 (scast c)) = b"
    and "ucast (drop_bit 8 ((scast b :: u16) OR push_bit 8 (scast (c :: u8)))) = c"
  unfolding scast_small [OF assms]
  by (rule bit_word_eqI; auto simp: bit_simps dest: bit_imp_le_length)+

lemma video_of_cell: "video t (2 * j) = ucast (cell t j)" "video t (2 * j + 1) = ucast (drop_bit 8 (cell t j))"
  unfolding cell_def by (rule bit_word_eqI; auto simp: bit_simps dest: bit_imp_le_length)+

lemma set_cells_console:
  "fold (\<lambda>i s. set_cell i (f i) s) [0..<n] s = s\<lparr>video := \<lambda>x. if x < 2 * n then
     if even x then ucast (f (x div 2)) else ucast (drop_bit 8 (f (x div 2))) else video s x\<rparr>"
proof -
  have "fold (\<lambda>i s. set_cell i (f i) s) xs s = s\<lparr>video := video (fold (\<lambda>i s. set_cell i (f i) s) xs s)\<rparr>" for xs
    using fold_set_cell_cursor [of "\<lambda>i _. f i" xs s] by (simp add: console.equality)
  then show ?thesis unfolding set_cells_video [symmetric, abs_def] by blast
qed

lemma sys_write_screen_words_eq:
  assumes "0 \<le> sz" and "nat (min sz 4000) \<le> length buffer"
  shows "even sz \<and> (\<forall>i. 2 * i < length buffer \<longrightarrow> buffer ! (2 * i) < 128) \<longrightarrow>
      sys_write_screen_words buffer sz d s = sys_write_screen buffer sz d s"
proof
  assume ev: "even sz \<and> (\<forall>i. 2 * i < length buffer \<longrightarrow> buffer ! (2 * i) < 128)"
  define z where "z = min sz 4000"
  have z: "(if sz > 4000 then 4000 else sz) = z" "0 \<le> z" "even z" "nat z \<le> length buffer"
    using assms ev by (simp_all add: z_def min_def)
  let ?f = "\<lambda>i. scast (buffer ! (i * 2)) OR push_bit 8 (scast (buffer ! (i * 2 + 1))) :: u16"
  have n: "2 * nat (z div 2) = nat z" using z(2,3) by (auto elim!: evenE)
  have "(if x < nat z then if even x then ucast (?f (x div 2)) else ucast (drop_bit 8 (?f (x div 2))) else video s x) =
      (if x < nat z then buffer ! x else video s x)" for x
  proof (cases "x < nat z")
    case True
    then have "2 * (x div 2) < length buffer" using z(4) by linarith
    then have "buffer ! (x div 2 * 2) < 128" using ev by (simp only: mult.commute [of _ 2])
    moreover have "odd x \<Longrightarrow> x div 2 * 2 + 1 = x" by presburger
    ultimately show ?thesis using bytes_of_word [of "buffer ! (x div 2 * 2)" "buffer ! (x div 2 * 2 + 1)"] True
      by (cases "even x") (simp_all del: drop_bit_or)
  qed simp
  then have "fold (\<lambda>i s. set_cell i (?f i) s) [0..<nat (z div 2)] s =
      s\<lparr>video := \<lambda>x. if x < nat z then buffer ! x else video s x\<rparr>"
    unfolding set_cells_console n by presburger
  then show "sys_write_screen_words buffer sz d s = sys_write_screen buffer sz d s"
    unfolding sys_write_screen_eq [OF assms(1)] z_def [symmetric] sys_write_screen_words_def z(1) Let_def
    by (simp add: z(2))
qed

text \<open>A frame arrives in video memory below the status row.\<close>

lemma sys_write_screen_video:
  assumes "0 \<le> sz" and r: "sys_write_screen buffer sz d s = (r, d', s')"
  shows "r = min sz 4000" "d' = d\<lparr>frame_count := frame_count d + 1\<rparr>"
    "80 \<le> j \<Longrightarrow> cell s' j = cell (s\<lparr>video := \<lambda>x. if x < nat (min sz 4000) then buffer ! x else video s x\<rparr>) j"
    "80 \<le> j \<Longrightarrow> 2 * j + 1 < nat r \<Longrightarrow> video s' (2 * j) = buffer ! (2 * j) \<and> video s' (2 * j + 1) = buffer ! (2 * j + 1)"
proof -
  let ?s = "s\<lparr>video := \<lambda>x. if x < nat (min sz 4000) then buffer ! x else video s x\<rparr>"
  show eq: "r = min sz 4000" "d' = d\<lparr>frame_count := frame_count d + 1\<rparr>"
    using trans [OF r [symmetric] sys_write_screen_eq [OF assms(1)]] by blast+
  have s': "s' = draw_time_and_fps d' ?s"
    using trans [OF r [symmetric] sys_write_screen_eq [OF assms(1)]] by blast
  show c: "cell s' j = cell ?s j" if "80 \<le> j" for j using that unfolding s' by (rule cell_draw_time_and_fps)
  show "video s' (2 * j) = buffer ! (2 * j) \<and> video s' (2 * j + 1) = buffer ! (2 * j + 1)" if "80 \<le> j" "2 * j + 1 < nat r" for j
  proof -
    have "video s' (2 * j) = video ?s (2 * j)" "video s' (2 * j + 1) = video ?s (2 * j + 1)"
      using c [OF that(1)] video_of_cell [of s' j] video_of_cell [of ?s j] by simp_all
    then show ?thesis using that(2) unfolding eq(1) by simp
  qed
qed

section \<open>Properties\<close>

text \<open>Property C30 (console_write_safe). Writing any bytes to the console, control characters and
  long lines included, leaves the cursor on the 80 by 25 screen, changes no video memory
  beyond it and sends every byte to the debug port, and returns the number of bytes.\<close>

theorem console_write_safe:
  assumes "console_wf s"
  shows "fst (sys_write_console buffer s) = int (length buffer) \<and>
    console_wf (snd (sys_write_console buffer s)) \<and>
    (\<forall>j. 2000 \<le> j \<longrightarrow> cell (snd (sys_write_console buffer s)) j = cell s j) \<and>
    port_e9 (snd (sys_write_console buffer s)) = port_e9 s @ buffer"
  using assms unfolding sys_write_console_def
  by (induction buffer arbitrary: s) (auto simp: console_wf_printc cell_printc_off_screen port_e9_printc)

theorem console_write_safe_witness:
  "console_wf (snd (sys_write_console (replicate 90 65) \<lparr>cur_x = 0, cur_y = 24, video = (\<lambda>_. 0), port_e9 = []\<rparr>))"
  using console_write_safe [of "\<lparr>cur_x = 0, cur_y = 24, video = (\<lambda>_. 0), port_e9 = []\<rparr>" "replicate 90 65"]
  by (simp add: console_wf_def)

text \<open>Property C31 (newline_scrolls). On the last row a newline moves every row up by one, blanks the
  last and stays there; on any other row it only moves the cursor to the next row.\<close>

theorem newline_scrolls:
  assumes "console_wf s"
  shows "cur_x (printc 10 color s) = 0 \<and>
    (if unat (cur_y s) = 24
     then cur_y (printc 10 color s) = 24 \<and>
       (\<forall>row < 25. \<forall>col < 80. cell (printc 10 color s) (row * 80 + col) =
          (if row = 24 then blank else cell s ((row + 1) * 80 + col)))
     else cur_y (printc 10 color s) = cur_y s + 1 \<and> video (printc 10 color s) = video s)"
proof -
  have y: "unat (cur_y (s\<lparr>port_e9 := port_e9 s @ [10]\<rparr>)) < NUM_ROWS" using assms by (simp add: console_wf_def)
  have r: "row * 80 + col < 1920 \<longleftrightarrow> row \<noteq> 24" "80 + row * 80 + col = row * 80 + col + 80" "row * 80 + col < 2000"
    if "row < 25" "col < 80" for row col :: nat using that by auto
  show ?thesis
    unfolding printc_def Let_def using handle_newline_eq [OF y]
    by (auto simp: cell_scroll_screen r)
qed

theorem newline_scrolls_witness:
  "let s = \<lparr>cur_x = 7, cur_y = 24, video = (\<lambda>i. of_nat (i div 160)), port_e9 = []\<rparr>
   in cur_y (printc 10 0 s) = 24 \<and> cell (printc 10 0 s) (24 * 80 + 3) = blank"
proof -
  let ?s = "\<lparr>cur_x = 7, cur_y = 24, video = (\<lambda>i. of_nat (i div 160)), port_e9 = []\<rparr>"
  have w: "console_wf ?s" by (simp add: console_wf_def)
  have y: "cur_y (printc 10 0 ?s) = 24" and c: "\<forall>row < 25. \<forall>col < 80. cell (printc 10 0 ?s) (row * 80 + col) =
      (if row = 24 then blank else cell ?s ((row + 1) * 80 + col))"
    using newline_scrolls [OF w, of 0] by simp_all
  have "cell (printc 10 0 ?s) (24 * 80 + 3) = blank" using c [rule_format, of 24 3] by simp
  with y show ?thesis unfolding Let_def by blast
qed



text \<open>Property C33 (screen_write_frame). A frame written to the screen device arrives in video memory
  byte for byte below the status row, is cut at 4000 bytes and changes nothing beyond; the
  word-by-word variant of the copy writes the same screen when the size is even and every
  character is in the lower half of the code page.\<close>

theorem screen_write_frame:
  assumes "0 \<le> sz" and "nat (min sz 4000) \<le> length buffer"
    and r: "sys_write_screen buffer sz d s = (r, d', s')"
  shows "r = min sz 4000 \<and> frame_count d' = frame_count d + 1 \<and>
    (\<forall>j. 80 \<le> j \<and> 2 * j + 1 < nat r \<longrightarrow> video s' (2 * j) = buffer ! (2 * j) \<and> video s' (2 * j + 1) = buffer ! (2 * j + 1)) \<and>
    (\<forall>j. 2000 \<le> j \<longrightarrow> cell s' j = cell s j) \<and>
    (even sz \<and> (\<forall>i. 2 * i < length buffer \<longrightarrow> buffer ! (2 * i) < 128) \<longrightarrow>
      sys_write_screen_words buffer sz d s = sys_write_screen buffer sz d s)"
proof -
  note w = sys_write_screen_video [OF assms(1) r]
  have "cell s' j = cell s j" if "2000 \<le> j" for j
  proof -
    have "\<not> 2 * j < nat (min sz 4000)" "\<not> 2 * j + 1 < nat (min sz 4000)" using that by linarith+
    then show ?thesis using w(3) [of j] that by (simp add: cell_def)
  qed
  moreover note sys_write_screen_words_eq [OF assms(1,2)]
  ultimately show ?thesis using w(1,2,4) by simp
qed

theorem screen_write_frame_witness:
  "let d = \<lparr>zeos_ticks = 0, frame_count = 6, last_fps_update_tick = 0, last_frame_count = 0, current_fps = 0,
       cached_time = [0], cached_fps = [0]\<rparr>;
       s = \<lparr>cur_x = 0, cur_y = 0, video = (\<lambda>_. 0), port_e9 = []\<rparr>
   in frame_count (fst (snd (sys_write_screen (replicate 4000 65) 5000 d s))) = 7 \<and>
      fst (sys_write_screen (replicate 4000 65) 5000 d s) = 4000"
proof -
  let ?d = "\<lparr>zeos_ticks = 0, frame_count = 6, last_fps_update_tick = 0, last_frame_count = 0, current_fps = 0,
       cached_time = [0], cached_fps = [0]\<rparr>"
  let ?s = "\<lparr>cur_x = 0, cur_y = 0, video = (\<lambda>_. 0), port_e9 = []\<rparr> :: console"
  obtain r d' s' where r: "sys_write_screen (replicate 4000 65) 5000 ?d ?s = (r, d', s')" by (rule prod_cases3)
  from screen_write_frame [OF _ _ this] have "r = 4000" "frame_count d' = 7" by simp_all
  then show ?thesis unfolding Let_def r by simp
qed

end
