(* ===== verification/Zeos_System.thy ===== *)
theory Zeos_System
  imports Zeos_Syscalls Zeos_Console
begin

text \<open>
  The parts that join the kernel and its devices: \<open>sys_write\<close> and \<open>sys_gettime\<close> of
  \<open>project/sys.c\<close>, the interrupt routines and the descriptor table of \<open>project/interrupt.c\<close>,
  and the system call table. The byte contents of user memory and of \<open>buffer_k\<close> are one
  memory of bytes; page faults while reading a checked user buffer are not modelled here.
\<close>

section \<open>The machine\<close>

record machine =
  kern :: kernel
  con :: console
  disp :: display
  mem :: memory
  buffer_k :: u32

abbreviation (input) SYS_BUFFER_SIZE :: int where "SYS_BUFFER_SIZE \<equiv> 256"

definition mem_bytes :: "u32 \<Rightarrow> int \<Rightarrow> memory \<Rightarrow> u8 list" where
  "mem_bytes a n m = map (\<lambda>i. m (a + of_nat i)) [0..<nat n]"

section \<open>write and gettime\<close>

text \<open>The loop copies through \<open>buffer_k\<close>, one buffer at a time. \<open>dev\<close> is the device routine.\<close>

function write_loop ::
  "(u8 list \<Rightarrow> console \<Rightarrow> int \<times> console) \<Rightarrow> u32 \<Rightarrow> int \<Rightarrow> machine \<Rightarrow> u32 \<times> int \<times> machine" where
  "write_loop dev buffer bytes_left s =
     (if bytes_left > SYS_BUFFER_SIZE then
        let s = s\<lparr>mem := snd (copy_from_user buffer (buffer_k s) SYS_BUFFER_SIZE (mem s))\<rparr>;
            (_, c) = dev (mem_bytes (buffer_k s) SYS_BUFFER_SIZE (mem s)) (con s)
        in write_loop dev (buffer + of_int SYS_BUFFER_SIZE) (bytes_left - SYS_BUFFER_SIZE) (s\<lparr>con := c\<rparr>)
      else (buffer, bytes_left, s))"
  by pat_completeness auto
termination
  by (relation "measure (\<lambda>(dev, buffer, n, s). nat n)") auto

declare write_loop.simps [simp del]

definition write_chunks ::
  "(u8 list \<Rightarrow> console \<Rightarrow> int \<times> console) \<Rightarrow> u32 \<Rightarrow> int \<Rightarrow> machine \<Rightarrow> int \<times> machine" where
  "write_chunks dev buffer sz s =
     (let (buffer, bytes_left, s) = write_loop dev buffer sz s in
      if bytes_left > 0 then
        let s = s\<lparr>mem := snd (copy_from_user buffer (buffer_k s) bytes_left (mem s))\<rparr>;
            (written_bytes, c) = dev (mem_bytes (buffer_k s) bytes_left (mem s)) (con s)
        in (sz - (bytes_left - written_bytes), s\<lparr>con := c\<rparr>)
      else (sz - bytes_left, s))"

definition sys_write :: "int \<Rightarrow> u32 \<Rightarrow> int \<Rightarrow> machine \<Rightarrow> int \<times> machine" where
  "sys_write fd buffer sz s =
     (if sz < 0 then (- EINVAL, s) else
      let r = check_fd fd O_WRONLY in
      if r \<noteq> 0 then (r, s)
      else if \<not> access_ok 0 buffer (of_int sz) then (- EFAULT, s)
      else if in_keyboard_context (kern s) then (- EINPROGRESS, s)
      else if fd = FD_SCREEN then
        let (r, d, c) = sys_write_screen (mem_bytes buffer sz (mem s)) sz (disp s) (con s)
        in (r, s\<lparr>disp := d, con := c\<rparr>)
      else if fd = FD_DEBUG then write_chunks sys_write_debug buffer sz s
      else write_chunks sys_write_console buffer sz s)"

definition sys_gettime :: "machine \<Rightarrow> int" where
  "sys_gettime s = zeos_ticks (disp s)"

section \<open>Interrupt routines\<close>

definition char_map :: "u8 list" where
  "char_map = ascii [CHR 0x00, CHR 0x00] @ ascii ''1234567890'' @ [39, 0, 0, 0] @ ascii ''qwertyuiop`+'' @ [0, 0] @
     ascii ''asdfghjkl'' @ [0, 0, 0, 0, 0] @ ascii ''zxcvbnm,.-'' @ [0, 42] @ replicate 15 0 @
     ascii ''789-456+1230'' @ [0, 0, 0] @ ascii ''<'' @ replicate 11 0"

text \<open>A scancode beyond the table reads past the array, \<open>None\<close>.\<close>

definition keyboard_routine :: "u8 \<Rightarrow> console \<Rightarrow> console option" where
  "keyboard_routine key s =
     (if key AND 0x80 = 0 then
        let i = unat (key AND 0x7F) in
        if i < length char_map then
          let pressedKey = (if char_map ! i = 0 then 67 else char_map ! i)
          in Some (printc_xy 0 0 pressedKey (MAKE_COLOR 0 9) s)
        else None
      else Some s)"

definition clock_routine :: "machine \<Rightarrow> machine option" where
  "clock_routine s = do {
     s \<leftarrow> Some (s\<lparr>disp := (disp s)\<lparr>zeos_ticks := zeos_ticks (disp s) + 1\<rparr>\<rparr>);
     s \<leftarrow> Some (s\<lparr>disp := update_time_and_fps (disp s)\<rparr>);
     s \<leftarrow> Some (s\<lparr>con := draw_time_and_fps (disp s) (con s)\<rparr>);
     k \<leftarrow> scheduler (kern s);
     Some (s\<lparr>kern := k\<rparr>) }"

abbreviation (input) ERROR_COLOR :: u16 where "ERROR_COLOR \<equiv> MAKE_COLOR 0 12"
abbreviation (input) WARNING_COLOR :: u16 where "WARNING_COLOR \<equiv> MAKE_COLOR 0 14"
abbreviation (input) INFO_COLOR :: u16 where "INFO_COLOR \<equiv> MAKE_COLOR 0 9"
abbreviation (input) WHITE_COLOR :: u16 where "WHITE_COLOR \<equiv> MAKE_COLOR 0 15"

definition page_fault_report :: "u32 \<Rightarrow> u32 \<Rightarrow> console \<Rightarrow> console" where
  "page_fault_report fault_eip fault_addr s =
     (let bar = ascii ''==============================================='';
          s = printk_color ([10] @ bar @ [10]) ERROR_COLOR s;
          s = printk_color (ascii ''           PAGE FAULT EXCEPTION               '' @ [10]) ERROR_COLOR s;
          s = printk_color (bar @ [10]) ERROR_COLOR s;
          s = printk_color ([10] @ ascii ''  Fault at EIP:   '') WARNING_COLOR s;
          s = printk_color (takeWhile (\<lambda>c. c \<noteq> 0) (itoa_hex fault_eip (replicate 11 0))) WHITE_COLOR s;
          s = printk_color ([10] @ ascii ''  Address:        '') WARNING_COLOR s;
          s = printk_color (takeWhile (\<lambda>c. c \<noteq> 0) (itoa_hex fault_addr (replicate 11 0))) WHITE_COLOR s;
          s = printk_color ([10, 10] @ ascii ''  The process accessed an invalid region'' @ [10]) INFO_COLOR s;
          s = printk_color (ascii ''  and will be terminated.'' @ [10]) INFO_COLOR s
      in printk_color (bar @ [10]) ERROR_COLOR s)"

text \<open>\<open>sys_exit\<close> switches to another task and never comes back, so the final loop of the routine
  is not reached.\<close>

definition pageFault_routine :: "u32 \<Rightarrow> u32 \<Rightarrow> machine \<Rightarrow> machine option" where
  "pageFault_routine fault_eip fault_addr s =
     (let (r, k) = grow_user_stack fault_addr (kern s);
          s = s\<lparr>kern := k\<rparr> in
      if r = 0 then Some s else do {
        s \<leftarrow> Some (s\<lparr>con := page_fault_report fault_eip fault_addr (con s)\<rparr>);
        k \<leftarrow> sys_exit (kern s);
        Some (s\<lparr>kern := k\<rparr>) })"

section \<open>The descriptor table\<close>

record gate =
  lowOffset :: u16
  segmentSelector :: u16
  flags :: u16
  highOffset :: u16

type_synonym idt = "nat \<Rightarrow> gate"

abbreviation (input) IDT_ENTRIES :: nat where "IDT_ENTRIES \<equiv> 256"

definition lowWord :: "u32 \<Rightarrow> u16" where
  "lowWord address = ucast (address AND 0xFFFF)"

definition highWord :: "u32 \<Rightarrow> u16" where
  "highWord address = ucast (drop_bit 16 address AND 0xFFFF)"

definition setInterruptHandler :: "nat \<Rightarrow> u32 \<Rightarrow> u16 \<Rightarrow> idt \<Rightarrow> idt" where
  "setInterruptHandler vector handler maxAccessibleFromPL t =
     (let flgs = push_bit 13 maxAccessibleFromPL OR 0x8E00
      in t(vector := \<lparr>lowOffset = lowWord handler, segmentSelector = 0x10, flags = flgs,
             highOffset = highWord handler\<rparr>))"

definition setTrapHandler :: "nat \<Rightarrow> u32 \<Rightarrow> u16 \<Rightarrow> idt \<Rightarrow> idt" where
  "setTrapHandler vector handler maxAccessibleFromPL t =
     (let flgs = push_bit 13 maxAccessibleFromPL OR 0x8E00
      in t(vector := \<lparr>lowOffset = lowWord handler, segmentSelector = 0x10, flags = flgs,
             highOffset = highWord handler\<rparr>))"

text \<open>The entry points are addresses of the linker; \<open>set_handlers\<close> is the routine of the
  precompiled library that fills the other vectors.\<close>

record entry_points =
  clock_handler :: u32
  keyboard_handler :: u32
  pageFault_handler :: u32
  kbd_irq_entry :: u32
  kbd_resume_entry :: u32
  syscall_handler_sysenter :: u32

record cpu_tables =
  idt_table :: idt
  msr_174 :: u32
  msr_175_esp :: u32
  msr_176 :: u32

definition setIdt :: "(idt \<Rightarrow> idt) \<Rightarrow> entry_points \<Rightarrow> kernel \<Rightarrow> cpu_tables \<Rightarrow> cpu_tables" where
  "setIdt set_handlers e k c =
     (let t = set_handlers (idt_table c);
          t = setInterruptHandler 32 (clock_handler e) 0 t;
          t = setInterruptHandler 33 (keyboard_handler e) 0 t;
          t = setInterruptHandler 14 (pageFault_handler e) 0 t;
          t = setInterruptHandler 0x21 (kbd_irq_entry e) 0 t;
          t = setTrapHandler 0x2b (kbd_resume_entry e) 3 t
      in \<lparr>idt_table = t, msr_174 = 0x10, msr_175_esp = KERNEL_ESP k 1, msr_176 = syscall_handler_sysenter e\<rparr>)"

section \<open>The system call table\<close>

text \<open>The routine a call number selects, \<open>None\<close> beyond the table. The arguments are the saved
  registers \<open>ebx\<close>, \<open>ecx\<close> and \<open>edx\<close>. A call without a result leaves an unspecified value in
  \<open>eax\<close>, here 0.\<close>

definition on_kern :: "(kernel \<Rightarrow> (int \<times> kernel) option) \<Rightarrow> machine \<Rightarrow> (int \<times> machine) option" where
  "on_kern f s = do { (r, k) \<leftarrow> f (kern s); Some (r, s\<lparr>kern := k\<rparr>) }"

definition on_kern_void :: "(kernel \<Rightarrow> kernel option) \<Rightarrow> machine \<Rightarrow> (int \<times> machine) option" where
  "on_kern_void f s = do { k \<leftarrow> f (kern s); Some (0, s\<lparr>kern := k\<rparr>) }"

definition sys_call :: "int \<Rightarrow> u32 \<Rightarrow> u32 \<Rightarrow> u32 \<Rightarrow> machine \<Rightarrow> (int \<times> machine) option" where
  "sys_call n a b c s =
     (if n = 1 then on_kern_void sys_exit s
      else if n = 2 then on_kern sys_fork s
      else if n = 4 then Some (sys_write (sint a) b (sint c) s)
      else if n = 5 then on_kern_void sys_exit_thread s
      else if n = 6 then on_kern (sys_create_thread a b c) s
      else if n = 10 then Some (sys_gettime s, s)
      else if n = 12 then on_kern sys_block s
      else if n = 13 then on_kern (sys_unblock (sint a)) s
      else if n = 20 then on_kern sys_getpid s
      else if n = 21 then on_kern sys_gettid s
      else if n = 22 then on_kern (sys_keyboard_event a b) s
      else if n = 23 then on_kern sys_waitfortick s
      else on_kern sys_ni_syscall s)"

section \<open>Character devices\<close>

text \<open>What \<open>sys_write\<close> relies on: a device takes every byte, and writing a text in pieces is
  writing it at once.\<close>

locale char_device =
  fixes dev :: "u8 list \<Rightarrow> console \<Rightarrow> int \<times> console"
  assumes dev_length: "fst (dev xs c) = int (length xs)"
    and dev_nil: "snd (dev [] c) = c"
    and dev_append: "snd (dev (xs @ ys) c) = snd (dev ys (snd (dev xs c)))"

interpretation console_dev: char_device sys_write_console
  by unfold_locales (simp_all add: sys_write_console_def)

interpretation debug_dev: char_device sys_write_debug
  by unfold_locales (simp_all add: sys_write_debug_def)

text \<open>The bytes of a block that avoids \<open>buffer_k\<close>.\<close>

definition outside :: "u32 \<Rightarrow> u32 \<Rightarrow> nat \<Rightarrow> bool" where
  "outside bk b n \<longleftrightarrow> (\<forall>i < n. 256 \<le> unat (b + of_nat i - bk))"

lemma length_mem_bytes [simp]: "length (mem_bytes a n m) = nat n"
  by (simp add: mem_bytes_def)

lemma mem_bytes_split:
  assumes "0 \<le> i" and "0 \<le> j"
  shows "mem_bytes a (i + j) m = mem_bytes a i m @ mem_bytes (a + of_int i) j m"
proof (rule nth_equalityI)
  fix x assume "x < length (mem_bytes a (i + j) m)"
  moreover have "of_int i = (of_nat (nat i) :: u32)" using assms(1) by simp
  ultimately show "mem_bytes a (i + j) m ! x = (mem_bytes a i m @ mem_bytes (a + of_int i) j m) ! x"
    using assms by (auto simp: mem_bytes_def nth_append add.assoc simp flip: of_nat_add)
qed (use assms in simp)

lemma outside_shift: "outside bk b (nat (i + j)) \<Longrightarrow> 0 \<le> i \<Longrightarrow> 0 \<le> j \<Longrightarrow> outside bk (b + of_int i) (nat j)"
proof -
  assume o: "outside bk b (nat (i + j))" and ij: "0 \<le> i" "0 \<le> j"
  have "256 \<le> unat (b + of_int i + of_nat x - bk)" if "x < nat j" for x
  proof -
    have "nat i + x < nat (i + j)" using that ij by linarith
    then have "256 \<le> unat (b + of_nat (nat i + x) - bk)" using o unfolding outside_def by blast
    then show ?thesis using ij by (simp add: add.assoc)
  qed
  then show ?thesis by (simp add: outside_def)
qed

lemma outside_less: "outside bk b n \<Longrightarrow> l \<le> n \<Longrightarrow> outside bk b l"
  by (simp add: outside_def)

text \<open>One pass through the kernel buffer: it then holds the user's bytes, which are unchanged.\<close>

lemma copy_to_kernel_buffer:
  fixes m
  assumes o: "outside bk b (nat n)" and n: "0 \<le> n" "n \<le> 256"
  defines "m' \<equiv> snd (copy_from_user b bk n m)"
  shows "mem_bytes bk n m' = mem_bytes b n m" and "256 \<le> unat (a - bk) \<Longrightarrow> m' a = m a"
proof -
  have d: "disjoint_blocks b bk (nat n)"
    unfolding disjoint_blocks_def
  proof (intro allI impI)
    fix i j assume "i < nat n" "j < nat n"
    then have "unat (b + of_nat i - bk) \<ge> 256" "j < 256" using o n by (simp_all add: outside_def)
    moreover from this(2) have "unat (of_nat j :: u32) = j" by (simp add: unat_of_nat)
    ultimately show "b + of_nat i \<noteq> bk + of_nat j" by (metis add_diff_cancel_left' not_le)
  qed
  have "copy_from_user b bk (int (nat n)) m = (0, \<lambda>a. if unat (a - bk) < nat n then m (b + (a - bk)) else m a)"
    using n by (intro copy_from_user_eq [OF d]) simp
  then have m': "m' = (\<lambda>a. if unat (a - bk) < nat n then m (b + (a - bk)) else m a)"
    using n(1) by (simp add: m'_def)
  have "unat (of_nat i :: u32) = i" if "i < nat n" for i using that n by (simp add: unat_of_nat)
  then show "mem_bytes bk n m' = mem_bytes b n m" by (simp add: mem_bytes_def m')
  show "256 \<le> unat (a - bk) \<Longrightarrow> m' a = m a" using n by (auto simp: m')
qed

context char_device
begin

lemma write_loop_spec:
  assumes "0 \<le> n" and "outside (buffer_k s) b (nat n)" and "write_loop dev b n s = (b', left, s')"
  shows "0 \<le> left \<and> left \<le> 256 \<and> outside (buffer_k s) b' (nat left) \<and>
    kern s' = kern s \<and> disp s' = disp s \<and> buffer_k s' = buffer_k s \<and>
    (\<forall>a. 256 \<le> unat (a - buffer_k s) \<longrightarrow> mem s' a = mem s a) \<and>
    (\<exists>xs. mem_bytes b n (mem s) = xs @ mem_bytes b' left (mem s) \<and> con s' = snd (dev xs (con s)))"
  using assms
proof (induction "nat n" arbitrary: b n s rule: less_induct)
  case less
  show ?case
  proof (cases "256 < n")
    case False
    then have "b' = b" "left = n" "s' = s" using less.prems(3) by (simp_all add: write_loop.simps [of dev b n s])
    moreover have "mem_bytes b n (mem s) = [] @ mem_bytes b n (mem s)" by simp
    ultimately show ?thesis using less.prems False dev_nil by (metis not_less)
  next
    case True
    define m where "m = snd (copy_from_user b (buffer_k s) 256 (mem s))"
    define s2 where "s2 = s\<lparr>mem := m, con := snd (dev (mem_bytes b 256 (mem s)) (con s))\<rparr>"
    have o: "outside (buffer_k s) b (nat (256 + (n - 256)))" using less.prems(2) by simp
    have o1: "outside (buffer_k s) b (nat 256)" using outside_less [OF less.prems(2)] True by simp
    have o2: "outside (buffer_k s) (b + of_int 256) (nat (n - 256))" using outside_shift [OF o] True by simp
    have c: "mem_bytes (buffer_k s) 256 m = mem_bytes b 256 (mem s)" "256 \<le> unat (a - buffer_k s) \<Longrightarrow> m a = mem s a" for a
      using copy_to_kernel_buffer [OF o1, where m = "mem s"] by (simp_all add: m_def)
    have w: "write_loop dev b n s = write_loop dev (b + of_int 256) (n - 256) s2"
      using True by (subst write_loop.simps) (simp add: Let_def m_def [symmetric] c(1) s2_def split: prod.splits)
    have IH: "0 \<le> left \<and> left \<le> 256 \<and> outside (buffer_k s2) b' (nat left) \<and>
        kern s' = kern s2 \<and> disp s' = disp s2 \<and> buffer_k s' = buffer_k s2 \<and>
        (\<forall>a. 256 \<le> unat (a - buffer_k s2) \<longrightarrow> mem s' a = mem s2 a) \<and>
        (\<exists>xs. mem_bytes (b + of_int 256) (n - 256) (mem s2) = xs @ mem_bytes b' left (mem s2) \<and> con s' = snd (dev xs (con s2)))"
      using less.hyps [of "n - 256" s2 "b + of_int 256"] True o2 less.prems(3) w by (simp add: s2_def)
    have user: "mem_bytes x j m = mem_bytes x j (mem s)" if "outside (buffer_k s) x (nat j)" for x j
      using that c(2) by (simp add: mem_bytes_def outside_def)
    have s2: "mem s2 = m" "buffer_k s2 = buffer_k s" "kern s2 = kern s" "disp s2 = disp s"
      "con s2 = snd (dev (mem_bytes b 256 (mem s)) (con s))" by (simp_all add: s2_def)
    from IH obtain xs where xs: "mem_bytes (b + of_int 256) (n - 256) m = xs @ mem_bytes b' left m"
        "con s' = snd (dev xs (con s2))" "outside (buffer_k s) b' (nat left)" unfolding s2 by blast
    have "mem_bytes b n (mem s) = (mem_bytes b 256 (mem s) @ xs) @ mem_bytes b' left (mem s)"
      using mem_bytes_split [of 256 "n - 256" b "mem s"] True xs(1) user [OF o2] user [OF xs(3)] by simp
    moreover have "con s' = snd (dev (mem_bytes b 256 (mem s) @ xs) (con s))"
      using xs(2) by (simp add: s2 dev_append)
    ultimately show ?thesis using IH c(2) unfolding s2 by metis
  qed
qed

lemma write_chunks_spec:
  assumes "0 \<le> n" and "outside (buffer_k s) b (nat n)" and w: "write_chunks dev b n s = (r, s')"
  shows "r = n" and "con s' = snd (dev (mem_bytes b n (mem s)) (con s))" and "kern s' = kern s"
    and "disp s' = disp s" and "256 \<le> unat (a - buffer_k s) \<Longrightarrow> mem s' a = mem s a"
proof -
  obtain b' left s1 where l: "write_loop dev b n s = (b', left, s1)" by (rule prod_cases3)
  from write_loop_spec [OF assms(1,2) l] obtain xs where
    xs: "mem_bytes b n (mem s) = xs @ mem_bytes b' left (mem s)" "con s1 = snd (dev xs (con s))"
    and s1: "0 \<le> left" "left \<le> 256" "outside (buffer_k s) b' (nat left)" "kern s1 = kern s" "disp s1 = disp s"
      "buffer_k s1 = buffer_k s" "\<And>a. 256 \<le> unat (a - buffer_k s) \<Longrightarrow> mem s1 a = mem s a" by blast
  define m where "m = snd (copy_from_user b' (buffer_k s) left (mem s1))"
  have c: "mem_bytes (buffer_k s) left m = mem_bytes b' left (mem s1)" "256 \<le> unat (a - buffer_k s) \<Longrightarrow> m a = mem s1 a" for a
    using copy_to_kernel_buffer [OF s1(3,1,2), where m = "mem s1"] by (simp_all add: m_def)
  have user: "mem_bytes b' left (mem s1) = mem_bytes b' left (mem s)"
    using s1(3,7) by (simp add: mem_bytes_def outside_def)
  have "r = n \<and> con s' = snd (dev (mem_bytes b n (mem s)) (con s)) \<and> kern s' = kern s \<and> disp s' = disp s \<and>
    (\<forall>a. 256 \<le> unat (a - buffer_k s) \<longrightarrow> mem s' a = mem s a)"
  proof (cases "0 < left")
    case True
    have "dev (mem_bytes b' left (mem s)) (con s1) = (left, snd (dev (mem_bytes b' left (mem s)) (con s1)))"
      using dev_length [of "mem_bytes b' left (mem s)" "con s1"] True by (simp add: prod_eq_iff)
    then have "(r, s') = (n, s1\<lparr>mem := m, con := snd (dev (mem_bytes b' left (mem s)) (con s1))\<rparr>)"
      using w True c(1) user s1(6) unfolding write_chunks_def l
      by (simp add: Let_def m_def [symmetric] split: prod.splits)
    then show ?thesis using xs s1 c(2) by (simp add: dev_append)
  next
    case False
    then have "left = 0" using s1(1) by simp
    then have "(r, s') = (n, s1)" using w unfolding write_chunks_def l by simp
    then show ?thesis using xs s1 \<open>left = 0\<close> by (simp add: mem_bytes_def)
  qed
  then show "r = n" "con s' = snd (dev (mem_bytes b n (mem s)) (con s))" "kern s' = kern s" "disp s' = disp s"
    "256 \<le> unat (a - buffer_k s) \<Longrightarrow> mem s' a = mem s a" by blast+
qed

end

section \<open>Lemmas on the interrupt table\<close>

text \<open>The address a gate holds.\<close>

definition gate_offset :: "gate \<Rightarrow> u32" where
  "gate_offset g = ucast (lowOffset g) OR push_bit 16 (ucast (highOffset g))"

lemma gate_offset_words: "ucast (lowWord a) OR push_bit 16 (ucast (highWord a)) = a"
proof -
  have m: "x AND 0xFFFF = take_bit 16 x" for x :: u32 by (simp add: take_bit_eq_mask mask_eq_exp_minus_1)
  show ?thesis unfolding lowWord_def highWord_def m by (rule bit_word_eqI) (auto simp: bit_simps)
qed

lemma user_buffer_outside:
  assumes "access_ok type b (of_int n)" and "0 \<le> n" and "n < 2 ^ 31" and "unat bk + 256 \<le> 2 ^ 20"
  shows "outside bk b (nat n)"
proof -
  have n: "unat (of_int n :: u32) = nat n"
  proof -
    have "of_int n = (of_nat (nat n) :: u32)" using assms(2) by simp
    then show ?thesis using assms(2,3) by (simp only: unat_of_nat) simp
  qed
  have b: "2 ^ 20 \<le> unat b" "unat b + nat n < 2 ^ 22"
    using access_ok_iff [of "of_int n" type b] assms(1,3) unfolding n by simp_all
  have "256 \<le> unat (b + of_nat i - bk)" if "i < nat n" for i
  proof -
    have i: "unat (b + of_nat i) = unat b + i" using b that by (simp add: unat_word_ariths unat_of_nat)
    then have "bk \<le> b + of_nat i" using b assms(4) by (simp add: word_le_nat_alt)
    then show ?thesis using i b assms(4) by (simp add: unat_sub)
  qed
  then show ?thesis by (simp add: outside_def)
qed

section \<open>Properties\<close>

text \<open>Property C12 (sys_write_spec). A write is checked in the order size, descriptor, address, keyboard
  context, and a failed check changes nothing. An accepted write to the console or to the
  debug port has the effect of handing the device the user's bytes at once, although they go
  through a kernel buffer of 256 bytes, returns their number, and changes no memory but that
  buffer.\<close>

theorem sys_write_spec:
  assumes w: "sys_write fd b n s = (r, s')" and "n < 2 ^ 31" and "unat (buffer_k s) + 256 \<le> 2 ^ 20"
  shows "if n < 0 then r = - EINVAL \<and> s' = s
    else if fd \<notin> {FD_CONSOLE, FD_DEBUG, FD_SCREEN} then r = - EBADF \<and> s' = s
    else if \<not> access_ok 0 b (of_int n) then r = - EFAULT \<and> s' = s
    else if in_keyboard_context (kern s) then r = - EINPROGRESS \<and> s' = s
    else fd \<noteq> FD_SCREEN \<longrightarrow> r = n \<and> kern s' = kern s \<and> disp s' = disp s \<and>
      con s' = snd ((if fd = FD_DEBUG then sys_write_debug else sys_write_console) (mem_bytes b n (mem s)) (con s)) \<and>
      (\<forall>a. 256 \<le> unat (a - buffer_k s) \<longrightarrow> mem s' a = mem s a)"
proof -
  have bad: "check_fd fd O_WRONLY = (if fd \<notin> {FD_CONSOLE, FD_DEBUG, FD_SCREEN} then - EBADF else 0)"
    by (simp add: check_fd_def)
  show ?thesis
  proof (cases "0 \<le> n \<and> fd \<in> {FD_CONSOLE, FD_DEBUG} \<and> access_ok 0 b (of_int n) \<and> \<not> in_keyboard_context (kern s)")
    case False
    then show ?thesis using w by (auto simp: sys_write_def bad Let_def split: if_splits prod.splits)
  next
    case True
    then have o: "0 \<le> n" "outside (buffer_k s) b (nat n)" using user_buffer_outside assms(2,3) by blast+
    show ?thesis
    proof (cases "fd = FD_DEBUG")
      case debug: True
      then have "write_chunks sys_write_debug b n s = (r, s')"
        using w True by (simp add: sys_write_def check_fd_def Let_def)
      from debug_dev.write_chunks_spec [OF o this] True debug show ?thesis by simp
    next
      case False
      then have "write_chunks sys_write_console b n s = (r, s')"
        using w True by (simp add: sys_write_def check_fd_def Let_def)
      from console_dev.write_chunks_spec [OF o this] True False show ?thesis by simp
    qed
  qed
qed

theorem sys_write_spec_witness:
  "let s = \<lparr>kern = kernel_zero, con = \<lparr>cur_x = 0, cur_y = 0, video = (\<lambda>_. 0), port_e9 = []\<rparr>,
       disp = \<lparr>zeos_ticks = 0, frame_count = 0, last_fps_update_tick = 0, last_frame_count = 0, current_fps = 0,
         cached_time = [0], cached_fps = [0]\<rparr>, mem = (\<lambda>_. 65), buffer_k = 0x12000\<rparr>
   in fst (sys_write FD_DEBUG 0x100000 600 s) = 600 \<and> fst (sys_write 7 0x100000 600 s) = - EBADF"
proof -
  let ?s = "\<lparr>kern = kernel_zero, con = \<lparr>cur_x = 0, cur_y = 0, video = (\<lambda>_. 0), port_e9 = []\<rparr>,
       disp = \<lparr>zeos_ticks = 0, frame_count = 0, last_fps_update_tick = 0, last_frame_count = 0, current_fps = 0,
         cached_time = [0], cached_fps = [0]\<rparr>, mem = (\<lambda>_. 65), buffer_k = 0x12000\<rparr>"
  have a: "access_ok 0 0x100000 (of_int 600)" by (simp add: access_ok_def)
  have k: "\<not> in_keyboard_context (kern ?s)" by (simp add: in_keyboard_context_def kernel_zero_def)
  have b: "unat (buffer_k ?s) + 256 \<le> 2 ^ 20" by simp
  obtain r s' where w: "sys_write FD_DEBUG 0x100000 600 ?s = (r, s')" by fastforce
  obtain q s'' where v: "sys_write 7 0x100000 600 ?s = (q, s'')" by fastforce
  have "r = 600" using sys_write_spec [OF w _ b] a k by simp
  moreover have "q = - EBADF" using sys_write_spec [OF v _ b] by simp
  ultimately show ?thesis unfolding Let_def w v by simp
qed



end
