(* ===== verification/Zeos_Run.thy ===== *)
theory Zeos_Run
  imports Zeos_System
begin

text \<open>
  The kernel as a transition system: clock ticks, key events and the system calls that block,
  wake and identify tasks, in any order, from the state \<open>main\<close> leaves. The lemmas relate each
  transition to the abstract scheduler; the invariant and the bounded wait of a ready task
  follow.
\<close>

section \<open>Transitions\<close>

text \<open>A system call is made by a user task, so not by the idle task.\<close>

datatype event = Tick | Block | Wait_for_tick | Unblock int | Get_pid | Get_tid

fun kernel_event :: "event \<Rightarrow> kernel \<Rightarrow> kernel option" where
  "kernel_event Tick k = scheduler k"
| "kernel_event Block k = map_option snd (sys_block k)"
| "kernel_event Wait_for_tick k = map_option snd (sys_waitfortick k)"
| "kernel_event (Unblock pid) k = map_option snd (sys_unblock pid k)"
| "kernel_event Get_pid k = map_option snd (sys_getpid k)"
| "kernel_event Get_tid k = map_option snd (sys_gettid k)"

inductive kernel_run :: "kernel \<Rightarrow> bool" where
  boot: "(\<And>t. status (tasks k0 t) = ST_RUN) \<Longrightarrow> main_init k0 = Some k \<Longrightarrow> kernel_run k"
| event: "kernel_run k \<Longrightarrow> e = Tick \<or> current_task k \<noteq> Some (idle_task k) \<Longrightarrow> kernel_event e k = Some k' \<Longrightarrow> kernel_run k'"

inductive_cases kernel_runE: "kernel_run k"

text \<open>A run of clock ticks.\<close>

primrec ticks :: "nat \<Rightarrow> kernel \<Rightarrow> kernel option" where
  "ticks 0 k = Some k"
| "ticks (Suc n) k = Option.bind (scheduler k) (ticks n)"

section \<open>The invariant\<close>

text \<open>The children lists of live tasks hold live tasks.\<close>

definition fam_wf :: "rr \<Rightarrow> bool" where
  "fam_wf a \<longleftrightarrow> (\<forall>t < NR_TASKS. t \<notin> set (rr_free a) \<longrightarrow>
     (\<exists>cs. rr_fam a (Children t) = Some (map Child_list cs) \<and> set cs \<subseteq> {..<NR_TASKS} - set (rr_free a)))"

definition kinv :: "kernel \<Rightarrow> rr \<Rightarrow> bool" where
  "kinv k a \<longleftrightarrow> sched_rel k a \<and> rr_wf (idle_task k) a \<and> rr_running a \<and> fam_wf a"

lemma fam_wf_cong: "fam_wf a \<Longrightarrow> rr_fam a' = rr_fam a \<Longrightarrow> rr_free a' = rr_free a \<Longrightarrow> fam_wf a'"
  by (simp add: fam_wf_def)

lemma rr_fam_free_simps [simp]:
  "rr_fam (rr_dispatch i q a) = rr_fam a" "rr_free (rr_dispatch i q a) = rr_free a"
  "rr_fam (rr_schedule i q a) = rr_fam a" "rr_free (rr_schedule i q a) = rr_free a"
proof -
  show d: "rr_fam (rr_dispatch i q a) = rr_fam a" "rr_free (rr_dispatch i q a) = rr_free a" for a
    by (simp_all add: rr_dispatch_def split: list.split)
  show "rr_fam (rr_schedule i q a) = rr_fam a" "rr_free (rr_schedule i q a) = rr_free a"
    by (simp_all add: rr_schedule_def Let_def d)
qed

lemma rr_running_not_queued: "rr_running a \<Longrightarrow> rr_current a \<notin> set (rr_free a @ rr_ready a @ rr_tick a)"
  by (simp add: rr_running_def rr_queued_def)

lemma kinv_tick:
  assumes "kinv k a"
  shows "\<exists>k'. scheduler k = Some k' \<and> sched_frame k k' \<and> kinv k' (rr_schedule (idle_task k) (quantum \<circ> tasks k) a)"
proof -
  note a = assms [unfolded kinv_def]
  have cur: "rr_current a \<notin> set (rr_free a @ rr_ready a @ rr_tick a)" using a rr_running_not_queued by blast
  from scheduler_refines [of k a] a cur obtain k' where
    k': "scheduler k = Some k'" "sched_frame k k'" "sched_rel k' (rr_schedule (idle_task k) (quantum \<circ> tasks k) a)" by blast
  moreover have "rr_wf (idle_task k) (rr_schedule (idle_task k) (quantum \<circ> tasks k) a) \<and>
      rr_running (rr_schedule (idle_task k) (quantum \<circ> tasks k) a)"
    using a cur by (intro rr_wf_schedule) simp_all
  moreover have "fam_wf (rr_schedule (idle_task k) (quantum \<circ> tasks k) a)"
    using a fam_wf_cong [of a] by simp
  ultimately show ?thesis using sched_frame_idle [OF k'(2)] by (auto simp: kinv_def)
qed

text \<open>Suspending the running task, then dispatching.\<close>

lemma kinv_waitfortick:
  assumes inv: "kinv k a" and user: "rr_current a \<noteq> idle_task k" and kbd: "\<not> in_keyboard_context k"
  shows "\<exists>k'. sys_waitfortick k = Some (0, k') \<and> sched_frame k k' \<and>
    kinv k' (rr_dispatch (idle_task k) (quantum \<circ> tasks k) (a\<lparr>rr_tick := rr_tick a @ [rr_current a]\<rparr>))"
proof -
  note a = inv [unfolded kinv_def]
  let ?a = "a\<lparr>rr_tick := rr_tick a @ [rr_current a]\<rparr>"
  obtain k1 where k1: "update_process_state_rr (rr_current a) (Some Tick_blockedqueue) k = Some k1" "sched_frame k k1" "sched_rel k1 ?a"
    using suspend_tick [of k a] a by blast
  have wf: "rr_wf (idle_task k) ?a" using rr_wf_suspend(3) [of _ a] a user by blast
  have idle: "idle_task k1 = idle_task k" using sched_frame_idle [OF k1(2)] .
  have q: "quantum \<circ> tasks k1 = quantum \<circ> tasks k" using sched_frame_quantum [OF k1(2)] by (simp add: fun_eq_iff)
  from sched_next_rr_refines [OF k1(3)] wf obtain k' where
    k': "sched_next_rr k1 = Some k'" "sched_frame k1 k'" "sched_rel k' (rr_dispatch (idle_task k) (quantum \<circ> tasks k) ?a)"
    unfolding idle q by blast
  have "rr_current ?a \<in> set (rr_queued ?a) \<or> rr_current ?a = idle_task k" by (simp add: rr_queued_def)
  note d = rr_wf_dispatch [OF wf this]
  have "sys_waitfortick k = Some (0, k')"
    using kbd a sched_relD(2) [of k a] k1(1) k'(1) by (simp add: sys_waitfortick_def)
  moreover have "fam_wf (rr_dispatch (idle_task k) (quantum \<circ> tasks k) ?a)" using a fam_wf_cong [of a] by simp
  ultimately show ?thesis
    using k' d sched_frame_trans [OF k1(2) k'(2)] sched_frame_idle [OF k'(2)] idle by (auto simp: kinv_def)
qed

lemma kinv_block:
  assumes inv: "kinv k a" and user: "rr_current a \<noteq> idle_task k" and kbd: "\<not> in_keyboard_context k"
    and p: "pending_unblocks (tasks k (rr_current a)) = 0"
  shows "\<exists>k'. sys_block k = Some (0, k') \<and> sched_frame k k' \<and>
    kinv k' (rr_schedule (idle_task k) (quantum \<circ> tasks k) (a\<lparr>rr_blocked := rr_blocked a @ [rr_current a]\<rparr>))"
proof -
  note a = inv [unfolded kinv_def]
  let ?a = "a\<lparr>rr_blocked := rr_blocked a @ [rr_current a]\<rparr>"
  obtain k1 where k1: "update_process_state_rr (rr_current a) (Some Blockedqueue) k = Some k1" "sched_frame k k1" "sched_rel k1 ?a"
    using suspend_blocked [of k a] a by blast
  have wf: "rr_wf (idle_task k) ?a" using rr_wf_suspend(2) [of _ a] a user by blast
  have cur: "rr_current ?a \<notin> set (rr_free ?a @ rr_ready ?a @ rr_tick ?a)" using a rr_running_not_queued [of a] by simp
  have idle: "idle_task k1 = idle_task k" using sched_frame_idle [OF k1(2)] .
  have q: "quantum \<circ> tasks k1 = quantum \<circ> tasks k" using sched_frame_quantum [OF k1(2)] by (simp add: fun_eq_iff)
  from scheduler_refines [OF k1(3) _ cur] wf obtain k' where
    k': "scheduler k1 = Some k'" "sched_frame k1 k'" "sched_rel k' (rr_schedule (idle_task k) (quantum \<circ> tasks k) ?a)"
    unfolding idle q by blast
  have "sys_block k = Some (0, k')"
    using kbd a sched_relD(2) [of k a] k1(1) k'(1) p by (simp add: sys_block_def)
  moreover have "fam_wf (rr_schedule (idle_task k) (quantum \<circ> tasks k) ?a)" using a fam_wf_cong [of a] by simp
  ultimately show ?thesis
    using k' rr_wf_schedule [OF wf cur] sched_frame_trans [OF k1(2) k'(2)] sched_frame_idle [OF k'(2)] idle
    by (auto simp: kinv_def)
qed

text \<open>Only fields of control blocks that scheduling does not read change.\<close>

lemma kinv_pending:
  assumes "kinv k a"
  shows "kinv (task_update t (\<lambda>t. t\<lparr>pending_unblocks := f t\<rparr>) k) a"
  using assms unfolding kinv_def sched_rel_def by simp

definition rr_unblock :: "nat \<Rightarrow> rr \<Rightarrow> rr" where
  "rr_unblock t a = a\<lparr>rr_blocked := remove1 t (rr_blocked a), rr_tick := remove1 t (rr_tick a),
     rr_ready := rr_ready a @ [t]\<rparr>"

lemma rr_unblock_wf:
  assumes "rr_wf idle a" and "rr_running a" and "t \<in> set (rr_blocked a) \<union> set (rr_tick a)"
  shows "rr_wf idle (rr_unblock t a)" and "rr_running (rr_unblock t a)"
proof -
  note d = rr_wfD(1,4) [OF assms(1)]
  have s: "set (rr_queued (rr_unblock t a)) = set (rr_queued a)"
    using d(1) assms(3) by (auto simp: rr_queued_def rr_unblock_def set_remove1_eq)
  show "rr_wf idle (rr_unblock t a)"
  proof (rule rr_wf_cong [OF assms(1)])
    show "distinct (rr_queued (rr_unblock t a))"
      using d(1) assms(3) by (auto simp: rr_queued_def rr_unblock_def set_remove1_eq distinct_remove1)
    show "idle \<notin> set (rr_free (rr_unblock t a) @ rr_blocked (rr_unblock t a) @ rr_tick (rr_unblock t a))"
      using d(2) by (auto simp: rr_unblock_def dest: notin_set_remove1)
  qed (simp_all add: s, simp_all add: rr_unblock_def)
  show "rr_running (rr_unblock t a)" using assms(2) s by (simp add: rr_running_def) (simp add: rr_unblock_def)
qed

lemma kinv_wake:
  assumes inv: "kinv k a" and t: "t \<in> set (rr_blocked a) \<union> set (rr_tick a)"
  shows "\<exists>k'. update_process_state_rr t (Some Readyqueue) k = Some k' \<and> sched_frame k k' \<and> kinv k' (rr_unblock t a)"
proof -
  note a = inv [unfolded kinv_def]
  have d: "distinct (rr_blocked a)" "distinct (rr_tick a)" "set (rr_blocked a) \<inter> set (rr_tick a) = {}"
    using rr_wfD(1) [of _ a] a by (auto simp: rr_queued_def)
  have "\<exists>k'. update_process_state_rr t (Some Readyqueue) k = Some k' \<and> sched_frame k k' \<and> sched_rel k' (rr_unblock t a)"
  proof (cases "t \<in> set (rr_blocked a)")
    case True
    then obtain xs ys where b: "rr_blocked a = xs @ t # ys" by (meson split_list)
    have "remove1 t (rr_blocked a) = xs @ ys" using d(1) b by (simp add: remove1_append)
    moreover have "remove1 t (rr_tick a) = rr_tick a" using True d(3) by (intro remove1_idem) blast
    ultimately have "rr_unblock t a = a\<lparr>rr_blocked := xs @ ys, rr_ready := rr_ready a @ [t]\<rparr>" by (simp add: rr_unblock_def)
    then show ?thesis using wake_blocked [of k a _ xs t ys] a b by auto
  next
    case False
    then obtain xs ys where b: "rr_tick a = xs @ t # ys" using t by (metis Un_iff split_list)
    have "remove1 t (rr_tick a) = xs @ ys" using d(2) b by (simp add: remove1_append)
    moreover have "remove1 t (rr_blocked a) = rr_blocked a" using False by (rule remove1_idem)
    ultimately have "rr_unblock t a = a\<lparr>rr_tick := xs @ ys, rr_ready := rr_ready a @ [t]\<rparr>" by (simp add: rr_unblock_def)
    then show ?thesis using wake_tick [of k a _ xs t ys] a b by auto
  qed
  moreover have "fam_wf (rr_unblock t a)" using a fam_wf_cong [of a "rr_unblock t a"] by (simp add: rr_unblock_def)
  ultimately show ?thesis using rr_unblock_wf [of _ a t] a t sched_frame_idle by (auto simp: kinv_def)
qed

text \<open>The search finds the first child with the identifier.\<close>

definition find_child :: "int \<Rightarrow> nat list \<Rightarrow> kernel \<Rightarrow> nat option" where
  "find_child pid cs k = List.find (\<lambda>c. PID (tasks k c) = pid) cs"

lemma unblock_search_eq:
  "unblock_search pid (map Child_list cs) k =
     (case find_child pid cs k of
        None \<Rightarrow> Some (- ESRCH, k)
      | Some c \<Rightarrow>
          if status (tasks k c) = ST_BLOCKED
          then map_option (\<lambda>k. (0, k)) (update_process_state_rr c (Some Readyqueue) k)
          else Some (0, task_update c (\<lambda>t. t\<lparr>pending_unblocks := pending_unblocks t + 1\<rparr>) k))"
  by (induction cs) (auto simp: find_child_def map_conv_bind_option comp_def)

lemma sched_rel_blocked:
  assumes "sched_rel k a" and "t < NR_TASKS" and "t \<notin> set (rr_free a)" and "status (tasks k t) = ST_BLOCKED"
  shows "t \<in> set (rr_blocked a) \<union> set (rr_tick a)"
  using sched_relD(5) [OF assms(1-3)] assms(4) by (simp split: if_splits)

lemma kinv_unblock:
  assumes inv: "kinv k a"
  shows "\<exists>r k' a'. sys_unblock pid k = Some (r, k') \<and> kinv k' a' \<and> idle_task k' = idle_task k"
proof (cases "in_keyboard_context k")
  case True
  then show ?thesis using inv by (auto simp: sys_unblock_def)
next
  case False
  note a = inv [unfolded kinv_def]
  have cur: "current_task k = Some (rr_current a)" using sched_relD(2) a by blast
  have live: "rr_current a < NR_TASKS" "rr_current a \<notin> set (rr_free a)"
    using rr_wfD(2) a rr_running_not_queued [of a] by (blast, simp)
  then obtain cs where cs: "rr_fam a (Children (rr_current a)) = Some (map Child_list cs)"
      "set cs \<subseteq> {..<NR_TASKS} - set (rr_free a)" using a unfolding fam_wf_def by blast
  have "rings_of a (Children (rr_current a)) = Some (map Child_list cs)" using cs(1) by (simp add: rings_of_def)
  then have "list_for_each (Some (Children (rr_current a))) (lists k) = Some (map Child_list cs)"
    using a by (intro zl.for_each [OF sched_relD(1)]) simp_all
  then have eq: "sys_unblock pid k = unblock_search pid (map Child_list cs) k"
    using False cur by (simp add: sys_unblock_def)
  show ?thesis
  proof (cases "find_child pid cs k")
    case None
    then show ?thesis using inv unfolding eq unblock_search_eq by auto
  next
    case (Some c)
    then have "c \<in> set cs" by (auto simp: find_child_def find_Some_iff)
    then have c: "c < NR_TASKS" "c \<notin> set (rr_free a)" using cs(2) by auto
    show ?thesis
    proof (cases "status (tasks k c) = ST_BLOCKED")
      case True
      from kinv_wake [OF inv sched_rel_blocked [OF _ c True]] a obtain k' where
        "update_process_state_rr c (Some Readyqueue) k = Some k'" "sched_frame k k'" "kinv k' (rr_unblock c a)" by blast
      then show ?thesis unfolding eq unblock_search_eq using Some True sched_frame_idle by auto
    next
      case False
      then show ?thesis unfolding eq unblock_search_eq using Some kinv_pending [OF inv, of c "\<lambda>t. pending_unblocks t + 1"] by auto
    qed
  qed
qed

lemma kinv_event:
  assumes inv: "kinv k a" and e: "e = Tick \<or> current_task k \<noteq> Some (idle_task k)"
  shows "\<exists>k' a'. kernel_event e k = Some k' \<and> kinv k' a' \<and> idle_task k' = idle_task k"
proof -
  have cur: "current_task k = Some (rr_current a)" using inv sched_relD(2) unfolding kinv_def by blast
  show ?thesis
  proof (cases e)
    case Tick
    then show ?thesis using kinv_tick [OF inv] sched_frame_idle by fastforce
  next
    case Block
    show ?thesis
    proof (cases "in_keyboard_context k \<or> pending_unblocks (tasks k (rr_current a)) \<noteq> 0")
      case True
      then show ?thesis using Block inv cur kinv_pending [OF inv, of "rr_current a" "\<lambda>t. pending_unblocks t - 1"]
        by (auto simp: sys_block_def)
    next
      case False
      then show ?thesis using kinv_block [OF inv] e cur Block sched_frame_idle by fastforce
    qed
  next
    case Wait_for_tick
    show ?thesis
    proof (cases "in_keyboard_context k")
      case True
      then show ?thesis using Wait_for_tick inv by (auto simp: sys_waitfortick_def)
    next
      case False
      then show ?thesis using kinv_waitfortick [OF inv] e cur Wait_for_tick sched_frame_idle by fastforce
    qed
  next
    case (Unblock pid)
    then show ?thesis using kinv_unblock [OF inv, of pid] by fastforce
  qed (use inv cur in \<open>auto simp: sys_getpid_def sys_gettid_def\<close>)
qed

lemma fam_wf_boot: "fam_wf boot_rr"
proof -
  have "t \<in> {0, 1}" if "t < 25" "t \<notin> set (rr_free boot_rr)" for t using that by (auto simp: boot_rr_def)
  then show ?thesis
    unfolding fam_wf_def by (force simp: boot_rr_def linked_def)
qed

lemma kernel_run_kinv: "kernel_run k \<Longrightarrow> \<exists>a. kinv k a"
proof (induction rule: kernel_run.induct)
  case (boot k0 k)
  obtain k' where k': "main_init k0 = Some k'" "sched_rel k' boot_rr" "idle_task k' = 0"
    using main_init_boot [OF boot(1)] by blast
  have "k' = k" using k'(1) boot(2) by simp
  then have "sched_rel k boot_rr" "idle_task k = 0" using k' by simp_all
  then have "kinv k boot_rr" using rr_wf_boot rr_running_boot fam_wf_boot by (simp add: kinv_def)
  then show ?case by blast
next
  case (event k e k')
  then obtain a where "kinv k a" by blast
  from kinv_event [OF this event.hyps(2)] obtain k1 a1 where "kernel_event e k = Some k1" "kinv k1 a1" by blast
  moreover from this(1) event.hyps(3) have "k1 = k'" by simp
  ultimately show ?case by blast
qed

text \<open>One tick moves every ready task one place forward when all quanta are at most one.\<close>

lemma rr_schedule_advances:
  assumes "rr_running a" and "rr_quantum a \<le> 1" and "i < length (rr_ready a)"
  shows "(if i = 0 then rr_current (rr_schedule idle q a) = rr_ready a ! i
      else i - 1 < length (rr_ready (rr_schedule idle q a)) \<and> rr_ready (rr_schedule idle q a) ! (i - 1) = rr_ready a ! i) \<and>
    rr_quantum (rr_schedule idle q a) = q (rr_current (rr_schedule idle q a))"
proof -
  obtain r rs where r: "rr_ready a = r # rs" using assms(3) by (cases "rr_ready a") auto
  have nb: "rr_current a \<notin> set (rr_blocked a)" using assms(1) by (simp add: rr_running_def rr_queued_def)
  have "rr_schedule idle q a = a\<lparr>rr_quantum := q r, rr_tick := [], rr_ready := rs @ rr_tick a @ [rr_current a], rr_current := r\<rparr>"
    using assms(2) nb r unfolding rr_schedule_def Let_def rr_dispatch_def rr_wake_def by simp
  then show ?thesis using assms(3) r by (cases i) (auto simp: nth_append)
qed

section \<open>Properties\<close>



text \<open>Property C9 (ready_task_runs). Bounded waiting: when no quantum exceeds one tick, the task at
  position \<open>i\<close> of the ready queue runs after exactly \<open>i + 1\<close> clock ticks.\<close>

theorem ready_task_runs:
  assumes "sched_rel k a" and "rr_wf (idle_task k) a" and "rr_running a"
    and "\<forall>t. quantum (tasks k t) \<le> 1" and "current_quantum k \<le> 1" and "i < length (rr_ready a)"
  shows "\<exists>k'. ticks (Suc i) k = Some k' \<and> current_task k' = Some (rr_ready a ! i)"
proof -
  show ?thesis using assms
  proof (induction i arbitrary: k a)
    case (0 k a)
    note cur = rr_running_not_queued [OF "0.prems"(3)]
    from scheduler_refines [OF "0.prems"(1,2) cur] obtain k' where
      k': "scheduler k = Some k'" "sched_rel k' (rr_schedule (idle_task k) (quantum \<circ> tasks k) a)" by blast
    have "rr_quantum a \<le> 1" using "0.prems"(1,5) sched_relD(4) by metis
    from rr_schedule_advances [OF "0.prems"(3) this "0.prems"(6)] k' sched_relD(2) [OF k'(2)] show ?case by simp
  next
    case (Suc i k a)
    note cur = rr_running_not_queued [OF Suc.prems(3)]
    let ?a = "rr_schedule (idle_task k) (quantum \<circ> tasks k) a"
    from scheduler_refines [OF Suc.prems(1,2) cur] obtain k1 where
      k1: "scheduler k = Some k1" "sched_frame k k1" "sched_rel k1 ?a" by blast
    have "rr_quantum a \<le> 1" using Suc.prems(1,5) sched_relD(4) by metis
    note adv = rr_schedule_advances [OF Suc.prems(3) this Suc.prems(6), of "idle_task k" "quantum \<circ> tasks k"]
    have q: "quantum (tasks k1 t) \<le> 1" for t using Suc.prems(4) sched_frame_quantum [OF k1(2)] by simp
    have "current_quantum k1 \<le> 1" using adv sched_relD(4) [OF k1(3)] Suc.prems(4) by simp
    with Suc.IH [OF k1(3)] rr_wf_schedule [OF Suc.prems(2) cur, of "quantum \<circ> tasks k"] q adv sched_frame_idle [OF k1(2)]
    obtain k' where "ticks (Suc i) k1 = Some k'" "current_task k' = Some (rr_ready a ! Suc i)" by auto
    then show ?case using k1(1) by simp
  qed
qed

text \<open>A state with a ready task: the initial task has waited for a tick, so the idle task is in the
  queue behind it.\<close>

lemma ready_example:
  obtains k a where "sched_rel k a" "rr_wf (idle_task k) a" "rr_running a" "\<forall>t. quantum (tasks k t) = 1"
    "current_quantum k = 1" "rr_ready a = [0]"
proof -
  obtain k0 where k0: "main_init kernel_zero = Some k0" "sched_rel k0 boot_rr" "idle_task k0 = 0" "rr_wf (idle_task k0) boot_rr"
    by (rule boot_kernel_zero)
  let ?k = "k0\<lparr>tasks := \<lambda>t. (tasks k0 t)\<lparr>quantum := 1\<rparr>\<rparr>"
  have r: "sched_rel ?k boot_rr" using k0(2) by (simp add: sched_rel_def)
  let ?a = "boot_rr\<lparr>rr_tick := rr_tick boot_rr @ [rr_current boot_rr]\<rparr>"
  have wf: "rr_wf 0 ?a" using rr_wf_suspend(3) [OF rr_wf_boot rr_running_boot] by (simp add: boot_rr_def)
  obtain k1 where k1: "sched_frame ?k k1" "sched_rel k1 ?a"
    using suspend_tick [OF r _ rr_running_boot] rr_wf_boot by blast
  have i1: "idle_task k1 = 0" using sched_frame_idle [OF k1(1)] k0(3) by simp
  have q1: "quantum \<circ> tasks k1 = (\<lambda>_. 1)" using sched_frame_quantum [OF k1(1)] by (simp add: fun_eq_iff)
  let ?b = "rr_dispatch 0 (\<lambda>_. 1) ?a"
  obtain k2 where k2: "sched_frame k1 k2" "sched_rel k2 ?b"
    using sched_next_rr_refines [OF k1(2)] wf unfolding i1 q1 by blast
  have q2: "quantum \<circ> tasks k2 = (\<lambda>_. 1)"
    using sched_frame_quantum [OF k2(1)] q1 by (simp add: fun_eq_iff)
  have "rr_current ?a \<in> set (rr_queued ?a) \<or> rr_current ?a = 0" by (simp add: rr_queued_def)
  note d = rr_wf_dispatch [OF wf this, of "\<lambda>_. 1"]
  have i2: "idle_task k2 = 0" using sched_frame_idle [OF k2(1)] i1 by simp
  have "kinv k2 ?b" using k2(2) d i2 fam_wf_cong [OF fam_wf_boot, of ?b] by (simp add: kinv_def)
  from kinv_tick [OF this] obtain k3 where
    k3: "sched_frame k2 k3" "kinv k3 (rr_schedule 0 (\<lambda>_. 1) ?b)" unfolding i2 q2 by blast
  have "\<forall>t. quantum (tasks k3 t) = 1" using sched_frame_quantum [OF k3(1)] q2 by (simp add: fun_eq_iff)
  moreover have c: "rr_schedule 0 (\<lambda>_. 1) ?b = ?a\<lparr>rr_tick := [], rr_ready := [0], rr_current := 1, rr_quantum := 1\<rparr>"
    by (simp add: boot_rr_def rr_schedule_def rr_dispatch_def rr_wake_def Let_def)
  moreover have "current_quantum k3 = 1" using k3(2) sched_relD(4) [of k3] unfolding kinv_def c by fastforce
  moreover have "rr_ready (rr_schedule 0 (\<lambda>_. 1) ?b) = [0]" unfolding c by simp
  ultimately show ?thesis using k3(2) that unfolding kinv_def by blast
qed

theorem ready_task_runs_witness: "\<exists>k k'. ticks 1 k = Some k' \<and> current_task k' = Some 0"
proof -
  obtain k a where k: "sched_rel k a" "rr_wf (idle_task k) a" "rr_running a" "\<forall>t. quantum (tasks k t) = 1"
      "current_quantum k = 1" "rr_ready a = [0]" by (rule ready_example)
  have "\<forall>t. quantum (tasks k t) \<le> 1" "current_quantum k \<le> 1" "0 < length (rr_ready a)" using k by simp_all
  from ready_task_runs [OF k(1-3) this] show ?thesis using k(6) by fastforce
qed

end
