(* ===== verification/Zeos_Boot.thy ===== *)
theory Zeos_Boot
  imports Zeos_System
begin

text \<open>
  The start of the kernel: \<open>main\<close> of \<open>project/system.c\<close>, the segment table and the task state segment
  of \<open>project/mm.c\<close>, and the time stamp counter and the splash screen of \<open>project/utils.c\<close>. The
  counter is a sequence of readings; addresses fixed by the linker are arguments. The
  instructions that load the table registers and leave for user mode are not modelled.
\<close>

section \<open>Time stamp counter\<close>

abbreviation (input) CYCLESPERTICK :: nat where "CYCLESPERTICK \<equiv> 109000"

text \<open>The division of a 64-bit number by a 32-bit one with the \<open>divl\<close> instruction, which faults
  (\<open>None\<close>) when its quotient does not fit a register. The result is the remainder and the new
  value of \<open>n\<close>.\<close>

definition do_div :: "nat \<Rightarrow> nat \<Rightarrow> (nat \<times> nat) option" where
  "do_div n base =
     (let low = n mod 2 ^ 32; high = n div 2 ^ 32;
          upper = (if high \<noteq> 0 then high mod base else high);
          high = (if high \<noteq> 0 then high div base else high);
          dividend = upper * 2 ^ 32 + low
      in if base = 0 \<or> dividend div base \<ge> 2 ^ 32 then None
         else Some (dividend mod base, high * 2 ^ 32 + dividend div base))"

definition get_ticks :: "u32 \<Rightarrow> u32 \<Rightarrow> u32 option" where
  "get_ticks eax edx = do {
     (_, ticks) \<leftarrow> do_div (unat edx * 2 ^ 32 + unat eax) CYCLESPERTICK;
     Some (of_nat ticks) }"

text \<open>\<open>tsc i\<close> is the \<open>i\<close>-th reading, low word first. The result is the number of readings taken.\<close>

partial_function (option) wait_loop_ticks :: "(nat \<Rightarrow> u32 \<times> u32) \<Rightarrow> nat \<Rightarrow> u32 \<Rightarrow> u32 \<Rightarrow> nat option" where
  "wait_loop_ticks tsc i start_ticks ticks_to_wait = do {
     now \<leftarrow> get_ticks (fst (tsc i)) (snd (tsc i));
     if now - start_ticks < ticks_to_wait then wait_loop_ticks tsc (i + 1) start_ticks ticks_to_wait else Some (i + 1) }"

definition wait_ticks :: "(nat \<Rightarrow> u32 \<times> u32) \<Rightarrow> int \<Rightarrow> nat option" where
  "wait_ticks tsc ticks_to_wait = do {
     start_ticks \<leftarrow> get_ticks (fst (tsc 0)) (snd (tsc 0));
     wait_loop_ticks tsc 1 start_ticks (of_int ticks_to_wait) }"

section \<open>Splash screen\<close>

abbreviation (input) TIME_BOOT_SPLASH :: int where "TIME_BOOT_SPLASH \<equiv> 960"

definition splash_lines :: "(u8 list \<times> u16) list" where
  "splash_lines =
     [([10], DEFAULT_COLOR),
      (ascii ''                  ###########    ########  #######    ######       '' @ [10], MAKE_COLOR 0 11),
      (ascii ''                         ##     ##        ##     ##  ##    ##      '' @ [10], MAKE_COLOR 0 3),
      (ascii ''                       ##      ##        ##     ##  ##             '' @ [10], MAKE_COLOR 0 9),
      (ascii ''                     ##       ######    ##     ##   ######         '' @ [10], MAKE_COLOR 0 1),
      (ascii ''                   ##        ##        ##     ##        ##         '' @ [10], MAKE_COLOR 0 9),
      (ascii ''                 ##         ##        ##     ##  ##    ##          '' @ [10], MAKE_COLOR 0 3),
      (ascii ''               ##########  ########   #######    ######            '' @ [10], MAKE_COLOR 0 11),
      ([10, 10], DEFAULT_COLOR),
      (ascii ''               ####    #####     ###        #######  ##  ######      '' @ [10], MAKE_COLOR 0 14),
      (ascii ''              ##  ##  ##   ##   ## ##       ##       ##  ##   ##     '' @ [10], MAKE_COLOR 0 12),
      (ascii ''              ##      ##   ##  ##   ##      ##       ##  ##   ##     '' @ [10], MAKE_COLOR 0 13),
      (ascii ''               ####   ##   ##  #######      #####    ##  ######      '' @ [10], MAKE_COLOR 0 5),
      (ascii ''                  ##  ##   ##  ##   ##      ##       ##  ##   ##     '' @ [10], MAKE_COLOR 0 13),
      (ascii ''              ##  ##  ##   ##  ##   ##      ##       ##  ##   ##     '' @ [10], MAKE_COLOR 0 12),
      (ascii ''               ####    #####   ##   ##      ##       ##  ######      '' @ [10, 10], MAKE_COLOR 0 14),
      (ascii ''                        ========================='' @ [10], MAKE_COLOR 0 8),
      (ascii ''                            2 0 2 5'', MAKE_COLOR 0 10),
      (ascii '' - '', MAKE_COLOR 0 15),
      (ascii ''2 0 2 6'' @ [10], MAKE_COLOR 0 10),
      (ascii ''                        ========================='' @ [10, 10], MAKE_COLOR 0 8),
      (ascii ''                        Booting ZeOs by Baka Baka'' @ [10], MAKE_COLOR 0 14)]"

definition print_splash_screen :: "(nat \<Rightarrow> u32 \<times> u32) \<Rightarrow> console \<Rightarrow> console option" where
  "print_splash_screen tsc c =
     (let c = clear_screen c;
          c = fold (\<lambda>(text, col). printk_color text col) splash_lines c
      in do {
        _ \<leftarrow> wait_ticks tsc TIME_BOOT_SPLASH;
        Some (clear_screen c) })"

section \<open>Segments\<close>

record descriptor =
  d_limit :: u16
  lowBase :: u16
  midBase :: u8
  flags1 :: u8
  flags2 :: u8
  highBase :: u8

record dtr =
  dtr_limit :: u16
  dtr_base :: u32

text \<open>The task state segment, in the groups the comments of the structure name.\<close>

record tss_stacks =
  t_esp0 :: u32
  t_ss0 :: u16
  t_esp1 :: u32
  t_ss1 :: u16
  t_esp2 :: u32
  t_ss2 :: u16

record tss_regs =
  t_eax :: u32
  t_ecx :: u32
  t_edx :: u32
  t_ebx :: u32
  t_esp :: u32
  t_ebp :: u32
  t_esi :: u32
  t_edi :: u32

record tss_selectors =
  t_es :: u16
  t_cs :: u16
  t_ss :: u16
  t_ds :: u16
  t_fs :: u16
  t_gs :: u16

record tss_seg =
  PreviousTaskLink :: u16
  t_stacks :: tss_stacks
  t_cr3 :: u32
  t_eip :: u32
  t_eFlags :: u32
  t_regs :: tss_regs
  t_selectors :: tss_selectors
  LDTSegmentSelector :: u16
  debugTrap :: u16
  IOMapBaseAddress :: u16

abbreviation (input) KERNEL_TSS :: u16 where "KERNEL_TSS \<equiv> 0x30"
abbreviation (input) USER_DS :: u16 where "USER_DS \<equiv> 0x2B"
abbreviation (input) USER_CS :: u16 where "USER_CS \<equiv> 0x23"
abbreviation (input) KERNEL_DS :: u16 where "KERNEL_DS \<equiv> 0x18"
abbreviation (input) USER_ESP :: u32 where "USER_ESP \<equiv> 0x100000 + 24 * 0x1000 - 16"

definition midByte :: "u32 \<Rightarrow> u8" where
  "midByte address = ucast (drop_bit 16 address AND 0xFF)"

definition highByte :: "u32 \<Rightarrow> u8" where
  "highByte address = ucast (drop_bit 24 address AND 0xFF)"

definition setGdt :: "u32 \<Rightarrow> u32 \<Rightarrow> (nat \<Rightarrow> descriptor) \<Rightarrow> (nat \<Rightarrow> descriptor) \<times> dtr" where
  "setGdt tss_addr gdt_addr gdt =
     (gdt(unat KERNEL_TSS div 8 := (gdt (unat KERNEL_TSS div 8))
        \<lparr>lowBase := lowWord tss_addr, midBase := midByte tss_addr, highBase := highByte tss_addr\<rparr>),
      \<lparr>dtr_limit = 256 * 8, dtr_base = gdt_addr\<rparr>)"

definition setTSS :: "kernel \<Rightarrow> tss_seg" where
  "setTSS k =
     \<lparr>PreviousTaskLink = 0,
      t_stacks = \<lparr>t_esp0 = KERNEL_ESP k 1, t_ss0 = KERNEL_DS, t_esp1 = 0, t_ss1 = 0, t_esp2 = 0, t_ss2 = 0\<rparr>,
      t_cr3 = 0, t_eip = 0, t_eFlags = 0x00000200,
      t_regs = \<lparr>t_eax = 0, t_ecx = 0, t_edx = 0, t_ebx = 0, t_esp = USER_ESP, t_ebp = USER_ESP, t_esi = 0, t_edi = 0\<rparr>,
      t_selectors = \<lparr>t_es = USER_DS, t_cs = USER_CS, t_ss = USER_DS, t_ds = USER_DS, t_fs = 0, t_gs = 0\<rparr>,
      LDTSegmentSelector = KERNEL_TSS, debugTrap = 0, IOMapBaseAddress = 0\<rparr>"

section \<open>main\<close>

record boot_state =
  mach :: machine
  tables :: cpu_tables
  gdt_table :: "nat \<Rightarrow> descriptor"
  gdtR :: dtr
  tss_area :: tss_seg

text \<open>The sizes of the kernel and of the user image, stored by the boot loader at the start of the
  kernel.\<close>

definition read_word :: "u32 \<Rightarrow> memory \<Rightarrow> u32" where
  "read_word a m =
     ucast (m a) OR push_bit 8 (ucast (m (a + 1))) OR push_bit 16 (ucast (m (a + 2))) OR push_bit 24 (ucast (m (a + 3)))"

abbreviation (input) KERNEL_START :: u32 where "KERNEL_START \<equiv> 0x10000"
abbreviation (input) L_USER_START :: u32 where "L_USER_START \<equiv> 0x100000"

definition kernel_main ::
  "(idt \<Rightarrow> idt) \<Rightarrow> entry_points \<Rightarrow> u32 \<Rightarrow> u32 \<Rightarrow> (nat \<Rightarrow> u32 \<times> u32) \<Rightarrow> boot_state \<Rightarrow> boot_state option" where
  "kernel_main set_handlers e tss_addr gdt_addr tsc b = do {
     c \<leftarrow> print_splash_screen tsc (con (mach b));
     (g, gr) \<leftarrow> Some (setGdt tss_addr gdt_addr (gdt_table b));
     t \<leftarrow> Some (setIdt set_handlers e (kern (mach b)) (tables b));
     ts \<leftarrow> Some (setTSS (kern (mach b)));
     k \<leftarrow> main_init (kern (mach b));
     m \<leftarrow> Some (mem (mach b));
     m \<leftarrow> Some (copy_data (KERNEL_START + read_word KERNEL_START m) L_USER_START (sint (read_word (KERNEL_START + 4) m)) m);
     c \<leftarrow> Some (printk (ascii ''Entering user mode...'' @ [10, 10]) c);
     Some (b\<lparr>mach := (mach b)\<lparr>kern := k, con := c, mem := m\<rparr>, tables := t, gdt_table := g, gdtR := gr, tss_area := ts\<rparr>) }"

section \<open>Lemmas\<close>

text \<open>The two-step division is the division of the whole number, and never faults.\<close>

lemma two_step_division:
  fixes base B low high :: nat
  assumes "0 < base" "low < B" and d: "d = high mod base * B + low"
  shows "(high * B + low) mod base = d mod base" "(high * B + low) div base = high div base * B + d div base" "d div base < B"
proof -
  have "high * B = (high div base * base + high mod base) * B" by simp
  then have nd: "high * B + low = d + high div base * B * base" by (simp only: d add_mult_distrib) (simp only: ac_simps)
  show "(high * B + low) mod base = d mod base" "(high * B + low) div base = high div base * B + d div base"
    using assms(1) by (simp_all add: nd)
  have "(high mod base + 1) * B \<le> base * B" using assms(1) by (intro mult_right_mono) (simp_all add: Suc_leI)
  then have "d < B * base" using assms(2) by (simp add: d mult.commute)
  then show "d div base < B" by (rule less_mult_imp_div_less)
qed

lemma do_div_correct:
  assumes "0 < base"
  shows "do_div n base = Some (n mod base, n div base)"
proof -
  define B :: nat where "B = 2 ^ 32"
  have "n mod B < B" by (simp add: B_def)
  note t = two_step_division [OF assms this refl, of "n div B"]
  have "n div B * B + n mod B = n" by simp
  moreover have "(if n div B \<noteq> 0 then n div B mod base else n div B) = n div B mod base"
    "(if n div B \<noteq> 0 then n div B div base else n div B) = n div B div base" by simp_all
  ultimately show ?thesis using t assms unfolding do_div_def B_def [symmetric] Let_def by simp
qed

lemma get_ticks_eq: "get_ticks eax edx = Some (of_nat ((unat edx * 2 ^ 32 + unat eax) div CYCLESPERTICK))"
  by (simp add: get_ticks_def do_div_correct)

text \<open>The wait ends with the first reading that is far enough from the start.\<close>

lemma wait_loop_ticks_ends:
  assumes "\<not> the (get_ticks (fst (tsc (i + n))) (snd (tsc (i + n)))) - s < w"
  shows "\<exists>j. wait_loop_ticks tsc i s w = Some j"
  using assms
proof (induction n arbitrary: i)
  case 0
  then show ?case by (subst wait_loop_ticks.simps) (simp add: get_ticks_eq)
next
  case (Suc n)
  then show ?case using Suc.IH [of "i + 1"] by (subst wait_loop_ticks.simps) (simp add: get_ticks_eq)
qed

text \<open>The descriptor of the task state segment holds its address.\<close>

definition segment_base :: "descriptor \<Rightarrow> u32" where
  "segment_base d = ucast (lowBase d) OR push_bit 16 (ucast (midBase d)) OR push_bit 24 (ucast (highBase d))"

lemma segment_words: "ucast (lowWord a) OR push_bit 16 (ucast (midByte a)) OR push_bit 24 (ucast (highByte a)) = a"
proof -
  have m: "x AND 0xFFFF = take_bit 16 x" "x AND 0xFF = take_bit 8 x" for x :: u32
    by (simp_all add: take_bit_eq_mask mask_eq_exp_minus_1)
  show ?thesis unfolding lowWord_def midByte_def highByte_def m
  proof (rule bit_word_eqI)
    fix n assume "n < LENGTH(32)"
    then consider "n < 16" | "16 \<le> n" "n < 24" | "24 \<le> n" "n < 32" by (force simp: not_less)
    then show "bit (ucast (ucast (take_bit 16 a) :: u16) OR push_bit 16 (ucast (ucast (take_bit 8 (drop_bit 16 a)) :: u8)) OR
       push_bit 24 (ucast (ucast (take_bit 8 (drop_bit 24 a)) :: u8)) :: u32) n = bit a n"
      by cases (auto simp: bit_simps)
  qed
qed

lemma setGdt_base: "segment_base (fst (setGdt a g gdt) 6) = a" "j \<noteq> 6 \<Longrightarrow> fst (setGdt a g gdt) j = gdt j"
  by (simp_all add: segment_base_def setGdt_def segment_words)

text \<open>The kernel starts: with a running clock \<open>main\<close> gets past the splash screen without a fault and
  hands over a scheduler in its initial state.\<close>

lemma kernel_main_starts:
  assumes "\<And>t. status (tasks (kern (mach b)) t) = ST_RUN"
    "\<not> the (get_ticks (fst (tsc n)) (snd (tsc n))) - the (get_ticks (fst (tsc 0)) (snd (tsc 0))) < 960" "0 < n"
  shows "\<exists>b'. kernel_main h e ta ga tsc b = Some b' \<and> sched_rel (kern (mach b')) boot_rr \<and>
    current_task (kern (mach b')) = Some 1"
proof -
  obtain k where k: "main_init (kern (mach b)) = Some k" "sched_rel k boot_rr" "current_task k = Some 1"
    using main_init_boot [OF assms(1)] by (auto simp: sched_rel_def boot_rr_def)
  obtain j where "wait_loop_ticks tsc 1 (the (get_ticks (fst (tsc 0)) (snd (tsc 0)))) 960 = Some j"
    using wait_loop_ticks_ends [of tsc 1 "n - 1"] assms(2,3) by fastforce
  then have "\<exists>c. print_splash_screen tsc (con (mach b)) = Some c"
    by (simp add: print_splash_screen_def wait_ticks_def get_ticks_eq Let_def)
  then show ?thesis using k by (auto simp: kernel_main_def setGdt_def)
qed

end
