(* ===== verification/Game_Types.thy ===== *)
theory Game_Types
  imports Zeos_Prelude
begin

text \<open>
  The types of the game: \<open>project/include/game_types.h\<close> with the constants of
  \<open>game_config.h\<close>, \<open>times.h\<close> and \<open>game_logic.h\<close>. An \<open>int\<close> of the source that only holds 0 or 1
  is a \<open>bool\<close>. The fields of the three entity structures carry a prefix.
\<close>

section \<open>Constants\<close>

abbreviation (input) SCREEN_WIDTH :: int where "SCREEN_WIDTH \<equiv> 80"
abbreviation (input) SCREEN_HEIGHT :: int where "SCREEN_HEIGHT \<equiv> 25"
abbreviation (input) ROW_STATUS_TOP :: int where "ROW_STATUS_TOP \<equiv> 0"
abbreviation (input) ROW_STATUS_BOTTOM :: int where "ROW_STATUS_BOTTOM \<equiv> 24"
abbreviation (input) ROW_SKY_START :: int where "ROW_SKY_START \<equiv> 1"
abbreviation (input) ROW_SKY_END :: int where "ROW_SKY_END \<equiv> 2"
abbreviation (input) ROW_GROUND_START :: int where "ROW_GROUND_START \<equiv> 3"
abbreviation (input) ROW_GROUND_END :: int where "ROW_GROUND_END \<equiv> 23"
abbreviation (input) ROW_BORDER :: int where "ROW_BORDER \<equiv> 23"
abbreviation (input) MAP_WIDTH :: int where "MAP_WIDTH \<equiv> SCREEN_WIDTH"
abbreviation (input) MAP_HEIGHT :: int where "MAP_HEIGHT \<equiv> ROW_BORDER + 1"

abbreviation (input) MAX_ENEMIES :: nat where "MAX_ENEMIES \<equiv> 8"
abbreviation (input) INITIAL_LIVES :: int where "INITIAL_LIVES \<equiv> 5"
abbreviation (input) MAX_ROUNDS :: int where "MAX_ROUNDS \<equiv> 5"
abbreviation (input) MAX_SCORE :: int where "MAX_SCORE \<equiv> 99999"
abbreviation (input) MAX_GEMS :: nat where "MAX_GEMS \<equiv> 20"
abbreviation (input) MAX_ROCKS :: nat where "MAX_ROCKS \<equiv> 10"

abbreviation (input) PLAYER_SPEED :: int where "PLAYER_SPEED \<equiv> 6"
abbreviation (input) POOKA_BASE_SPEED :: int where "POOKA_BASE_SPEED \<equiv> 16"
abbreviation (input) FYGAR_BASE_SPEED :: int where "FYGAR_BASE_SPEED \<equiv> 12"

abbreviation (input) ONE_SECOND :: int where "ONE_SECOND \<equiv> 320"
abbreviation (input) HALF_SECOND :: int where "HALF_SECOND \<equiv> 160"
abbreviation (input) QUARTER_SECOND :: int where "QUARTER_SECOND \<equiv> 80"
abbreviation (input) EIGHTH_SECOND :: int where "EIGHTH_SECOND \<equiv> 40"
abbreviation (input) SIXTEENTH_SECOND :: int where "SIXTEENTH_SECOND \<equiv> 20"
abbreviation (input) THIRTY_SECOND :: int where "THIRTY_SECOND \<equiv> 10"
abbreviation (input) TIME_SHORT :: int where "TIME_SHORT \<equiv> 32"
abbreviation (input) TIME_LONG :: int where "TIME_LONG \<equiv> 160"

abbreviation (input) FYGAR_FIRE_RANGE :: int where "FYGAR_FIRE_RANGE \<equiv> 2"
abbreviation (input) FYGAR_FIRE_COOLDOWN :: int where "FYGAR_FIRE_COOLDOWN \<equiv> ONE_SECOND * 2"
abbreviation (input) FYGAR_FIRE_DURATION :: int where "FYGAR_FIRE_DURATION \<equiv> QUARTER_SECOND"
abbreviation (input) INFLATE_LEVELS :: int where "INFLATE_LEVELS \<equiv> 4"
abbreviation (input) ROUND_START_DELAY :: int where "ROUND_START_DELAY \<equiv> HALF_SECOND"
abbreviation (input) ATTACK_RANGE_V :: int where "ATTACK_RANGE_V \<equiv> 2"
abbreviation (input) ATTACK_RANGE_H :: int where "ATTACK_RANGE_H \<equiv> 3"
abbreviation (input) ATTACK_DISPLAY_TIME :: int where "ATTACK_DISPLAY_TIME \<equiv> SIXTEENTH_SECOND"

abbreviation (input) GHOST_MODE_THRESHOLD :: int where "GHOST_MODE_THRESHOLD \<equiv> 12 * ONE_SECOND"
abbreviation (input) RESPAWN_DELAY :: int where "RESPAWN_DELAY \<equiv> EIGHTH_SECOND"
abbreviation (input) LEVEL_CLEAR_DELAY :: int where "LEVEL_CLEAR_DELAY \<equiv> QUARTER_SECOND"
abbreviation (input) ROCK_WOBBLE_TICKS :: int where "ROCK_WOBBLE_TICKS \<equiv> QUARTER_SECOND"
abbreviation (input) ROCK_BLINK_DURATION :: int where "ROCK_BLINK_DURATION \<equiv> THIRTY_SECOND"
abbreviation (input) ROCK_BLINK_COUNT :: int where "ROCK_BLINK_COUNT \<equiv> 3"
abbreviation (input) ROCK_KILL_MULTIPLIER :: int where "ROCK_KILL_MULTIPLIER \<equiv> 2"
abbreviation (input) PLAYER_START_X :: int where "PLAYER_START_X \<equiv> 40"
abbreviation (input) PLAYER_START_Y :: int where "PLAYER_START_Y \<equiv> 2"
abbreviation (input) MAX_PUMP_LENGTH :: int where "MAX_PUMP_LENGTH \<equiv> 4"

section \<open>Enumerations\<close>

datatype direction = DIR_NONE | DIR_UP | DIR_DOWN | DIR_LEFT | DIR_RIGHT

datatype game_scene = SCENE_MENU | SCENE_PLAYING | SCENE_PAUSED | SCENE_GAME_OVER | SCENE_ROUND_CLEAR
  | SCENE_ROUND_START | SCENE_VICTORY | SCENE_CREDITS

datatype tile_type = TILE_EMPTY | TILE_DIRT | TILE_SKY | TILE_WALL | TILE_GEM | TILE_BONUS | TILE_BORDER

datatype entity_type = ENTITY_NONE | ENTITY_PLAYER | ENTITY_POOKA | ENTITY_FYGAR | ENTITY_ROCK | ENTITY_ENEMY

datatype player_state = PLAYER_IDLE | PLAYER_MOVING | PLAYER_DIGGING | PLAYER_PUMPING | PLAYER_ATTACKING | PLAYER_DEAD

datatype enemy_state = ENEMY_NORMAL | ENEMY_GHOST | ENEMY_INFLATING | ENEMY_PARALYZED | ENEMY_DEAD

datatype rock_state = ROCK_STABLE | ROCK_WOBBLING | ROCK_FALLING | ROCK_LANDED | ROCK_BLINKING

section \<open>Structures\<close>

record position =
  pos_x :: int
  pos_y :: int

record entity =
  pos :: position
  dir :: direction
  etype :: entity_type
  active :: bool
  speed_counter :: int
  speed_limit :: int

record player =
  p_base :: entity
  p_state :: player_state
  facing_dir :: direction
  is_pumping :: bool
  pump_length :: int
  pump_dir :: direction
  is_attacking :: bool
  attack_timer :: int

record enemy =
  e_base :: entity
  e_state :: enemy_state
  inflate_level :: int
  ghost_timer :: int
  fire_start_time :: int
  fire_end_time :: int
  fire_active :: bool
  fire_duration :: int
  paralyzed_timer :: int
  e_blink_count :: int
  has_left_tunnel :: bool

record rock =
  r_base :: entity
  r_state :: rock_state
  wobble_timer :: int
  has_crushed :: bool
  r_blink_timer :: int
  r_blink_count :: int

definition mk_pos :: "int \<Rightarrow> int \<Rightarrow> position" where
  "mk_pos x y = \<lparr>pos_x = x, pos_y = y\<rparr>"

text \<open>Zero-initialised storage.\<close>

definition entity_zero :: entity where
  "entity_zero = \<lparr>pos = mk_pos 0 0, dir = DIR_NONE, etype = ENTITY_NONE, active = False, speed_counter = 0, speed_limit = 0\<rparr>"

definition player_zero :: player where
  "player_zero = \<lparr>p_base = entity_zero, p_state = PLAYER_IDLE, facing_dir = DIR_NONE, is_pumping = False,
     pump_length = 0, pump_dir = DIR_NONE, is_attacking = False, attack_timer = 0\<rparr>"

definition enemy_zero :: enemy where
  "enemy_zero = \<lparr>e_base = entity_zero, e_state = ENEMY_NORMAL, inflate_level = 0, ghost_timer = 0,
     fire_start_time = 0, fire_end_time = 0, fire_active = False, fire_duration = 0, paralyzed_timer = 0,
     e_blink_count = 0, has_left_tunnel = False\<rparr>"

definition rock_zero :: rock where
  "rock_zero = \<lparr>r_base = entity_zero, r_state = ROCK_STABLE, wobble_timer = 0, has_crushed = False,
     r_blink_timer = 0, r_blink_count = 0\<rparr>"

text \<open>The \<open>switch\<close> on a direction that moves a pair of coordinates by one cell; it appears in
  several routines of the source.\<close>

definition dir_dx :: "direction \<Rightarrow> int" where
  "dir_dx d = (case d of DIR_LEFT \<Rightarrow> -1 | DIR_RIGHT \<Rightarrow> 1 | _ \<Rightarrow> 0)"

definition dir_dy :: "direction \<Rightarrow> int" where
  "dir_dy d = (case d of DIR_UP \<Rightarrow> -1 | DIR_DOWN \<Rightarrow> 1 | _ \<Rightarrow> 0)"

definition IS_SKY :: "int \<Rightarrow> bool" where
  "IS_SKY row \<longleftrightarrow> row \<ge> ROW_SKY_START \<and> row \<le> ROW_SKY_END"

definition IN_PLAYABLE_AREA :: "int \<Rightarrow> int \<Rightarrow> bool" where
  "IN_PLAYABLE_AREA x y \<longleftrightarrow> x \<ge> 0 \<and> x < MAP_WIDTH \<and> y \<ge> ROW_SKY_START \<and> y \<le> ROW_GROUND_END"

section \<open>Lemmas\<close>

lemma mk_pos_simps [simp]:
  "pos_x (mk_pos x y) = x" "pos_y (mk_pos x y) = y" "mk_pos (pos_x p) (pos_y p) = p"
  "mk_pos x y = mk_pos x' y' \<longleftrightarrow> x = x' \<and> y = y'"
  by (simp_all add: mk_pos_def)

lemma dir_simps [simp]:
  "dir_dx DIR_NONE = 0" "dir_dx DIR_UP = 0" "dir_dx DIR_DOWN = 0" "dir_dx DIR_LEFT = -1" "dir_dx DIR_RIGHT = 1"
  "dir_dy DIR_NONE = 0" "dir_dy DIR_UP = -1" "dir_dy DIR_DOWN = 1" "dir_dy DIR_LEFT = 0" "dir_dy DIR_RIGHT = 0"
  by (simp_all add: dir_dx_def dir_dy_def)

lemma position_eq_iff: "p = q \<longleftrightarrow> pos_x p = pos_x q \<and> pos_y p = pos_y q" for p q :: position
  by (cases p; cases q) simp

end
