(* ===== verification/Game_Map.thy ===== *)
theory Game_Map
  imports Game_Types
begin

text \<open>
  \<open>project/game_map.c\<close>: the tile map, its generation and the pseudo-random numbers. The map is a
  function of column and row; positions outside it are never read. The line drawing in
  floating point (\<open>map_draw_line\<close>) and its two callers, which the game does not use, are left
  out.
\<close>

section \<open>Definitions\<close>

record game_map =
  g_map :: "int \<Rightarrow> int \<Rightarrow> tile_type"
  gem_positions :: "(int \<times> int) list"
  seed :: u32

definition map_is_valid_position :: "int \<Rightarrow> int \<Rightarrow> bool" where
  "map_is_valid_position x y \<longleftrightarrow> x \<ge> 0 \<and> x < MAP_WIDTH \<and> y \<ge> 0 \<and> y < MAP_HEIGHT"

definition map_get_tile :: "int \<Rightarrow> int \<Rightarrow> game_map \<Rightarrow> tile_type" where
  "map_get_tile x y m = (if \<not> map_is_valid_position x y then TILE_WALL else g_map m x y)"

definition map_set_tile :: "int \<Rightarrow> int \<Rightarrow> tile_type \<Rightarrow> game_map \<Rightarrow> game_map" where
  "map_set_tile x y type m =
     (if \<not> map_is_valid_position x y then m
      else m\<lparr>g_map := (g_map m)(x := (g_map m x)(y := type))\<rparr>)"

definition map_is_walkable :: "int \<Rightarrow> int \<Rightarrow> game_map \<Rightarrow> bool" where
  "map_is_walkable x y m =
     (let tile = map_get_tile x y m
      in tile = TILE_EMPTY \<or> tile = TILE_GEM \<or> tile = TILE_BONUS \<or> tile = TILE_SKY \<or> tile = TILE_BORDER)"

definition map_is_solid :: "int \<Rightarrow> int \<Rightarrow> game_map \<Rightarrow> bool" where
  "map_is_solid x y m = (let tile = map_get_tile x y m in tile = TILE_DIRT \<or> tile = TILE_WALL)"

definition map_is_diggable :: "int \<Rightarrow> int \<Rightarrow> game_map \<Rightarrow> bool" where
  "map_is_diggable x y m = (map_get_tile x y m = TILE_DIRT)"

definition map_dig :: "int \<Rightarrow> int \<Rightarrow> game_map \<Rightarrow> game_map" where
  "map_dig x y m = (if map_is_diggable x y m then map_set_tile x y TILE_EMPTY m else m)"

definition map_place_tile :: "int \<Rightarrow> int \<Rightarrow> tile_type \<Rightarrow> game_map \<Rightarrow> game_map" where
  "map_place_tile x y type m = map_set_tile x y type m"

text \<open>A double loop over rows and columns.\<close>

definition for_rows :: "int \<Rightarrow> int \<Rightarrow> int \<Rightarrow> int \<Rightarrow> (int \<Rightarrow> int \<Rightarrow> 's \<Rightarrow> 's) \<Rightarrow> 's \<Rightarrow> 's" where
  "for_rows x1 x2 y1 y2 f s = fold (\<lambda>y. fold (\<lambda>x. f x y) [x1..x2]) [y1..y2] s"

definition map_clear :: "game_map \<Rightarrow> game_map" where
  "map_clear m =
     (for_rows 0 (MAP_WIDTH - 1) 0 (MAP_HEIGHT - 1)
        (\<lambda>x y m. m\<lparr>g_map := (g_map m)(x := (g_map m x)(y := TILE_EMPTY))\<rparr>) m)\<lparr>gem_positions := []\<rparr>"

subsection \<open>Gems\<close>

definition map_count_gems :: "game_map \<Rightarrow> int" where
  "map_count_gems m =
     for_rows 0 (MAP_WIDTH - 1) 0 (MAP_HEIGHT - 1) (\<lambda>x y count. if g_map m x y = TILE_GEM then count + 1 else count) 0"

definition random_int :: "int \<Rightarrow> game_map \<Rightarrow> int \<times> game_map" where
  "random_int mx m =
     (let m = m\<lparr>seed := seed m * 1103515245 + 12345\<rparr>
      in (sint (seed m mod of_int mx), m))"

primrec place_gems_loop :: "nat \<Rightarrow> int \<Rightarrow> int \<Rightarrow> game_map \<Rightarrow> game_map" where
  "place_gems_loop 0 placed count m = m"
| "place_gems_loop (Suc attempts_left) placed count m =
     (if placed < count then
        let (x, m) = random_int MAP_WIDTH m;
            (y, m) = random_int MAP_HEIGHT m in
        if map_get_tile x y m = TILE_EMPTY then
          let m = map_set_tile x y TILE_GEM m;
              m = (if length (gem_positions m) < MAX_GEMS
                   then m\<lparr>gem_positions := gem_positions m @ [(x, y)]\<rparr> else m)
          in place_gems_loop attempts_left (placed + 1) count m
        else place_gems_loop attempts_left placed count m
      else m)"

definition map_place_gems :: "int \<Rightarrow> game_map \<Rightarrow> game_map" where
  "map_place_gems count m = place_gems_loop (nat (count * 10)) 0 count (m\<lparr>gem_positions := []\<rparr>)"

fun remove_first :: "'a \<Rightarrow> 'a list \<Rightarrow> 'a list" where
  "remove_first v [] = []"
| "remove_first v (w # ws) = (if v = w then ws else w # remove_first v ws)"

definition map_remove_gem :: "int \<Rightarrow> int \<Rightarrow> game_map \<Rightarrow> game_map" where
  "map_remove_gem x y m =
     (if map_get_tile x y m = TILE_GEM then
        let m = map_set_tile x y TILE_EMPTY m
        in m\<lparr>gem_positions := remove_first (x, y) (gem_positions m)\<rparr>
      else m)"

definition map_has_gem :: "int \<Rightarrow> int \<Rightarrow> game_map \<Rightarrow> bool" where
  "map_has_gem x y m = (map_get_tile x y m = TILE_GEM)"

subsection \<open>Generation\<close>

definition map_create_borders :: "game_map \<Rightarrow> game_map" where
  "map_create_borders m =
     (let m = fold (\<lambda>x m. map_set_tile x (MAP_HEIGHT - 1) TILE_WALL (map_set_tile x 0 TILE_WALL m)) [0..MAP_WIDTH - 1] m;
          m = fold (\<lambda>y m. map_set_tile (MAP_WIDTH - 1) y TILE_WALL (map_set_tile 0 y TILE_WALL m)) [0..MAP_HEIGHT - 1] m
      in fold (\<lambda>x. map_set_tile x ROW_BORDER TILE_BORDER) [0..MAP_WIDTH - 1] m)"

definition place_dirt_at :: "int \<Rightarrow> int \<Rightarrow> int \<Rightarrow> game_map \<Rightarrow> game_map" where
  "place_dirt_at density x y m =
     (if map_get_tile x y m = TILE_WALL then m
      else if y \<le> ROW_SKY_END then map_set_tile x y TILE_SKY m
      else if density \<ge> 100 then map_set_tile x y TILE_DIRT m
      else let (r, m) = random_int 100 m
           in if r < density then map_set_tile x y TILE_DIRT m else map_set_tile x y TILE_EMPTY m)"

definition place_random_dirt :: "int \<Rightarrow> game_map \<Rightarrow> game_map" where
  "place_random_dirt density m = for_rows 1 (MAP_WIDTH - 2) 1 (MAP_HEIGHT - 2) (place_dirt_at density) m"

definition map_fill_area :: "int \<Rightarrow> int \<Rightarrow> int \<Rightarrow> int \<Rightarrow> tile_type \<Rightarrow> game_map \<Rightarrow> game_map" where
  "map_fill_area x1 y1 x2 y2 type m =
     (let (x1, x2) = (if x1 > x2 then (x2, x1) else (x1, x2));
          (y1, y2) = (if y1 > y2 then (y2, y1) else (y1, y2))
      in for_rows x1 x2 y1 y2 (\<lambda>x y m. if map_is_valid_position x y then map_set_tile x y type m else m) m)"

definition map_generate_level :: "int \<Rightarrow> game_map \<Rightarrow> game_map" where
  "map_generate_level level m =
     (let m = map_create_borders m;
          m = place_random_dirt 100 m
      in map_fill_area 1 ROW_SKY_START 5 ROW_SKY_END TILE_SKY m)"

definition map_create_dirt_pattern :: "int \<Rightarrow> game_map \<Rightarrow> game_map" where
  "map_create_dirt_pattern level m =
     (let dirt_density = 60 + level * 5
      in place_random_dirt (if dirt_density > 85 then 85 else dirt_density) m)"

definition map_init :: "int \<Rightarrow> game_map \<Rightarrow> game_map" where
  "map_init level m = map_generate_level level (map_clear m)"

subsection \<open>Random positions\<close>

primrec random_empty_loop :: "nat \<Rightarrow> game_map \<Rightarrow> (bool \<times> position) \<times> game_map" where
  "random_empty_loop 0 m = ((False, mk_pos 1 1), m)"
| "random_empty_loop (Suc n) m =
     (let (x, m) = random_int (MAP_WIDTH - 2) m;
          (y, m) = random_int (MAP_HEIGHT - 2) m
      in if map_is_walkable (1 + x) (1 + y) m then ((True, mk_pos (1 + x) (1 + y)), m)
         else random_empty_loop n m)"

definition map_get_random_empty_position :: "game_map \<Rightarrow> (bool \<times> position) \<times> game_map" where
  "map_get_random_empty_position m = random_empty_loop 100 m"

primrec safe_spawn_loop :: "nat \<Rightarrow> int \<Rightarrow> game_map \<Rightarrow> (bool \<times> position) \<times> game_map" where
  "safe_spawn_loop 0 min_distance m = map_get_random_empty_position m"
| "safe_spawn_loop (Suc n) min_distance m =
     (let ((found, c), m) = map_get_random_empty_position m;
          dx = pos_x c - 1; dy = pos_y c - 1;
          distance = dx * dx + dy * dy
      in if found \<and> distance \<ge> min_distance * min_distance then ((True, c), m)
         else safe_spawn_loop n min_distance m)"

definition map_get_safe_spawn_position :: "int \<Rightarrow> game_map \<Rightarrow> (bool \<times> position) \<times> game_map" where
  "map_get_safe_spawn_position min_distance m = safe_spawn_loop 50 min_distance m"

section \<open>Lemmas\<close>

lemma map_get_set [simp]:
  "map_get_tile x y (map_set_tile x' y' t m) =
     (if map_is_valid_position x y \<and> x = x' \<and> y = y' then t else map_get_tile x y m)"
  by (auto simp: map_get_tile_def map_set_tile_def)

lemma map_set_tile_simps [simp]:
  "gem_positions (map_set_tile x y t m) = gem_positions m" "seed (map_set_tile x y t m) = seed m"
  by (simp_all add: map_set_tile_def)

lemma walkable_not_solid: "map_is_walkable x y m \<longleftrightarrow> \<not> map_is_solid x y m"
  by (cases "map_get_tile x y m") (simp_all add: map_is_walkable_def map_is_solid_def)

lemma walkable_valid: "map_is_walkable x y m \<Longrightarrow> map_is_valid_position x y"
  by (simp add: map_is_walkable_def map_get_tile_def Let_def split: if_splits)

lemma diggable_valid: "map_is_diggable x y m \<Longrightarrow> map_is_valid_position x y"
  by (simp add: map_is_diggable_def map_get_tile_def split: if_splits)

lemma map_dig_get:
  "map_get_tile x y (map_dig x' y' m) =
     (if x = x' \<and> y = y' \<and> map_is_diggable x y m then TILE_EMPTY else map_get_tile x y m)"
  using diggable_valid by (auto simp: map_dig_def)

text \<open>A loop whose body at a position changes only what is observed there changes each
  cell of its range once.\<close>

lemma fold_cells:
  fixes obs :: "int \<Rightarrow> int \<Rightarrow> 's \<Rightarrow> 'v"
  assumes f: "\<And>i a b m. obs a b (f i m) =
      (if P i a b then g a b (obs a b m) else obs a b m)"
    and d: "distinct xs" and P: "\<And>i j a b. P i a b \<Longrightarrow> P j a b \<Longrightarrow> i = j"
  shows "obs a b (fold f xs m) =
      (if \<exists>i\<in>set xs. P i a b then g a b (obs a b m) else obs a b m)"
  using d
proof (induction xs arbitrary: m)
  case (Cons i xs)
  have "P i a b \<Longrightarrow> \<not> (\<exists>j\<in>set xs. P j a b)" using P Cons.prems by auto
  then show ?case using Cons by (auto simp: f)
qed simp

lemma for_rows_cells:
  fixes obs :: "int \<Rightarrow> int \<Rightarrow> 's \<Rightarrow> 'v"
  assumes f: "\<And>x y a b m. obs a b (f x y m) =
      (if a = x \<and> b = y then g a b (obs a b m) else obs a b m)"
  shows "obs a b (for_rows x1 x2 y1 y2 f m) =
      (if x1 \<le> a \<and> a \<le> x2 \<and> y1 \<le> b \<and> b \<le> y2 then g a b (obs a b m) else obs a b m)"
proof -
  have row: "obs a b (fold (\<lambda>x. f x y) [x1..x2] m) =
      (if (x1 \<le> a \<and> a \<le> x2) \<and> b = y then g a b (obs a b m) else obs a b m)" for y a b m
  proof -
    have "obs a b (fold (\<lambda>x. f x y) [x1..x2] m) =
      (if \<exists>i\<in>set [x1..x2]. a = i \<and> b = y then g a b (obs a b m) else obs a b m)"
      by (rule fold_cells) (auto simp: f)
    then show ?thesis by auto
  qed
  have "obs a b (fold (\<lambda>y. fold (\<lambda>x. f x y) [x1..x2]) [y1..y2] m) =
      (if \<exists>i\<in>set [y1..y2]. (x1 \<le> a \<and> a \<le> x2) \<and> b = i then g a b (obs a b m) else obs a b m)"
    by (rule fold_cells) (auto simp: row)
  then show ?thesis by (auto simp: for_rows_def)
qed

lemmas for_rows_pointwise = for_rows_cells [of map_get_tile]

text \<open>A grid of cells: the contract of the tile map and of the screen buffer of the renderer. What a
  routine draws is read off cell by cell.\<close>

locale grid =
  fixes valid :: "int \<Rightarrow> int \<Rightarrow> bool" and get :: "int \<Rightarrow> int \<Rightarrow> 's \<Rightarrow> 'v" and put :: "int \<Rightarrow> int \<Rightarrow> 'v \<Rightarrow> 's \<Rightarrow> 's"
  assumes get_put: "get a b (put x y v s) = (if valid a b \<and> a = x \<and> b = y then v else get a b s)"
begin

lemma get_fold_put:
  "get a b (fold (\<lambda>i s. put (u i) (w i) v s) xs s) = (if valid a b \<and> (\<exists>i\<in>set xs. a = u i \<and> b = w i) then v else get a b s)"
  by (induction xs arbitrary: s) (auto simp: get_put)

lemma get_line:
  "get a b (fold (\<lambda>i s. if valid (u i) (w i) then put (u i) (w i) v s else s) xs s) =
     (if valid a b \<and> (\<exists>i\<in>set xs. a = u i \<and> b = w i) then v else get a b s)"
  by (induction xs arbitrary: s) (auto simp: get_put)

lemma get_rect:
  "get a b (for_rows x1 x2 y1 y2 (\<lambda>x y s. if valid x y then put x y (v x y) s else s) s) =
     (if valid a b \<and> x1 \<le> a \<and> a \<le> x2 \<and> y1 \<le> b \<and> b \<le> y2 then v a b else get a b s)"
proof -
  have "get a b (for_rows x1 x2 y1 y2 (\<lambda>x y s. if valid x y then put x y (v x y) s else s) s) =
     (if x1 \<le> a \<and> a \<le> x2 \<and> y1 \<le> b \<and> b \<le> y2 then if valid a b then v a b else get a b s else get a b s)"
    by (rule for_rows_cells [where g = "\<lambda>a b t. if valid a b then v a b else t"]) (auto simp: get_put)
  then show ?thesis by auto
qed

end

interpretation tiles: grid map_is_valid_position map_get_tile map_set_tile
  by unfold_locales (rule map_get_set)

lemma fold_keeps: "(\<And>i m. h (f i m) = h m) \<Longrightarrow> h (fold f xs m) = h m"
  by (induction xs arbitrary: m) simp_all

lemma for_rows_keeps: "(\<And>x y m. h (f x y m) = h m) \<Longrightarrow> h (for_rows x1 x2 y1 y2 f m) = h m"
  unfolding for_rows_def by (intro fold_keeps)

text \<open>What each generation step does to a tile.\<close>

lemma map_clear_tile: "map_get_tile x y (map_clear m) = (if map_is_valid_position x y then TILE_EMPTY else TILE_WALL)"
proof -
  define f where "f = (\<lambda>x y m. m\<lparr>g_map := (g_map m)(x := (g_map m x)(y := TILE_EMPTY))\<rparr> :: game_map)"
  have "map_get_tile a b (f x y m) = (if a = x \<and> b = y then (if map_is_valid_position a b then TILE_EMPTY else TILE_WALL)
      else map_get_tile a b m)" for a b x y m
    by (auto simp: f_def map_get_tile_def)
  note p = for_rows_pointwise [where f = f and g = "\<lambda>a b t. if map_is_valid_position a b then TILE_EMPTY else TILE_WALL", OF this]
  have "map_get_tile x y (map_clear m) = map_get_tile x y (for_rows 0 79 0 23 f m)"
    by (simp add: map_clear_def map_get_tile_def f_def)
  then show ?thesis by (simp add: p) (auto simp: map_get_tile_def map_is_valid_position_def)
qed

lemma map_fill_area_tile:
  "map_get_tile x y (map_fill_area x1 y1 x2 y2 t m) =
     (if map_is_valid_position x y \<and> min x1 x2 \<le> x \<and> x \<le> max x1 x2 \<and> min y1 y2 \<le> y \<and> y \<le> max y1 y2 then t
      else map_get_tile x y m)"
  by (auto simp: map_fill_area_def tiles.get_rect [where v = "\<lambda>_ _. t"] Let_def)

lemma place_random_dirt_tile:
  assumes "density \<ge> 100"
  shows "map_get_tile x y (place_random_dirt density m) =
    (if 1 \<le> x \<and> x \<le> 78 \<and> 1 \<le> y \<and> y \<le> 22 \<and> map_get_tile x y m \<noteq> TILE_WALL
     then if y \<le> 2 then TILE_SKY else TILE_DIRT else map_get_tile x y m)"
proof -
  have wall: "\<not> map_is_valid_position a b \<Longrightarrow> map_get_tile a b m = TILE_WALL" for a b m
    by (simp add: map_get_tile_def)
  then have "map_get_tile a b (place_dirt_at density x y m) = (if a = x \<and> b = y then
      (if map_get_tile a b m = TILE_WALL then map_get_tile a b m else if b \<le> 2 then TILE_SKY else TILE_DIRT)
      else map_get_tile a b m)" for a b x y m
    using assms by (auto simp: place_dirt_at_def)
  note p = for_rows_pointwise [where f = "place_dirt_at density" and
      g = "\<lambda>a b t. if t = TILE_WALL then t else if b \<le> 2 then TILE_SKY else TILE_DIRT", OF this]
  show ?thesis by (simp add: place_random_dirt_def p)
qed

lemma fold_set_tiles:
  "map_get_tile x y (fold (\<lambda>i m. map_set_tile (u i) (v i) t (map_set_tile (u' i) (v' i) t m)) xs m) =
     (if map_is_valid_position x y \<and> (\<exists>i\<in>set xs. x = u i \<and> y = v i \<or> x = u' i \<and> y = v' i) then t
      else map_get_tile x y m)"
proof (induction xs arbitrary: m)
  case (Cons i xs)
  show ?case unfolding fold_Cons o_apply Cons.IH map_get_set by (simp only: list.set bex_simps insert_iff split: if_split) blast
qed simp

lemma map_create_borders_tile:
  "map_get_tile x y (map_create_borders m) =
     (if \<not> map_is_valid_position x y then TILE_WALL
      else if y = 23 then TILE_BORDER
      else if y = 0 \<or> x = 0 \<or> x = 79 then TILE_WALL else map_get_tile x y m)"
proof -
  have last: "map_get_tile x y (fold (\<lambda>x. map_set_tile x 23 TILE_BORDER) xs m) =
     (if map_is_valid_position x y \<and> x \<in> set xs \<and> y = 23 then TILE_BORDER else map_get_tile x y m)" for xs m
    by (simp add: tiles.get_fold_put [of x y "\<lambda>i. i"])
  have "map_get_tile x y m = TILE_WALL" if "\<not> map_is_valid_position x y" using that by (simp add: map_get_tile_def)
  then show ?thesis
    by (simp add: map_create_borders_def Let_def last fold_set_tiles) (auto simp: map_is_valid_position_def)
qed

lemma uint_mod_int: "0 < n \<Longrightarrow> n < 2 ^ 32 \<Longrightarrow> uint (w mod of_int n :: u32) = uint w mod n"
proof -
  assume "0 < n" "n < 2 ^ 32"
  have "uint (of_int n :: u32) = take_bit 32 n" by (simp only: unsigned_of_int) simp
  also have "\<dots> = n" using \<open>0 < n\<close> \<open>n < 2 ^ 32\<close> by (intro take_bit_int_eq_self) simp_all
  finally show ?thesis by (simp add: uint_mod)
qed

lemma sint_uint_small: "uint w < 2 ^ 31 \<Longrightarrow> sint w = uint w" for w :: u32
proof -
  assume "uint w < 2 ^ 31"
  moreover have "- (2 ^ 31) \<le> uint w" by (rule order_trans [of _ 0]) simp_all
  ultimately show ?thesis by (simp only: sint_uint) (simp add: signed_take_bit_int_eq_self_iff)
qed

lemma random_int_range:
  assumes "0 < n" "n < 2 ^ 31"
  shows "0 \<le> fst (random_int n m)" "fst (random_int n m) < n"
proof -
  have "sint (w mod of_int n :: u32) = uint w mod n" for w
  proof -
    have u: "uint (w mod of_int n :: u32) = uint w mod n" using assms by (intro uint_mod_int) simp_all
    then have "uint (w mod of_int n :: u32) < 2 ^ 31" using assms pos_mod_bound [of n "uint w"] by linarith
    then show ?thesis by (simp add: u sint_uint_small)
  qed
  then show "0 \<le> fst (random_int n m)" "fst (random_int n m) < n" using assms by (simp_all add: random_int_def Let_def)
qed

lemma random_int_map [simp]: "g_map (snd (random_int n m)) = g_map m"
  by (simp add: random_int_def Let_def)

lemma map_generate_gems: "gem_positions (map_generate_level level m) = gem_positions m"
proof -
  have "gem_positions (place_dirt_at 100 x y m) = gem_positions m" for x y m
    by (simp add: place_dirt_at_def)
  then show ?thesis
    by (simp add: map_generate_level_def map_fill_area_def place_random_dirt_def map_create_borders_def
        for_rows_keeps [where h = gem_positions] fold_keeps [where h = gem_positions])
qed

lemma map_init_tile:
  "map_get_tile x y (map_init level m) =
     (if \<not> map_is_valid_position x y then TILE_WALL
      else if y = ROW_BORDER then TILE_BORDER
      else if y = 0 \<or> x = 0 \<or> x = MAP_WIDTH - 1 then TILE_WALL
      else if IS_SKY y then TILE_SKY else TILE_DIRT)"
proof (cases "map_is_valid_position x y \<and> \<not> (y = 23 \<or> y = 0 \<or> x = 0 \<or> x = 79)")
  case True
  then have v: "map_is_valid_position x y" "1 \<le> x" "x \<le> 78" "1 \<le> y" "y \<le> 22" "y \<noteq> 23" "y \<noteq> 0" "x \<noteq> 0" "x \<noteq> 79"
    by (auto simp: map_is_valid_position_def)
  then show ?thesis
    unfolding map_init_def map_generate_level_def Let_def map_fill_area_tile
    by (simp add: place_random_dirt_tile map_create_borders_tile map_clear_tile IS_SKY_def)
next
  case False
  then consider "\<not> map_is_valid_position x y" | "map_is_valid_position x y" "y = 23"
    | "map_is_valid_position x y" "y \<noteq> 23" "y = 0 \<or> x = 0 \<or> x = 79" by blast
  then show ?thesis
    by cases (simp_all add: map_init_def map_generate_level_def map_fill_area_tile place_random_dirt_tile
      map_create_borders_tile map_get_tile_def [of x y "map_init level m"], auto)
qed

section \<open>Properties\<close>

text \<open>Property C36 (map_init_layout). Whatever the map held, \<open>map_init\<close> leaves exactly the layout of
  a new level: the bottom row is border, the top row and the two side columns are wall, the rest
  of the sky rows is sky, every other cell is dirt, and no gem is recorded.\<close>

theorem map_init_layout:
  "gem_positions (map_init level m) = [] \<and> map_get_tile x y (map_init level m) =
     (if \<not> map_is_valid_position x y then TILE_WALL
      else if y = ROW_BORDER then TILE_BORDER
      else if y = 0 \<or> x = 0 \<or> x = MAP_WIDTH - 1 then TILE_WALL
      else if IS_SKY y then TILE_SKY else TILE_DIRT)"
  using map_init_tile [of x y level m] map_generate_gems [of level "map_clear m"]
  by (simp add: map_init_def map_clear_def)

end
