(* ===== verification/Game_Entities.thy ===== *)
theory Game_Entities
  imports Game_Map
begin

text \<open>
  \<open>project/game_entities.c\<close>: the generic entities, their movement on the map and their collisions.
  A routine that updates the entity behind a pointer returns the updated entity; one that
  changes the map as well passes a pair. Callers pass addresses of entities, so the early
  return on a null pointer is modelled only where it yields a value: there the argument is an
  \<open>option\<close>. Arrays are lists with an explicit \<open>count\<close>.
\<close>

section \<open>Definitions\<close>

definition entity_init :: "int \<Rightarrow> int \<Rightarrow> entity_type \<Rightarrow> entity" where
  "entity_init x y type =
     \<lparr>pos = mk_pos x y, dir = DIR_NONE, etype = type, active = True, speed_counter = 0,
      speed_limit =
        (case type of
           ENTITY_PLAYER \<Rightarrow> PLAYER_SPEED
         | ENTITY_ENEMY \<Rightarrow> POOKA_BASE_SPEED
         | ENTITY_POOKA \<Rightarrow> POOKA_BASE_SPEED
         | ENTITY_FYGAR \<Rightarrow> FYGAR_BASE_SPEED
         | _ \<Rightarrow> 1)\<rparr>"

definition entity_next_pos :: "entity \<Rightarrow> direction \<Rightarrow> position" where
  "entity_next_pos e d =
     (case d of
        DIR_UP \<Rightarrow> (pos e)\<lparr>pos_y := pos_y (pos e) - 1\<rparr>
      | DIR_DOWN \<Rightarrow> (pos e)\<lparr>pos_y := pos_y (pos e) + 1\<rparr>
      | DIR_LEFT \<Rightarrow> (pos e)\<lparr>pos_x := pos_x (pos e) - 1\<rparr>
      | DIR_RIGHT \<Rightarrow> (pos e)\<lparr>pos_x := pos_x (pos e) + 1\<rparr>
      | DIR_NONE \<Rightarrow> pos e)"

definition entity_can_move :: "entity \<Rightarrow> direction \<Rightarrow> game_map \<Rightarrow> bool" where
  "entity_can_move e d m =
     (if \<not> active e then False
      else
        let p = entity_next_pos e d in
        if \<not> map_is_valid_position (pos_x p) (pos_y p) then False
        else if etype e = ENTITY_PLAYER then map_is_walkable (pos_x p) (pos_y p) m \<or> map_is_diggable (pos_x p) (pos_y p) m
        else map_is_walkable (pos_x p) (pos_y p) m)"

definition entity_move :: "direction \<Rightarrow> game_map \<Rightarrow> entity \<Rightarrow> entity" where
  "entity_move d m e =
     (if \<not> active e then e
      else
        let next_pos = entity_next_pos e d in
        if entity_can_move e d m then e\<lparr>pos := next_pos, dir := d\<rparr> else e)"

definition entity_set_position :: "int \<Rightarrow> int \<Rightarrow> entity \<Rightarrow> entity" where
  "entity_set_position x y e = e\<lparr>pos := mk_pos x y\<rparr>"

subsection \<open>The player\<close>

definition player_init :: "int \<Rightarrow> int \<Rightarrow> entity" where
  "player_init x y = (entity_init x y ENTITY_PLAYER)\<lparr>speed_limit := PLAYER_SPEED\<rparr>"

definition player_collect_gem :: "int \<Rightarrow> int \<Rightarrow> entity \<Rightarrow> game_map \<Rightarrow> game_map" where
  "player_collect_gem x y p m =
     (if \<not> active p then m else if map_has_gem x y m then map_remove_gem x y m else m)"

definition player_reset_position :: "entity \<Rightarrow> entity" where
  "player_reset_position p = p\<lparr>pos := mk_pos 1 1, dir := DIR_NONE, active := True\<rparr>"

definition player_can_dig :: "entity \<Rightarrow> direction \<Rightarrow> game_map \<Rightarrow> bool" where
  "player_can_dig p d m =
     (if \<not> active p then False
      else let next_pos = entity_next_pos p d in map_is_diggable (pos_x next_pos) (pos_y next_pos) m)"

definition player_dig :: "entity \<Rightarrow> direction \<Rightarrow> game_map \<Rightarrow> game_map" where
  "player_dig p d m =
     (if \<not> active p then m
      else
        let dig_pos = entity_next_pos p d in
        if map_is_diggable (pos_x dig_pos) (pos_y dig_pos) m then map_dig (pos_x dig_pos) (pos_y dig_pos) m else m)"

definition player_update :: "direction \<Rightarrow> entity \<times> game_map \<Rightarrow> entity \<times> game_map" where
  "player_update input_dir pm =
     (let (p, m) = pm in
      if \<not> active p then (p, m)
      else if input_dir \<noteq> DIR_NONE then
        let m = (if player_can_dig p input_dir m then player_dig p input_dir m else m);
            p = entity_move input_dir m p;
            m = (if map_has_gem (pos_x (pos p)) (pos_y (pos p)) m
                 then player_collect_gem (pos_x (pos p)) (pos_y (pos p)) p m else m)
        in (p, m)
      else (p, m))"

subsection \<open>Enemies\<close>

definition enemy_init :: "int \<Rightarrow> int \<Rightarrow> entity" where
  "enemy_init x y = (entity_init x y ENTITY_ENEMY)\<lparr>speed_limit := POOKA_BASE_SPEED\<rparr>"

definition enemy_ai_direction :: "entity \<Rightarrow> position \<Rightarrow> direction" where
  "enemy_ai_direction e target =
     (if \<not> active e then DIR_NONE
      else
        let dx = pos_x target - pos_x (pos e); dy = pos_y target - pos_y (pos e) in
        if dx = 0 \<and> dy = 0 then DIR_NONE
        else if \<bar>dx\<bar> > \<bar>dy\<bar> then if dx > 0 then DIR_RIGHT else DIR_LEFT
        else if dy > 0 then DIR_DOWN else DIR_UP)"

fun try_alternatives :: "direction list \<Rightarrow> direction \<Rightarrow> game_map \<Rightarrow> entity \<Rightarrow> entity" where
  "try_alternatives [] target_dir m e = e"
| "try_alternatives (d # ds) target_dir m e =
     (if d \<noteq> target_dir \<and> entity_can_move e d m then entity_move d m e else try_alternatives ds target_dir m e)"

definition enemy_update :: "position \<Rightarrow> game_map \<Rightarrow> entity \<Rightarrow> entity" where
  "enemy_update player_pos m e =
     (if \<not> active e then e
      else
        let e = e\<lparr>speed_counter := speed_counter e + 1\<rparr> in
        if speed_counter e < speed_limit e then e
        else
          let e = e\<lparr>speed_counter := 0\<rparr>;
              target_dir = enemy_ai_direction e player_pos in
          if target_dir \<noteq> DIR_NONE \<and> entity_can_move e target_dir m then entity_move target_dir m e
          else try_alternatives [DIR_UP, DIR_DOWN, DIR_LEFT, DIR_RIGHT] target_dir m e)"

definition enemy_reset_position :: "int \<Rightarrow> entity \<times> game_map \<Rightarrow> entity \<times> game_map" where
  "enemy_reset_position enemy_index em =
     (let (e, m) = em;
          ((ok, spawn_pos), m) = map_get_safe_spawn_position 5 m;
          i = cmod enemy_index 4;
          p = (if ok then spawn_pos
               else if i = 0 then mk_pos (MAP_WIDTH - 3) 3
               else if i = 1 then mk_pos (MAP_WIDTH - 3) (MAP_HEIGHT - 3)
               else if i = 2 then mk_pos 3 (MAP_HEIGHT - 3)
               else if i = 3 then mk_pos (MAP_WIDTH div 2) (MAP_HEIGHT div 2)
               else pos e)
      in (e\<lparr>pos := p, active := True, dir := DIR_NONE, speed_counter := 0\<rparr>, m))"

definition enemies_init_all :: "nat \<Rightarrow> entity list \<times> game_map \<Rightarrow> entity list \<times> game_map" where
  "enemies_init_all count =
     fold (\<lambda>i (es, m). let (e, m) = enemy_reset_position (int i) (enemy_init 0 0, m) in (es[i := e], m)) [0..<count]"

definition enemies_update_all :: "nat \<Rightarrow> position \<Rightarrow> game_map \<Rightarrow> entity list \<Rightarrow> entity list" where
  "enemies_update_all count player_pos m =
     fold (\<lambda>i es. if active (es ! i) then es[i := enemy_update player_pos m (es ! i)] else es) [0..<count]"

subsection \<open>Collisions and queries\<close>

definition check_collision :: "entity \<Rightarrow> entity \<Rightarrow> bool" where
  "check_collision a b =
     (if \<not> active a \<or> \<not> active b then False
      else pos_x (pos a) = pos_x (pos b) \<and> pos_y (pos a) = pos_y (pos b))"

fun collision_loop :: "nat list \<Rightarrow> entity \<Rightarrow> entity list \<Rightarrow> bool" where
  "collision_loop [] p es = False"
| "collision_loop (i # is) p es =
     (if active (es ! i) \<and> check_collision p (es ! i) then True else collision_loop is p es)"

definition check_player_enemy_collision :: "entity \<Rightarrow> entity list \<Rightarrow> nat \<Rightarrow> bool" where
  "check_player_enemy_collision p es count = (if \<not> active p then False else collision_loop [0..<count] p es)"

definition check_position_collision :: "position \<Rightarrow> position \<Rightarrow> bool" where
  "check_position_collision a b \<longleftrightarrow> pos_x a = pos_x b \<and> pos_y a = pos_y b"

definition entity_is_active :: "entity option \<Rightarrow> bool" where
  "entity_is_active e = (case e of None \<Rightarrow> False | Some e \<Rightarrow> active e)"

definition entity_deactivate :: "entity \<Rightarrow> entity" where
  "entity_deactivate e = e\<lparr>active := False\<rparr>"

definition entity_activate :: "entity \<Rightarrow> entity" where
  "entity_activate e = e\<lparr>active := True\<rparr>"

definition calculate_distance_squared :: "position \<Rightarrow> position \<Rightarrow> int" where
  "calculate_distance_squared a b =
     (let dx = pos_x a - pos_x b; dy = pos_y a - pos_y b in dx * dx + dy * dy)"

definition entity_get_direction_to :: "entity option \<Rightarrow> position \<Rightarrow> direction" where
  "entity_get_direction_to frm target = (case frm of None \<Rightarrow> DIR_NONE | Some e \<Rightarrow> enemy_ai_direction e target)"

definition entity_distance_to :: "entity option \<Rightarrow> position \<Rightarrow> int" where
  "entity_distance_to frm target =
     (case frm of None \<Rightarrow> 9999 | Some e \<Rightarrow> calculate_distance_squared (pos e) target)"

definition get_best_direction_to_target :: "position \<Rightarrow> position \<Rightarrow> direction" where
  "get_best_direction_to_target cur target =
     (let dx = pos_x target - pos_x cur; dy = pos_y target - pos_y cur in
      if \<bar>dx\<bar> > \<bar>dy\<bar> then if dx > 0 then DIR_RIGHT else DIR_LEFT
      else if dy \<noteq> 0 then if dy > 0 then DIR_DOWN else DIR_UP
      else DIR_NONE)"

definition is_direction_blocked :: "position \<Rightarrow> direction \<Rightarrow> game_map \<Rightarrow> bool" where
  "is_direction_blocked p d m =
     (case d of
        DIR_UP \<Rightarrow> \<not> map_is_walkable (pos_x p) (pos_y p - 1) m
      | DIR_DOWN \<Rightarrow> \<not> map_is_walkable (pos_x p) (pos_y p + 1) m
      | DIR_LEFT \<Rightarrow> \<not> map_is_walkable (pos_x p - 1) (pos_y p) m
      | DIR_RIGHT \<Rightarrow> \<not> map_is_walkable (pos_x p + 1) (pos_y p) m
      | DIR_NONE \<Rightarrow> True)"

section \<open>Lemmas\<close>

lemma entity_next_pos_eq: "entity_next_pos e d = mk_pos (pos_x (pos e) + dir_dx d) (pos_y (pos e) + dir_dy d)"
  by (cases d) (simp_all add: entity_next_pos_def position_eq_iff)

lemma entity_can_moveD:
  "entity_can_move e d m \<Longrightarrow> active e \<and> map_is_valid_position (pos_x (entity_next_pos e d)) (pos_y (entity_next_pos e d))"
  by (auto simp: entity_can_move_def Let_def split: if_splits)

lemma entity_move_eq: "entity_can_move e d m \<Longrightarrow> entity_move d m e = e\<lparr>pos := entity_next_pos e d, dir := d\<rparr>"
  using entity_can_moveD [of e d m] by (simp add: entity_move_def)

text \<open>The two direction choices of the file agree on an active entity.\<close>

lemma best_direction_ai: "active e \<Longrightarrow> get_best_direction_to_target (pos e) t = enemy_ai_direction e t"
  by (simp add: get_best_direction_to_target_def enemy_ai_direction_def Let_def)

lemma blocked_iff:
  assumes "active e" "etype e \<noteq> ENTITY_PLAYER" "d \<noteq> DIR_NONE"
  shows "is_direction_blocked (pos e) d m \<longleftrightarrow> \<not> entity_can_move e d m"
  using assms walkable_valid
  by (cases d) (auto simp: is_direction_blocked_def entity_can_move_def entity_next_pos_def Let_def)

text \<open>A step in the direction chosen by the enemy brings it closer.\<close>

lemma ai_direction_closer:
  assumes "enemy_ai_direction e t \<noteq> DIR_NONE"
  shows "calculate_distance_squared (entity_next_pos e (enemy_ai_direction e t)) t < calculate_distance_squared (pos e) t"
  using assms by (auto simp: enemy_ai_direction_def entity_next_pos_eq calculate_distance_squared_def Let_def algebra_simps split: if_splits)

lemma try_alternatives_cases:
  assumes "DIR_NONE \<notin> set ds"
  shows "(\<exists>d \<in> set ds. d \<noteq> t \<and> entity_can_move e d m \<and> try_alternatives ds t m e = entity_move d m e) \<or>
    try_alternatives ds t m e = e \<and> (\<forall>d \<in> set ds. d = t \<or> \<not> entity_can_move e d m)"
  using assms by (induction ds) auto

lemma collision_loop_iff: "collision_loop is p es \<longleftrightarrow> (\<exists>i \<in> set is. active (es ! i) \<and> check_collision p (es ! i))"
  by (induction "is") auto

lemma check_player_enemy_collision_iff:
  "check_player_enemy_collision p es count \<longleftrightarrow> (\<exists>i < count. check_collision p (es ! i))"
  by (auto simp: check_player_enemy_collision_def collision_loop_iff check_collision_def)

lemma enemies_update_all_eq:
  assumes "count \<le> length es"
  shows "enemies_update_all count q m es = map (enemy_update q m) (take count es) @ drop count es"
  using assms
proof (induction count)
  case 0
  then show ?case by (simp add: enemies_update_all_def)
next
  case (Suc n)
  have "enemy_update q m e = e" if "\<not> active e" for e using that by (simp add: enemy_update_def)
  then show ?case using Suc
    by (auto simp: enemies_update_all_def take_Suc_conv_app_nth nth_append list_update_append
      Cons_nth_drop_Suc [symmetric])
qed

text \<open>Digging opens exactly the cells that are not walls, and the player then moves there.\<close>

lemma dig_opens:
  assumes "active p" and m': "m' = (if player_can_dig p d m then player_dig p d m else m)" and q: "q = entity_next_pos p d"
  shows "\<not> map_is_diggable (pos_x q) (pos_y q) m'"
    "map_is_walkable (pos_x q) (pos_y q) m' \<longleftrightarrow> map_get_tile (pos_x q) (pos_y q) m \<noteq> TILE_WALL"
  using assms(1) diggable_valid [of "pos_x q" "pos_y q" m]
  by (cases "map_get_tile (pos_x q) (pos_y q) m";
      simp add: m' q player_can_dig_def player_dig_def map_is_diggable_def map_dig_def map_is_walkable_def Let_def)+

lemma player_update_moves:
  assumes "active p" "etype p = ENTITY_PLAYER" "d \<noteq> DIR_NONE" and q: "q = entity_next_pos p d"
    and r: "player_update d (p, m) = (p', m')"
  shows "pos p' = (if map_get_tile (pos_x q) (pos_y q) m \<noteq> TILE_WALL then q else pos p)"
    "\<not> map_has_gem (pos_x (pos p')) (pos_y (pos p')) m'"
proof -
  define m1 where "m1 = (if player_can_dig p d m then player_dig p d m else m)"
  note o = dig_opens [OF assms(1) m1_def q]
  have "entity_can_move p d m1 \<longleftrightarrow> map_get_tile (pos_x q) (pos_y q) m \<noteq> TILE_WALL"
    using assms(1,2) walkable_valid [of "pos_x q" "pos_y q" m1] o by (auto simp: entity_can_move_def q Let_def)
  moreover have p': "p' = entity_move d m1 p" using r assms(1,3) by (auto simp: player_update_def m1_def Let_def)
  ultimately show "pos p' = (if map_get_tile (pos_x q) (pos_y q) m \<noteq> TILE_WALL then q else pos p)"
    using assms(1) by (auto simp: entity_move_def q Let_def)
  have "active p'" using assms(1) by (simp add: p' entity_move_def Let_def)
  then have m': "m' = (if map_has_gem (pos_x (pos p')) (pos_y (pos p')) m1 then map_remove_gem (pos_x (pos p')) (pos_y (pos p')) m1 else m1)"
    using r assms(1,3) by (auto simp: player_update_def m1_def player_collect_gem_def Let_def)
  then show "\<not> map_has_gem (pos_x (pos p')) (pos_y (pos p')) m'"
    by (auto simp: map_has_gem_def map_remove_gem_def map_get_tile_def map_set_tile_def Let_def split: if_splits)
qed

section \<open>Properties\<close>

text \<open>Property C40 (enemy_chases). When its speed counter runs out, an enemy makes one step: towards the
  player if that cell is open, and then strictly closer to it; otherwise into another open
  neighbour, if there is one; it stays only when all four neighbours are closed.\<close>

theorem enemy_chases:
  assumes "active e" "etype e \<noteq> ENTITY_PLAYER" "speed_limit e \<le> speed_counter e + 1"
  shows "let e' = enemy_update q m e; d = enemy_ai_direction e q; free = (\<lambda>d. \<not> is_direction_blocked (pos e) d m) in
    speed_counter e' = 0 \<and>
    (if free d then pos e' = entity_next_pos e d \<and> entity_distance_to (Some e') q < entity_distance_to (Some e) q
     else if \<exists>d'. free d' then \<exists>d'. d' \<noteq> d \<and> free d' \<and> pos e' = entity_next_pos e d'
     else pos e' = pos e)"
proof -
  define d where "d = enemy_ai_direction e q"
  define f where "f = e\<lparr>speed_counter := 0\<rparr>"
  define e' where "e' = enemy_update q m e"
  have f: "active f" "etype f \<noteq> ENTITY_PLAYER" "pos f = pos e" "speed_counter f = 0" using assms by (simp_all add: f_def)
  have df: "enemy_ai_direction f q = d" and nf: "entity_next_pos f d' = entity_next_pos e d'" for d'
    by (simp_all add: d_def f_def enemy_ai_direction_def entity_next_pos_eq)
  have free: "\<not> is_direction_blocked (pos e) d' m \<longleftrightarrow> d' \<noteq> DIR_NONE \<and> entity_can_move f d' m" for d'
    using blocked_iff [OF f(1,2), of d' m] f(3) by (cases "d' = DIR_NONE") (simp_all add: is_direction_blocked_def)
  have upd: "e' = (if d \<noteq> DIR_NONE \<and> entity_can_move f d m then entity_move d m f
      else try_alternatives [DIR_UP, DIR_DOWN, DIR_LEFT, DIR_RIGHT] d m f)"
    using assms(1,3) df by (simp add: e'_def enemy_update_def f_def Let_def)
  have mv: "pos (entity_move d' m f) = entity_next_pos e d' \<and> speed_counter (entity_move d' m f) = 0"
    if "entity_can_move f d' m" for d' using that f(4) by (simp add: entity_move_eq nf)
  show ?thesis
  proof (cases "d \<noteq> DIR_NONE \<and> entity_can_move f d m")
    case True
    then show ?thesis using upd mv [of d] free [of d] ai_direction_closer [of e q]
      by (simp add: Let_def d_def [symmetric] e'_def [symmetric] entity_distance_to_def)
  next
    case False
    have all4: "d' \<in> set [DIR_UP, DIR_DOWN, DIR_LEFT, DIR_RIGHT]" if "d' \<noteq> DIR_NONE" for d' using that by (cases d') simp_all
    have ne: "DIR_NONE \<notin> set [DIR_UP, DIR_DOWN, DIR_LEFT, DIR_RIGHT]" by simp
    consider (moved) d' where "d' \<noteq> DIR_NONE" "d' \<noteq> d" "entity_can_move f d' m" "e' = entity_move d' m f"
      | (stuck) "e' = f" "\<And>d'. d' \<noteq> DIR_NONE \<Longrightarrow> \<not> entity_can_move f d' m"
      using try_alternatives_cases [OF ne, of d f m] upd False all4 ne by metis
    then show ?thesis
    proof cases
      case moved
      then show ?thesis using mv [of d'] free False
        by (auto simp: Let_def d_def [symmetric] e'_def [symmetric])
    next
      case stuck
      then show ?thesis using free f by (auto simp: Let_def d_def [symmetric] e'_def [symmetric])
    qed
  qed
qed

theorem enemy_chases_witness:
  "let m = \<lparr>g_map = (\<lambda>_ _. TILE_EMPTY), gem_positions = [], seed = 1\<rparr>;
       e = (enemy_init 10 10)\<lparr>speed_counter := 15\<rparr>;
       e' = enemy_update (mk_pos 20 12) m e
   in pos e' = mk_pos 11 10 \<and> entity_distance_to (Some e') (mk_pos 20 12) < 104"
proof -
  let ?m = "\<lparr>g_map = (\<lambda>_ _. TILE_EMPTY), gem_positions = [], seed = 1\<rparr>"
  let ?e = "(enemy_init 10 10)\<lparr>speed_counter := 15\<rparr>"
  have h: "active ?e" "etype ?e \<noteq> ENTITY_PLAYER" "speed_limit ?e \<le> speed_counter ?e + 1"
    and d: "enemy_ai_direction ?e (mk_pos 20 12) = DIR_RIGHT" "\<not> is_direction_blocked (pos ?e) DIR_RIGHT ?m"
      "entity_next_pos ?e DIR_RIGHT = mk_pos 11 10" "entity_distance_to (Some ?e) (mk_pos 20 12) = 104"
    by (simp_all add: enemy_init_def entity_init_def enemy_ai_direction_def is_direction_blocked_def map_is_walkable_def
      map_get_tile_def map_is_valid_position_def entity_next_pos_eq entity_distance_to_def calculate_distance_squared_def)
  show ?thesis using enemy_chases [OF h, of "mk_pos 20 12" ?m] d by (simp add: Let_def)
qed

end
