(* ===== verification/Game_PQ.thy ===== *)
theory Game_PQ
  imports Game_Types "HOL-Library.Multiset"
begin

text \<open>
  The priority queue of the path search in \<open>project/game_logic.c\<close>: a binary heap in an array of
  256 nodes. The locale \<open>min_queue\<close> says what the search relies on; the interpretation
  \<open>heap\<close> proves it of the array operations.
\<close>

section \<open>Definitions\<close>

abbreviation (input) MAX_PRIORITY_QUEUE_SIZE :: nat where "MAX_PRIORITY_QUEUE_SIZE \<equiv> 256"

text \<open>Costs are never negative, so they are natural numbers.\<close>

record dijkstra_node =
  n_pos :: position
  n_first_dir :: direction
  n_cost :: nat

record priority_queue =
  nodes :: "dijkstra_node list"
  pq_size :: nat

definition mk_node :: "position \<Rightarrow> direction \<Rightarrow> nat \<Rightarrow> dijkstra_node" where
  "mk_node p d c = \<lparr>n_pos = p, n_first_dir = d, n_cost = c\<rparr>"

text \<open>The storage: a static array.\<close>

definition pq_storage :: priority_queue where
  "pq_storage = \<lparr>nodes = replicate MAX_PRIORITY_QUEUE_SIZE (mk_node (mk_pos 0 0) DIR_NONE 0), pq_size = 0\<rparr>"

definition pq_init :: "priority_queue \<Rightarrow> priority_queue" where
  "pq_init pq = pq\<lparr>pq_size := 0\<rparr>"

definition pq_empty :: "priority_queue \<Rightarrow> bool" where
  "pq_empty pq \<longleftrightarrow> pq_size pq = 0"

definition pq_full :: "priority_queue \<Rightarrow> bool" where
  "pq_full pq \<longleftrightarrow> pq_size pq \<ge> MAX_PRIORITY_QUEUE_SIZE"

definition swap_nodes :: "nat \<Rightarrow> nat \<Rightarrow> dijkstra_node list \<Rightarrow> dijkstra_node list" where
  "swap_nodes i j ns = ns[i := ns ! j, j := ns ! i]"

fun bubble_up :: "nat \<Rightarrow> dijkstra_node list \<Rightarrow> dijkstra_node list" where
  "bubble_up i ns =
     (if i > 0 then
        let up = (i - 1) div 2 in
        if n_cost (ns ! i) \<ge> n_cost (ns ! up) then ns else bubble_up up (swap_nodes i up ns)
      else ns)"

definition smallest_of :: "nat \<Rightarrow> nat \<Rightarrow> dijkstra_node list \<Rightarrow> nat" where
  "smallest_of i n ns =
     (let left = 2 * i + 1; right = 2 * i + 2; smallest = i;
          smallest = (if left < n \<and> n_cost (ns ! left) < n_cost (ns ! smallest) then left else smallest)
      in if right < n \<and> n_cost (ns ! right) < n_cost (ns ! smallest) then right else smallest)"

function bubble_down :: "nat \<Rightarrow> nat \<Rightarrow> dijkstra_node list \<Rightarrow> dijkstra_node list" where
  "bubble_down i n ns =
     (let smallest = smallest_of i n ns
      in if smallest = i then ns else bubble_down smallest n (swap_nodes i smallest ns))"
  by pat_completeness auto

termination
  by (relation "measure (\<lambda>(i, n, ns). n - i)") (auto simp: smallest_of_def Let_def split: if_splits)

declare bubble_up.simps [simp del] bubble_down.simps [simp del]

definition pq_push :: "position \<Rightarrow> direction \<Rightarrow> nat \<Rightarrow> priority_queue \<Rightarrow> priority_queue" where
  "pq_push p first_dir cost pq =
     (if pq_full pq then pq
      else let ns = (nodes pq)[pq_size pq := mk_node p first_dir cost]
           in pq\<lparr>nodes := bubble_up (pq_size pq) ns, pq_size := pq_size pq + 1\<rparr>)"

definition pq_pop :: "priority_queue \<Rightarrow> dijkstra_node \<times> priority_queue" where
  "pq_pop pq =
     (if pq_empty pq then (mk_node (mk_pos (- 1) (- 1)) DIR_NONE 9999, pq)
      else
        let result = nodes pq ! 0; n = pq_size pq - 1; pq = pq\<lparr>pq_size := n\<rparr>
        in if n > 0 then (result, pq\<lparr>nodes := bubble_down 0 n ((nodes pq)[0 := nodes pq ! n])\<rparr>)
           else (result, pq))"

section \<open>What a queue promises\<close>

locale min_queue =
  fixes wf :: "'q \<Rightarrow> bool" and bag :: "'q \<Rightarrow> 'a multiset" and key :: "'a \<Rightarrow> nat"
    and is_empty :: "'q \<Rightarrow> bool" and is_full :: "'q \<Rightarrow> bool"
    and push :: "'a \<Rightarrow> 'q \<Rightarrow> 'q" and pop :: "'q \<Rightarrow> 'a \<times> 'q"
  assumes empty_bag: "wf q \<Longrightarrow> is_empty q \<longleftrightarrow> bag q = {#}"
    and push_wf: "wf q \<Longrightarrow> wf (push x q)"
    and push_bag: "wf q \<Longrightarrow> \<not> is_full q \<Longrightarrow> bag (push x q) = add_mset x (bag q)"
    and push_full: "wf q \<Longrightarrow> is_full q \<Longrightarrow> push x q = q"
    and pop_wf: "wf q \<Longrightarrow> \<not> is_empty q \<Longrightarrow> wf (snd (pop q))"
    and pop_bag: "wf q \<Longrightarrow> \<not> is_empty q \<Longrightarrow> bag q = add_mset (fst (pop q)) (bag (snd (pop q)))"
    and pop_min: "wf q \<Longrightarrow> \<not> is_empty q \<Longrightarrow> y \<in># bag q \<Longrightarrow> key (fst (pop q)) \<le> key y"
begin

lemma pop_mem: "wf q \<Longrightarrow> \<not> is_empty q \<Longrightarrow> fst (pop q) \<in># bag q"
  using pop_bag [of q] by simp

lemma push_mem: "wf q \<Longrightarrow> set_mset (bag (push x q)) \<subseteq> insert x (set_mset (bag q))"
  by (cases "is_full q") (auto simp: push_bag push_full)

lemma pop_sub: "wf q \<Longrightarrow> \<not> is_empty q \<Longrightarrow> y \<in># bag (snd (pop q)) \<Longrightarrow> y \<in># bag q"
  using pop_bag [of q] by simp

lemma pop_rest: "wf q \<Longrightarrow> \<not> is_empty q \<Longrightarrow> y \<in># bag q \<Longrightarrow> y \<noteq> fst (pop q) \<Longrightarrow> y \<in># bag (snd (pop q))"
  using pop_bag [of q] by simp

lemma pop_size: "wf q \<Longrightarrow> \<not> is_empty q \<Longrightarrow> size (bag (snd (pop q))) < size (bag q)"
  using pop_bag [of q] by simp

text \<open>Two successive removals come out in order.\<close>

lemma pop_pop_sorted:
  assumes "wf q" "\<not> is_empty q" "\<not> is_empty (snd (pop q))"
  shows "key (fst (pop q)) \<le> key (fst (pop (snd (pop q))))"
  using assms pop_min pop_sub pop_mem pop_wf by blast

end

section \<open>The heap\<close>

definition up_of :: "nat \<Rightarrow> nat" where
  "up_of i = (i - 1) div 2"

lemma up_of_less: "0 < i \<Longrightarrow> up_of i < i"
  unfolding up_of_def by arith

lemma up_of_iff: "0 < j \<Longrightarrow> up_of j = i \<longleftrightarrow> j = 2 * i + 1 \<or> j = 2 * i + 2"
  unfolding up_of_def by arith

definition heap_ok :: "nat \<Rightarrow> dijkstra_node list \<Rightarrow> bool" where
  "heap_ok n ns \<longleftrightarrow> (\<forall>j. 0 < j \<and> j < n \<longrightarrow> n_cost (ns ! up_of j) \<le> n_cost (ns ! j))"

text \<open>The order holds except between \<open>i\<close> and the node above it, or those below it.\<close>

definition heap_up :: "nat \<Rightarrow> nat \<Rightarrow> dijkstra_node list \<Rightarrow> bool" where
  "heap_up i n ns \<longleftrightarrow> (\<forall>j. 0 < j \<and> j < n \<longrightarrow>
     (j \<noteq> i \<longrightarrow> n_cost (ns ! up_of j) \<le> n_cost (ns ! j)) \<and>
     (0 < i \<and> up_of j = i \<longrightarrow> n_cost (ns ! up_of i) \<le> n_cost (ns ! j)))"

definition heap_down :: "nat \<Rightarrow> nat \<Rightarrow> dijkstra_node list \<Rightarrow> bool" where
  "heap_down i n ns \<longleftrightarrow> (\<forall>j. 0 < j \<and> j < n \<longrightarrow>
     (up_of j \<noteq> i \<longrightarrow> n_cost (ns ! up_of j) \<le> n_cost (ns ! j)) \<and>
     (0 < i \<and> up_of j = i \<longrightarrow> n_cost (ns ! up_of i) \<le> n_cost (ns ! j)))"

definition pq_wf :: "priority_queue \<Rightarrow> bool" where
  "pq_wf pq \<longleftrightarrow> length (nodes pq) = MAX_PRIORITY_QUEUE_SIZE \<and> pq_size pq \<le> MAX_PRIORITY_QUEUE_SIZE \<and>
     heap_ok (pq_size pq) (nodes pq)"

definition pq_bag :: "priority_queue \<Rightarrow> dijkstra_node multiset" where
  "pq_bag pq = mset (take (pq_size pq) (nodes pq))"

lemma swap_nodes_simps [simp]:
  "length (swap_nodes i j ns) = length ns"
  "i < length ns \<Longrightarrow> j < length ns \<Longrightarrow> l < length ns \<Longrightarrow>
     swap_nodes i j ns ! l = (if l = j then ns ! i else if l = i then ns ! j else ns ! l)"
  by (auto simp: swap_nodes_def nth_list_update)

lemma swap_nodes_mset:
  assumes "i < n" "j < n" "n \<le> length ns"
  shows "mset (take n (swap_nodes i j ns)) = mset (take n ns)"
proof -
  have "take n (swap_nodes i j ns) = (take n ns)[i := take n ns ! j, j := take n ns ! i]"
    using assms by (simp add: swap_nodes_def take_update_swap)
  also have "mset \<dots> = mset (take n ns)"
    using assms by (intro mset_swap) simp_all
  finally show ?thesis .
qed

subsection \<open>Moving up\<close>

lemma heap_up_step:
  assumes h: "heap_up i n ns" and i: "0 < i" "i < n" "n \<le> length ns"
    and c: "n_cost (ns ! i) < n_cost (ns ! up_of i)"
  shows "heap_up (up_of i) n (swap_nodes i (up_of i) ns)"
  unfolding heap_up_def
proof (intro allI impI)
  fix j assume j: "0 < j \<and> j < n"
  define u where "u = up_of i"
  have u: "u < i" using i by (simp add: u_def up_of_less)
  have par: "up_of j < n" "up_of j < j" using j up_of_less [of j] by simp_all
  have at: "swap_nodes i u ns ! l = (if l = u then ns ! i else if l = i then ns ! u else ns ! l)" if "l < n" for l
    using that i u by simp
  have hj: "j \<noteq> i \<Longrightarrow> n_cost (ns ! up_of j) \<le> n_cost (ns ! j)"
    "up_of j = i \<Longrightarrow> n_cost (ns ! u) \<le> n_cost (ns ! j)"
    using h j i by (auto simp: heap_up_def u_def)
  have hu: "0 < u \<Longrightarrow> n_cost (ns ! up_of u) \<le> n_cost (ns ! u)"
    using h i u by (auto simp: heap_up_def)
  have c': "n_cost (ns ! i) < n_cost (ns ! u)" using c by (simp add: u_def)
  have ju: "up_of j = u \<Longrightarrow> j \<noteq> i \<Longrightarrow> n_cost (ns ! u) \<le> n_cost (ns ! j)" using hj by simp
  have upu: "0 < u \<Longrightarrow> up_of u < u" by (rule up_of_less)
  have one: "n_cost (swap_nodes i u ns ! up_of j) \<le> n_cost (swap_nodes i u ns ! j)" if "j \<noteq> u"
  proof -
    have sj: "swap_nodes i u ns ! j = (if j = i then ns ! u else ns ! j)" using at [of j] j that by simp
    consider "j = i" | "j \<noteq> i" "up_of j = u" | "j \<noteq> i" "up_of j = i" | "j \<noteq> i" "up_of j \<noteq> u" "up_of j \<noteq> i" by blast
    then show ?thesis
    proof cases
      case 1
      then show ?thesis using sj at [of u] u i c' by (simp add: u_def [symmetric])
    next
      case 2
      then show ?thesis using sj at [of u] u i c' ju by simp
    next
      case 3
      then show ?thesis using sj at [of i] u i hj(2) by simp
    next
      case 4
      then show ?thesis using sj at [OF par(1)] hj(1) by simp
    qed
  qed
  have two: "n_cost (swap_nodes i u ns ! up_of u) \<le> n_cost (swap_nodes i u ns ! j)" if "0 < u" "up_of j = u"
  proof -
    have "j \<noteq> u" using that par by simp
    then have "swap_nodes i u ns ! j = (if j = i then ns ! u else ns ! j)" using at [of j] j by simp
    moreover have "swap_nodes i u ns ! up_of u = ns ! up_of u" using at [of "up_of u"] upu u i that by simp
    ultimately show ?thesis using hu ju that by (cases "j = i") auto
  qed
  show "(j \<noteq> up_of i \<longrightarrow> n_cost (swap_nodes i (up_of i) ns ! up_of j) \<le> n_cost (swap_nodes i (up_of i) ns ! j)) \<and>
    (0 < up_of i \<and> up_of j = up_of i \<longrightarrow>
      n_cost (swap_nodes i (up_of i) ns ! up_of (up_of i)) \<le> n_cost (swap_nodes i (up_of i) ns ! j))"
    unfolding u_def [symmetric] using one two by blast
qed

lemma bubble_up_ok:
  assumes "heap_up i n ns" "i < n" "n \<le> length ns"
  shows "heap_ok n (bubble_up i ns) \<and> length (bubble_up i ns) = length ns \<and>
    mset (take n (bubble_up i ns)) = mset (take n ns)"
  using assms
proof (induction i ns rule: bubble_up.induct)
  case (1 i ns)
  show ?case
  proof (cases "0 < i \<and> n_cost (ns ! i) < n_cost (ns ! up_of i)")
    case True
    have u: "up_of i < n" using 1 True up_of_less [of i] by simp
    have eq: "bubble_up i ns = bubble_up (up_of i) (swap_nodes i (up_of i) ns)"
      using True by (subst bubble_up.simps) (simp add: up_of_def Let_def)
    have "heap_up (up_of i) n (swap_nodes i (up_of i) ns)" using heap_up_step 1 True by simp
    then show ?thesis using 1(1) [unfolded up_of_def [symmetric], OF _ refl] 1(3,4) True u
      unfolding eq by (simp add: swap_nodes_mset)
  next
    case False
    then have eq: "bubble_up i ns = ns" by (subst bubble_up.simps) (auto simp: up_of_def Let_def)
    then show ?thesis unfolding eq using 1(2) False by (auto simp: heap_up_def heap_ok_def)
  qed
qed

subsection \<open>Moving down\<close>

lemma smallest_of_cases:
  obtains "smallest_of i n ns = i" "\<And>j. j < n \<Longrightarrow> 0 < j \<Longrightarrow> up_of j = i \<Longrightarrow> n_cost (ns ! i) \<le> n_cost (ns ! j)"
  | s where "smallest_of i n ns = s" "s < n" "i < s" "up_of s = i" "n_cost (ns ! s) < n_cost (ns ! i)"
      "\<And>j. j < n \<Longrightarrow> 0 < j \<Longrightarrow> up_of j = i \<Longrightarrow> n_cost (ns ! s) \<le> n_cost (ns ! j)"
proof -
  define l r where lr: "l = 2 * i + 1" "r = 2 * i + 2"
  define s where "s = smallest_of i n ns"
  have child: "j = l \<or> j = r" if "0 < j" "up_of j = i" for j using that by (simp add: up_of_iff lr)
  have up: "up_of l = i" "up_of r = i" "i < l" "i < r" by (simp_all add: up_of_iff lr)
  have s: "s = (if l < n \<and> n_cost (ns ! l) < n_cost (ns ! i)
      then if r < n \<and> n_cost (ns ! r) < n_cost (ns ! l) then r else l
      else if r < n \<and> n_cost (ns ! r) < n_cost (ns ! i) then r else i)"
    unfolding s_def smallest_of_def Let_def lr by auto
  show ?thesis
  proof (cases "s = i")
    case True
    then have "l < n \<longrightarrow> n_cost (ns ! i) \<le> n_cost (ns ! l)" "r < n \<longrightarrow> n_cost (ns ! i) \<le> n_cost (ns ! r)"
      using s up by (auto split: if_splits)
    then have "j < n \<longrightarrow> n_cost (ns ! i) \<le> n_cost (ns ! j)" if "0 < j" "up_of j = i" for j
      using child [OF that] by blast
    then show ?thesis using True unfolding s_def by (metis that(1))
  next
    case False
    then have sl: "s = l \<or> s = r" "s < n" "n_cost (ns ! s) < n_cost (ns ! i)"
      "l < n \<longrightarrow> n_cost (ns ! s) \<le> n_cost (ns ! l)" "r < n \<longrightarrow> n_cost (ns ! s) \<le> n_cost (ns ! r)"
      using s by (simp_all split: if_splits)
    then have min: "j < n \<longrightarrow> n_cost (ns ! s) \<le> n_cost (ns ! j)" if "0 < j" "up_of j = i" for j
      using child [OF that] by blast
    have "up_of s = i" "i < s" using sl up by auto
    with sl show ?thesis using min by (intro that(2) [OF s_def [symmetric]]) blast+
  qed
qed

lemma heap_down_step:
  assumes h: "heap_down i n ns" and n: "s < n" "n \<le> length ns" "i < s" "up_of s = i"
    and c: "n_cost (ns ! s) < n_cost (ns ! i)"
    and m: "\<And>j. j < n \<Longrightarrow> 0 < j \<Longrightarrow> up_of j = i \<Longrightarrow> n_cost (ns ! s) \<le> n_cost (ns ! j)"
  shows "heap_down s n (swap_nodes i s ns)"
  unfolding heap_down_def
proof (intro allI impI)
  fix j assume j: "0 < j \<and> j < n"
  have par: "up_of j < n" "up_of j < j" using j up_of_less [of j] by simp_all
  have at: "swap_nodes i s ns ! l = (if l = s then ns ! i else if l = i then ns ! s else ns ! l)" if "l < n" for l
    using that n by simp
  have hj: "up_of j \<noteq> i \<Longrightarrow> n_cost (ns ! up_of j) \<le> n_cost (ns ! j)" using h j by (auto simp: heap_down_def)
  have hs: "0 < i \<Longrightarrow> n_cost (ns ! up_of i) \<le> n_cost (ns ! s)" using h n by (auto simp: heap_down_def)
  have one: "n_cost (swap_nodes i s ns ! up_of j) \<le> n_cost (swap_nodes i s ns ! j)" if "up_of j \<noteq> s"
  proof -
    consider "j = s" | "j = i" | "j \<noteq> s" "j \<noteq> i" "up_of j = i" | "j \<noteq> s" "j \<noteq> i" "up_of j \<noteq> i" by blast
    then show ?thesis
    proof cases
      case 1
      then show ?thesis using at [of s] at [of i] n c by simp
    next
      case 2
      then show ?thesis using at [of i] at [OF par(1)] n hs j par that by simp
    next
      case 3
      then show ?thesis using at [of j] at [of i] n m j by simp
    next
      case 4
      then show ?thesis using at [of j] at [OF par(1)] hj j that by simp
    qed
  qed
  have two: "n_cost (swap_nodes i s ns ! up_of s) \<le> n_cost (swap_nodes i s ns ! j)" if "up_of j = s"
    using at [of j] at [of i] n hj j par that by simp
  show "(up_of j \<noteq> s \<longrightarrow> n_cost (swap_nodes i s ns ! up_of j) \<le> n_cost (swap_nodes i s ns ! j)) \<and>
    (0 < s \<and> up_of j = s \<longrightarrow> n_cost (swap_nodes i s ns ! up_of s) \<le> n_cost (swap_nodes i s ns ! j))"
    using one two by blast
qed

lemma bubble_down_ok:
  assumes "heap_down i n ns" "i < n" "n \<le> length ns"
  shows "heap_ok n (bubble_down i n ns) \<and> length (bubble_down i n ns) = length ns \<and>
    mset (take n (bubble_down i n ns)) = mset (take n ns)"
  using assms
proof (induction i n ns rule: bubble_down.induct)
  case (1 i n ns)
  show ?case
  proof (cases rule: smallest_of_cases [of i n ns])
    case 1
    then have eq: "bubble_down i n ns = ns" by (subst bubble_down.simps) simp
    have "heap_ok n ns" using 1(2) \<open>heap_down i n ns\<close> by (metis heap_ok_def heap_down_def)
    then show ?thesis by (simp add: eq)
  next
    case (2 s)
    then have eq: "bubble_down i n ns = bubble_down s n (swap_nodes i s ns)" by (subst bubble_down.simps) simp
    have "heap_down s n (swap_nodes i s ns)" using heap_down_step [of i n ns s] 2 1 by simp
    then show ?thesis unfolding eq using 1 2 by (simp add: swap_nodes_mset)
  qed
qed

subsection \<open>The operations\<close>

lemma heap_root:
  assumes "heap_ok n ns" "j < n"
  shows "n_cost (ns ! 0) \<le> n_cost (ns ! j)"
  using assms(2)
proof (induction j rule: less_induct)
  case (less j)
  show ?case
  proof (cases "j = 0")
    case False
    then have "n_cost (ns ! 0) \<le> n_cost (ns ! up_of j)" using less up_of_less [of j] by simp
    also have "\<dots> \<le> n_cost (ns ! j)" using assms less.prems False by (simp add: heap_ok_def)
    finally show ?thesis .
  qed simp
qed

lemma pq_push_ok:
  assumes wf: "pq_wf q" and nf: "\<not> pq_full q"
  shows "pq_wf (pq_push p d c q)" "pq_bag (pq_push p d c q) = add_mset (mk_node p d c) (pq_bag q)"
proof -
  define ns where "ns = (nodes q)[pq_size q := mk_node p d c]"
  have len: "length ns = 256" "pq_size q < 256" using wf nf by (simp_all add: ns_def pq_wf_def pq_full_def)
  have "heap_up (pq_size q) (pq_size q + 1) ns"
    unfolding heap_up_def
  proof (intro allI impI)
    fix j assume j: "0 < j \<and> j < pq_size q + 1"
    then have u: "up_of j < j" by (simp add: up_of_less)
    then have "j \<noteq> pq_size q \<Longrightarrow> n_cost (ns ! up_of j) \<le> n_cost (ns ! j)"
      using wf j by (simp add: ns_def pq_wf_def heap_ok_def)
    then show "(j \<noteq> pq_size q \<longrightarrow> n_cost (ns ! up_of j) \<le> n_cost (ns ! j)) \<and>
      (0 < pq_size q \<and> up_of j = pq_size q \<longrightarrow> n_cost (ns ! up_of (pq_size q)) \<le> n_cost (ns ! j))"
      using u j by simp
  qed
  then have b: "heap_ok (pq_size q + 1) (bubble_up (pq_size q) ns)" "length (bubble_up (pq_size q) ns) = 256"
    "mset (take (pq_size q + 1) (bubble_up (pq_size q) ns)) = mset (take (pq_size q + 1) ns)"
    using bubble_up_ok len by simp_all
  have push: "pq_push p d c q = q\<lparr>nodes := bubble_up (pq_size q) ns, pq_size := pq_size q + 1\<rparr>"
    using nf by (simp add: pq_push_def ns_def)
  show "pq_wf (pq_push p d c q)" using b len by (simp add: push pq_wf_def)
  have "take (pq_size q + 1) ns = take (pq_size q) (nodes q) @ [mk_node p d c]"
    using len wf by (simp add: ns_def take_Suc_conv_app_nth pq_wf_def)
  then show "pq_bag (pq_push p d c q) = add_mset (mk_node p d c) (pq_bag q)"
    using b by (simp add: push pq_bag_def)
qed

lemma pq_pop_ok:
  assumes wf: "pq_wf q" and ne: "\<not> pq_empty q"
  shows "pq_wf (snd (pq_pop q))" "pq_bag q = add_mset (fst (pq_pop q)) (pq_bag (snd (pq_pop q)))"
    "fst (pq_pop q) = nodes q ! 0" "pq_size (snd (pq_pop q)) = pq_size q - 1"
proof -
  define n where "n = pq_size q - 1"
  have size: "pq_size q = Suc n" "Suc n \<le> 256" "length (nodes q) = 256"
    using wf ne by (simp_all add: n_def pq_wf_def pq_empty_def)
  have pop: "pq_pop q = (nodes q ! 0, if n > 0 then q\<lparr>pq_size := n, nodes := bubble_down 0 n ((nodes q)[0 := nodes q ! n])\<rparr>
      else q\<lparr>pq_size := n\<rparr>)"
    using ne by (simp add: pq_pop_def n_def Let_def)
  have b: "heap_ok n (bubble_down 0 n ((nodes q)[0 := nodes q ! n])) \<and>
      length (bubble_down 0 n ((nodes q)[0 := nodes q ! n])) = 256 \<and>
      mset (take n (bubble_down 0 n ((nodes q)[0 := nodes q ! n]))) = mset (take n ((nodes q)[0 := nodes q ! n]))" if "n > 0"
  proof -
    have "heap_down 0 n ((nodes q)[0 := nodes q ! n])"
      using wf size by (auto simp: heap_down_def pq_wf_def heap_ok_def nth_list_update)
    then show ?thesis using bubble_down_ok [of 0 n] that size by simp
  qed
  obtain x xs where xs: "nodes q = x # xs" using size by (cases "nodes q") auto
  have m: "mset (take (Suc n) (nodes q)) = add_mset (nodes q ! 0) (mset (take n ((nodes q)[0 := nodes q ! n])))" if n0: "n > 0"
  proof -
    obtain k where k: "n = Suc k" using n0 gr0_implies_Suc by blast
    have "k < length xs" using size xs k by simp
    then show ?thesis by (simp add: xs k take_Suc_conv_app_nth)
  qed
  show "fst (pq_pop q) = nodes q ! 0" "pq_size (snd (pq_pop q)) = pq_size q - 1" by (simp_all add: pop n_def)
  show "pq_wf (snd (pq_pop q))" using b size by (auto simp: pop pq_wf_def heap_ok_def)
  show "pq_bag q = add_mset (fst (pq_pop q)) (pq_bag (snd (pq_pop q)))"
    using b m size by (auto simp: pop pq_bag_def xs)
qed

interpretation heap: min_queue pq_wf pq_bag n_cost pq_empty pq_full "\<lambda>n. pq_push (n_pos n) (n_first_dir n) (n_cost n)" pq_pop
proof unfold_locales
  fix q y x assume wf: "pq_wf q"
  have node: "mk_node (n_pos x) (n_first_dir x) (n_cost x) = x" by (simp add: mk_node_def)
  show "pq_empty q \<longleftrightarrow> pq_bag q = {#}" using wf by (auto simp: pq_empty_def pq_bag_def pq_wf_def)
  show "pq_full q \<Longrightarrow> pq_push (n_pos x) (n_first_dir x) (n_cost x) q = q" by (simp add: pq_push_def)
  then show "pq_wf (pq_push (n_pos x) (n_first_dir x) (n_cost x) q)" using wf pq_push_ok by metis
  show "\<not> pq_full q \<Longrightarrow> pq_bag (pq_push (n_pos x) (n_first_dir x) (n_cost x) q) = add_mset x (pq_bag q)"
    using pq_push_ok(2) [OF wf] by (simp add: node)
  show "\<not> pq_empty q \<Longrightarrow> pq_wf (snd (pq_pop q))" "\<not> pq_empty q \<Longrightarrow> pq_bag q = add_mset (fst (pq_pop q)) (pq_bag (snd (pq_pop q)))"
    using pq_pop_ok [OF wf] by blast+
  assume ne: "\<not> pq_empty q" and "y \<in># pq_bag q"
  then obtain j where "j < pq_size q" "y = nodes q ! j"
    by (auto simp: pq_bag_def in_set_conv_nth)
  then show "n_cost (fst (pq_pop q)) \<le> n_cost y"
    using pq_pop_ok(3) [OF wf ne] heap_root wf by (metis pq_wf_def)
qed

section \<open>Properties\<close>

text \<open>Property C6 (pq_refines_multiset). The array heap implements a bounded multiset of nodes
  ordered by cost: \<open>pq_push\<close> adds a node unless the 256 places are taken, in which case it
  changes nothing, and \<open>pq_pop\<close> removes a node of least cost. Both keep the heap order.\<close>

theorem pq_refines_multiset:
  assumes "pq_wf q"
  shows "pq_wf (pq_push p d c q) \<and>
    (if pq_full q then pq_push p d c q = q else pq_bag (pq_push p d c q) = add_mset (mk_node p d c) (pq_bag q)) \<and>
    (pq_empty q \<or> pq_wf (snd (pq_pop q)) \<and> pq_bag q = add_mset (fst (pq_pop q)) (pq_bag (snd (pq_pop q))) \<and>
       (\<forall>n \<in># pq_bag q. n_cost (fst (pq_pop q)) \<le> n_cost n))"
  using heap.push_wf [OF assms, of "mk_node p d c"] heap.push_full [OF assms, of "mk_node p d c"]
    heap.push_bag [OF assms, of "mk_node p d c"] heap.pop_wf [OF assms] heap.pop_bag [OF assms] heap.pop_min [OF assms]
  by (auto simp: mk_node_def)

theorem pq_refines_multiset_witness:
  "pq_wf (pq_push (mk_pos 3 4) DIR_UP 7 (pq_init pq_storage)) \<and>
   pq_bag (pq_push (mk_pos 3 4) DIR_UP 7 (pq_init pq_storage)) = {#mk_node (mk_pos 3 4) DIR_UP 7#} \<and>
   n_cost (fst (pq_pop (pq_push (mk_pos 1 2) DIR_UP 3 (pq_push (mk_pos 3 4) DIR_UP 7 (pq_init pq_storage))))) \<le> 3"
proof -
  have e: "pq_wf (pq_init pq_storage)" "\<not> pq_full (pq_init pq_storage)" "pq_bag (pq_init pq_storage) = {#}"
    by (simp_all add: pq_wf_def pq_init_def pq_storage_def heap_ok_def pq_full_def pq_bag_def)
  define q where "q = pq_push (mk_pos 3 4) DIR_UP 7 (pq_init pq_storage)"
  have q: "pq_wf q" "pq_bag q = {#mk_node (mk_pos 3 4) DIR_UP 7#}" "\<not> pq_full q"
    using pq_refines_multiset [OF e(1)] e
    by (simp_all add: q_def) (simp add: pq_push_def pq_full_def pq_init_def pq_storage_def)
  define r where "r = pq_push (mk_pos 1 2) DIR_UP 3 q"
  have r: "pq_wf r" "mk_node (mk_pos 1 2) DIR_UP 3 \<in># pq_bag r"
    using pq_refines_multiset [OF q(1)] q(3) by (simp_all add: r_def)
  then have "\<not> pq_empty r" using heap.empty_bag by fastforce
  then have "n_cost (fst (pq_pop r)) \<le> n_cost (mk_node (mk_pos 1 2) DIR_UP 3)"
    using pq_refines_multiset [OF r(1)] r(2) by blast
  then show ?thesis using q by (simp add: r_def q_def mk_node_def)
qed

end
