(* ===== verification/Game_Path.thy ===== *)
theory Game_Path
  imports Game_Map Game_PQ
begin

text \<open>
  The path search of \<open>project/game_logic.c\<close> (\<open>logic_find_path_bfs\<close>): Dijkstra's algorithm over
  the cells of the map with the priority queue of \<open>Game_PQ\<close>. The proof uses only the facts of
  the locale \<open>min_queue\<close>. A push on a full queue is dropped, so that the optimality of the
  result is stated for searches during which the queue has room.
\<close>

section \<open>Definitions\<close>

record search_state =
  queue :: priority_queue
  cost :: "int \<Rightarrow> int \<Rightarrow> nat"
  first_dirs :: "int \<Rightarrow> int \<Rightarrow> direction"

text \<open>The body of the loop over the four neighbours.\<close>

definition explore :: "bool \<Rightarrow> game_map \<Rightarrow> dijkstra_node \<Rightarrow> direction \<Rightarrow> search_state \<Rightarrow> search_state" where
  "explore can_pass_walls m current d s =
     (let nx = pos_x (n_pos current) + dir_dx d; ny = pos_y (n_pos current) + dir_dy d in
      if \<not> map_is_valid_position nx ny then s
      else if \<not> can_pass_walls \<and> \<not> map_is_walkable nx ny m then s
      else
        let move_cost = (if can_pass_walls \<and> \<not> map_is_walkable nx ny m then 10 else 1);
            new_cost = n_cost current + move_cost in
        if new_cost < cost s nx ny then
          let dir_to_use = (if n_first_dir current = DIR_NONE then d else n_first_dir current) in
          s\<lparr>cost := (cost s)(nx := (cost s nx)(ny := new_cost)),
            first_dirs := (first_dirs s)(nx := (first_dirs s nx)(ny := dir_to_use)),
            queue := pq_push (mk_pos nx ny) dir_to_use new_cost (queue s)\<rparr>
        else s)"

definition search_dirs :: "direction list" where
  "search_dirs = [DIR_UP, DIR_DOWN, DIR_LEFT, DIR_RIGHT]"

text \<open>The sum of all costs, and one pass of the body either keeps it and the state, or lowers it:
  the measure of the loop.\<close>

definition total_cost :: "search_state \<Rightarrow> nat" where
  "total_cost s = (\<Sum>(x, y) \<in> {0..79} \<times> {0..23}. cost s x y)"

lemma total_cost_update:
  assumes "map_is_valid_position x y" "c < cost s x y"
  shows "total_cost (s\<lparr>cost := (cost s)(x := (cost s x)(y := c)), first_dirs := f, queue := q\<rparr>) < total_cost s"
proof -
  have "(x, y) \<in> {0..79} \<times> {0..23}" using assms(1) by (auto simp: map_is_valid_position_def)
  then show ?thesis unfolding total_cost_def using assms(2)
    by (intro sum_strict_mono_ex1) (auto intro!: bexI [of _ "(x, y)"])
qed

lemma explore_measure: "explore w m c d s = s \<or> total_cost (explore w m c d s) < total_cost s"
  unfolding explore_def Let_def using total_cost_update by (simp split: if_splits)

lemma explore_all_measure:
  "fold (explore w m c) ds s = s \<or> total_cost (fold (explore w m c) ds s) < total_cost s"
proof (induction ds arbitrary: s)
  case (Cons d ds)
  from explore_measure [of w m c d s] show ?case
  proof
    assume "explore w m c d s = s"
    then show ?thesis using Cons.IH [of s] by simp
  next
    assume "total_cost (explore w m c d s) < total_cost s"
    then show ?thesis using Cons.IH [of "explore w m c d s"] by (auto dest: less_trans)
  qed
qed simp

function search_loop :: "bool \<Rightarrow> game_map \<Rightarrow> position \<Rightarrow> search_state \<Rightarrow> direction" where
  "search_loop can_pass_walls m target s =
     (if pq_empty (queue s) then DIR_NONE
      else
        let (current, q) = pq_pop (queue s); s = s\<lparr>queue := q\<rparr> in
        if pos_x (n_pos current) = pos_x target \<and> pos_y (n_pos current) = pos_y target
        then first_dirs s (pos_x target) (pos_y target)
        else if n_cost current > cost s (pos_x (n_pos current)) (pos_y (n_pos current))
        then search_loop can_pass_walls m target s
        else search_loop can_pass_walls m target (fold (explore can_pass_walls m current) search_dirs s))"
  by pat_completeness auto

lemma pq_pop_size: "\<not> pq_empty q \<Longrightarrow> pq_size (snd (pq_pop q)) < pq_size q"
  by (auto simp: pq_pop_def pq_empty_def Let_def)

lemma total_cost_queue [simp]: "total_cost (s\<lparr>queue := q\<rparr>) = total_cost s"
  by (simp add: total_cost_def)

definition search_order :: "((bool \<times> game_map \<times> position \<times> search_state) \<times> (bool \<times> game_map \<times> position \<times> search_state)) set" where
  "search_order = measures [\<lambda>(w, m, t, s). total_cost s, \<lambda>(w, m, t, s). pq_size (queue s)]"

lemma search_order_pop:
  assumes "\<not> pq_empty (queue s)" "(current, q) = pq_pop (queue s)"
  shows "((w, m, t, s\<lparr>queue := q\<rparr>), (w, m, t, s)) \<in> search_order"
  using pq_pop_size [OF assms(1)] assms by (simp add: search_order_def) (metis snd_conv)

lemma search_order_explore:
  assumes "\<not> pq_empty (queue s)" "(current, q) = pq_pop (queue s)"
  shows "((w, m, t, fold (explore w m current) ds (s\<lparr>queue := q\<rparr>)), (w, m, t, s)) \<in> search_order"
  using explore_all_measure [of w m current ds "s\<lparr>queue := q\<rparr>"]
proof
  assume "fold (explore w m current) ds (s\<lparr>queue := q\<rparr>) = s\<lparr>queue := q\<rparr>"
  then show ?thesis using search_order_pop [OF assms] by simp
qed (simp add: search_order_def)

lemma wf_search_order: "wf search_order"
  by (simp add: search_order_def)

termination search_loop
  by (relation search_order) (simp only: wf_search_order, blast intro: search_order_pop, blast intro: search_order_explore)

definition search_init :: "position \<Rightarrow> search_state" where
  "search_init start =
     (let q = pq_push start DIR_NONE 0 (pq_init pq_storage)
      in \<lparr>queue = q, cost = (\<lambda>_ _. 9999)(pos_x start := (\<lambda>_. 9999)(pos_y start := 0)),
          first_dirs = (\<lambda>_ _. DIR_NONE)\<rparr>)"

definition logic_find_path_bfs :: "position \<Rightarrow> position \<Rightarrow> bool \<Rightarrow> game_map \<Rightarrow> direction" where
  "logic_find_path_bfs start target can_pass_walls m = search_loop can_pass_walls m target (search_init start)"

text \<open>The same loop, asked whether the queue always has room for the four neighbours.\<close>

function search_fits :: "bool \<Rightarrow> game_map \<Rightarrow> position \<Rightarrow> search_state \<Rightarrow> bool" where
  "search_fits can_pass_walls m target s =
     (if pq_empty (queue s) then True
      else
        let (current, q) = pq_pop (queue s); s = s\<lparr>queue := q\<rparr> in
        if pos_x (n_pos current) = pos_x target \<and> pos_y (n_pos current) = pos_y target then True
        else if n_cost current > cost s (pos_x (n_pos current)) (pos_y (n_pos current))
        then search_fits can_pass_walls m target s
        else pq_size q + 4 \<le> MAX_PRIORITY_QUEUE_SIZE \<and>
             search_fits can_pass_walls m target (fold (explore can_pass_walls m current) search_dirs s))"
  by pat_completeness auto

termination search_fits
  by (relation search_order) (simp only: wf_search_order, blast intro: search_order_pop, blast intro: search_order_explore)

declare search_loop.simps [simp del] search_fits.simps [simp del]

section \<open>Paths\<close>

text \<open>A path is a list of directions; its cost counts one for each open cell entered and, when
  walls may be crossed, ten for each solid one.\<close>

definition step_pos :: "position \<Rightarrow> direction \<Rightarrow> position" where
  "step_pos p d = mk_pos (pos_x p + dir_dx d) (pos_y p + dir_dy d)"

definition enter_cost :: "bool \<Rightarrow> game_map \<Rightarrow> position \<Rightarrow> nat option" where
  "enter_cost can_pass_walls m p =
     (if \<not> map_is_valid_position (pos_x p) (pos_y p) then None
      else if map_is_walkable (pos_x p) (pos_y p) m then Some 1
      else if can_pass_walls then Some 10 else None)"

fun path_end :: "position \<Rightarrow> direction list \<Rightarrow> position" where
  "path_end p [] = p"
| "path_end p (d # ds) = path_end (step_pos p d) ds"

fun path_cost :: "bool \<Rightarrow> game_map \<Rightarrow> position \<Rightarrow> direction list \<Rightarrow> nat option" where
  "path_cost w m p [] = Some 0"
| "path_cost w m p (d # ds) =
     (if d = DIR_NONE then None
      else Option.bind (enter_cost w m (step_pos p d)) (\<lambda>c. map_option ((+) c) (path_cost w m (step_pos p d) ds)))"

section \<open>Lemmas\<close>

abbreviation cost_at :: "search_state \<Rightarrow> position \<Rightarrow> nat" where
  "cost_at s p \<equiv> cost s (pos_x p) (pos_y p)"

abbreviation dir_at :: "search_state \<Rightarrow> position \<Rightarrow> direction" where
  "dir_at s p \<equiv> first_dirs s (pos_x p) (pos_y p)"

lemma path_end_append [simp]: "path_end p (ds @ ds') = path_end (path_end p ds) ds'"
  by (induction ds arbitrary: p) simp_all

lemma path_cost_snoc:
  assumes "path_cost w m p ds = Some c" "d \<noteq> DIR_NONE" "enter_cost w m (step_pos (path_end p ds) d) = Some e"
  shows "path_cost w m p (ds @ [d]) = Some (c + e)"
  using assms by (induction ds arbitrary: p c) (auto simp: bind_eq_Some_conv)

lemma explore_eq:
  "explore w m n d s = (case enter_cost w m (step_pos (n_pos n) d) of
     None \<Rightarrow> s
   | Some e \<Rightarrow>
       let p = step_pos (n_pos n) d; c = n_cost n + e;
           f = (if n_first_dir n = DIR_NONE then d else n_first_dir n)
       in if c < cost_at s p then
            s\<lparr>cost := (cost s)(pos_x p := (cost s (pos_x p))(pos_y p := c)),
              first_dirs := (first_dirs s)(pos_x p := (first_dirs s (pos_x p))(pos_y p := f)),
              queue := pq_push p f c (queue s)\<rparr>
          else s)"
  by (simp add: explore_def enter_cost_def step_pos_def Let_def)

subsection \<open>Soundness\<close>

text \<open>A path of a given cost reaches \<open>p\<close> and starts in direction \<open>f\<close>.\<close>

definition reached :: "bool \<Rightarrow> game_map \<Rightarrow> position \<Rightarrow> position \<Rightarrow> direction \<Rightarrow> nat \<Rightarrow> bool" where
  "reached w m start p f c \<longleftrightarrow> (\<exists>ds. path_cost w m start ds = Some c \<and> path_end start ds = p \<and>
     f = (case ds of [] \<Rightarrow> DIR_NONE | d # _ \<Rightarrow> d))"

definition sound :: "bool \<Rightarrow> game_map \<Rightarrow> position \<Rightarrow> search_state \<Rightarrow> bool" where
  "sound w m start s \<longleftrightarrow> pq_wf (queue s) \<and> cost_at s start = 0 \<and>
     (\<forall>n \<in># pq_bag (queue s). reached w m start (n_pos n) (n_first_dir n) (n_cost n) \<and>
        cost_at s (n_pos n) \<le> n_cost n \<and> n_cost n < 9999) \<and>
     (\<forall>p. cost_at s p \<le> 9999 \<and> (cost_at s p < 9999 \<longrightarrow> reached w m start p (dir_at s p) (cost_at s p)))"

lemma reached_step:
  assumes "reached w m start p f c" "d \<noteq> DIR_NONE" "enter_cost w m (step_pos p d) = Some e"
  shows "reached w m start (step_pos p d) (if f = DIR_NONE then d else f) (c + e)"
proof -
  obtain ds where ds: "path_cost w m start ds = Some c" "path_end start ds = p"
    "f = (case ds of [] \<Rightarrow> DIR_NONE | d # _ \<Rightarrow> d)" using assms(1) by (auto simp: reached_def)
  have "path_cost w m start (ds @ [d]) = Some (c + e)" using path_cost_snoc ds assms by blast
  moreover have "(if f = DIR_NONE then d else f) = (case ds @ [d] of [] \<Rightarrow> DIR_NONE | d # _ \<Rightarrow> d)"
    using ds by (cases ds) auto
  ultimately show ?thesis using ds(2) unfolding reached_def by (intro exI [of _ "ds @ [d]"]) simp
qed

lemma explore_cases:
  obtains "explore w m n d s = s"
    "\<And>e. enter_cost w m (step_pos (n_pos n) d) = Some e \<Longrightarrow> cost_at s (step_pos (n_pos n) d) \<le> n_cost n + e"
  | e p c f where "enter_cost w m p = Some e" "p = step_pos (n_pos n) d" "c = n_cost n + e" "c < cost_at s p"
      "f = (if n_first_dir n = DIR_NONE then d else n_first_dir n)"
      "explore w m n d s = s\<lparr>cost := (cost s)(pos_x p := (cost s (pos_x p))(pos_y p := c)),
         first_dirs := (first_dirs s)(pos_x p := (first_dirs s (pos_x p))(pos_y p := f)),
         queue := pq_push p f c (queue s)\<rparr>"
proof (cases "enter_cost w m (step_pos (n_pos n) d)")
  case None
  then show ?thesis by (intro that(1)) (simp_all add: explore_eq)
next
  case (Some e)
  show ?thesis
  proof (cases "n_cost n + e < cost_at s (step_pos (n_pos n) d)")
    case True
    then show ?thesis using Some by (intro that(2) [OF Some refl refl _ refl]) (simp_all add: explore_eq Let_def)
  next
    case False
    then show ?thesis using Some by (intro that(1)) (simp_all add: explore_eq)
  qed
qed

lemma push_node:
  assumes "pq_wf q"
  shows "pq_wf (pq_push p f c q)" "n \<in># pq_bag (pq_push p f c q) \<Longrightarrow> n = mk_node p f c \<or> n \<in># pq_bag q"
    "\<not> pq_full q \<Longrightarrow> pq_bag (pq_push p f c q) = add_mset (mk_node p f c) (pq_bag q)"
  using heap.push_wf [OF assms, of "mk_node p f c"] heap.push_mem [OF assms, of "mk_node p f c"]
    pq_push_ok(2) [OF assms] by (auto simp: mk_node_def)

lemma explore_sound:
  assumes s: "sound w m start s" and n: "reached w m start (n_pos n) (n_first_dir n) (n_cost n)" and d: "d \<noteq> DIR_NONE"
  shows "sound w m start (explore w m n d s)"
proof (cases rule: explore_cases [of w m n d s])
  case 1
  then show ?thesis using s by simp
next
  case (2 e p c f)
  note wf = s [unfolded sound_def, THEN conjunct1]
  have r: "reached w m start p f c" using reached_step [OF n d] 2 by simp
  have c: "c < 9999" using s 2(4) unfolding sound_def by (meson order_less_le_trans)
  have start: "start \<noteq> p" using s 2(4) by (auto simp: sound_def)
  let ?s = "explore w m n d s"
  have at: "cost_at ?s q = (if q = p then c else cost_at s q)" "dir_at ?s q = (if q = p then f else dir_at s q)" for q
    unfolding 2(6) by (auto simp: position_eq_iff)
  have q: "queue ?s = pq_push p f c (queue s)" unfolding 2(6) by simp
  have nodes: "reached w m start (n_pos k) (n_first_dir k) (n_cost k) \<and> cost_at ?s (n_pos k) \<le> n_cost k \<and> n_cost k < 9999"
    if "k \<in># pq_bag (queue ?s)" for k
    using push_node(2) [OF wf that [unfolded q]]
  proof
    assume "k = mk_node p f c"
    then show ?thesis using r c at by (simp add: mk_node_def)
  next
    assume k: "k \<in># pq_bag (queue s)"
    then have "reached w m start (n_pos k) (n_first_dir k) (n_cost k)" "cost_at s (n_pos k) \<le> n_cost k" "n_cost k < 9999"
      using s by (auto simp: sound_def)
    then show ?thesis using 2(4) at by auto
  qed
  have "cost_at ?s q \<le> 9999 \<and> (cost_at ?s q < 9999 \<longrightarrow> reached w m start q (dir_at ?s q) (cost_at ?s q))" for q
    using s r c at by (auto simp: sound_def)
  moreover have "pq_wf (queue ?s)" "cost_at ?s start = 0"
    using push_node(1) [OF wf] s start at q by (auto simp: sound_def)
  ultimately show ?thesis using nodes unfolding sound_def by blast
qed

lemma explore_all_sound:
  assumes "sound w m start s" "reached w m start (n_pos n) (n_first_dir n) (n_cost n)" "DIR_NONE \<notin> set ds"
  shows "sound w m start (fold (explore w m n) ds s)"
  using assms by (induction ds arbitrary: s) (auto simp: explore_sound)

lemma sound_pop:
  assumes "sound w m start s" "\<not> pq_empty (queue s)" "pq_pop (queue s) = (n, q)"
  shows "sound w m start (s\<lparr>queue := q\<rparr>)" "reached w m start (n_pos n) (n_first_dir n) (n_cost n)"
    "cost_at s (n_pos n) \<le> n_cost n" "n_cost n < 9999"
proof -
  have wf: "pq_wf (queue s)" using assms(1) by (simp add: sound_def)
  have mem: "n \<in># pq_bag (queue s)" using heap.pop_mem [OF wf assms(2)] assms(3) by simp
  then show "reached w m start (n_pos n) (n_first_dir n) (n_cost n)" "cost_at s (n_pos n) \<le> n_cost n" "n_cost n < 9999"
    using assms(1) by (auto simp: sound_def)
  have "k \<in># pq_bag q \<Longrightarrow> k \<in># pq_bag (queue s)" for k using heap.pop_sub [OF wf assms(2), of k] assms(3) by simp
  moreover have "pq_wf q" using heap.pop_wf [OF wf assms(2)] assms(3) by simp
  ultimately show "sound w m start (s\<lparr>queue := q\<rparr>)" using assms(1) by (simp add: sound_def)
qed

lemma search_dirs_none: "DIR_NONE \<notin> set search_dirs"
  by (simp add: search_dirs_def)

lemma search_unfold:
  assumes "\<not> pq_empty (queue s)" "pq_pop (queue s) = (n, q)"
  shows "search_loop w m target s =
      (if n_pos n = target then dir_at s target
       else if cost_at s (n_pos n) < n_cost n then search_loop w m target (s\<lparr>queue := q\<rparr>)
       else search_loop w m target (fold (explore w m n) search_dirs (s\<lparr>queue := q\<rparr>)))"
    "search_fits w m target s \<longleftrightarrow>
      (if n_pos n = target then True
       else if cost_at s (n_pos n) < n_cost n then search_fits w m target (s\<lparr>queue := q\<rparr>)
       else pq_size q + 4 \<le> 256 \<and> search_fits w m target (fold (explore w m n) search_dirs (s\<lparr>queue := q\<rparr>)))"
  by (subst search_loop.simps, simp add: assms position_eq_iff Let_def)
    (subst search_fits.simps, simp add: assms position_eq_iff Let_def)

lemma search_induct:
  fixes w :: bool and m :: game_map
  assumes step: "\<And>s. (\<And>n q. \<not> pq_empty (queue s) \<Longrightarrow> pq_pop (queue s) = (n, q) \<Longrightarrow>
      P (s\<lparr>queue := q\<rparr>) \<and> P (fold (explore w m n) search_dirs (s\<lparr>queue := q\<rparr>))) \<Longrightarrow> P s"
  shows "P s"
proof (induction s rule: wf_induct_rule [OF wf_inv_image [OF wf_search_order, of "\<lambda>s. (w, m, undefined, s)"]])
  case (1 s)
  show ?case
  proof (rule step)
    fix n q assume a: "\<not> pq_empty (queue s)" "pq_pop (queue s) = (n, q)"
    show "P (s\<lparr>queue := q\<rparr>) \<and> P (fold (explore w m n) search_dirs (s\<lparr>queue := q\<rparr>))"
      using 1 search_order_pop [OF a(1) a(2) [symmetric]] search_order_explore [OF a(1) a(2) [symmetric]]
      unfolding in_inv_image by blast
  qed
qed

lemma search_loop_sound:
  assumes "sound w m start s" "search_loop w m target s = d" "d \<noteq> DIR_NONE"
  shows "\<exists>c. reached w m start target d c"
  using assms
proof (induction s rule: search_induct [where w = w and m = m])
  case (1 s)
  obtain n q where nq: "pq_pop (queue s) = (n, q)" by fastforce
  show ?case
  proof (cases "pq_empty (queue s)")
    case True
    then show ?thesis using "1.prems" by (simp add: search_loop.simps)
  next
    case False
    note pop = sound_pop [OF \<open>sound w m start s\<close> False nq]
    have expl: "sound w m start (fold (explore w m n) search_dirs (s\<lparr>queue := q\<rparr>))"
      by (rule explore_all_sound [OF pop(1,2) search_dirs_none])
    consider "n_pos n = target" | "n_pos n \<noteq> target" "n_cost n > cost_at s (n_pos n)"
      | "n_pos n \<noteq> target" "\<not> n_cost n > cost_at s (n_pos n)" by blast
    then show ?thesis
    proof cases
      case 1
      then have "search_loop w m target s = dir_at s target" using False nq by (simp add: search_unfold)
      moreover have "cost_at s target < 9999" using pop 1 by simp
      ultimately show ?thesis using \<open>sound w m start s\<close> \<open>search_loop w m target s = d\<close> by (auto simp: sound_def)
    next
      case 2
      then show ?thesis using "1.IH" [OF False nq] "1.prems" pop(1) by (simp add: search_unfold [OF False nq])
    next
      case 3
      then show ?thesis using "1.IH" [OF False nq] "1.prems" expl by (simp add: search_unfold [OF False nq])
    qed
  qed
qed

subsection \<open>Optimality\<close>

text \<open>A cell with a known cost either waits in the queue or has passed its cost on to its
  neighbours; the target itself always waits. While the cell \<open>v\<close> is explored, it has passed its
  cost on in the directions \<open>D\<close> only.\<close>

definition pending :: "search_state \<Rightarrow> position \<Rightarrow> bool" where
  "pending s p \<longleftrightarrow> (\<exists>n \<in># pq_bag (queue s). n_pos n = p \<and> n_cost n = cost_at s p)"

definition relaxed_in :: "bool \<Rightarrow> game_map \<Rightarrow> direction set \<Rightarrow> search_state \<Rightarrow> position \<Rightarrow> bool" where
  "relaxed_in w m D s p \<longleftrightarrow> (\<forall>d \<in> D. \<forall>e. enter_cost w m (step_pos p d) = Some e \<longrightarrow>
     cost_at s (step_pos p d) \<le> cost_at s p + e)"

abbreviation all_dirs :: "direction set" where
  "all_dirs \<equiv> set search_dirs"

definition settled :: "bool \<Rightarrow> game_map \<Rightarrow> position \<Rightarrow> search_state \<Rightarrow> position \<Rightarrow> bool" where
  "settled w m target s p \<longleftrightarrow> (cost_at s p < 9999 \<longrightarrow> pending s p \<or> p \<noteq> target \<and> relaxed_in w m all_dirs s p)"

lemma all_dirs_iff: "d \<in> all_dirs \<longleftrightarrow> d \<noteq> DIR_NONE"
  by (cases d) (auto simp: search_dirs_def)

lemma step_pos_neq: "d \<noteq> DIR_NONE \<Longrightarrow> step_pos p d \<noteq> p"
  by (cases d) (auto simp: step_pos_def position_eq_iff)

lemma explore_settled:
  assumes wf: "pq_wf (queue s)" "\<not> pq_full (queue s)" and n: "n_cost n = cost_at s (n_pos n)" and d: "d \<noteq> DIR_NONE"
    and q: "\<And>q. q \<noteq> n_pos n \<Longrightarrow> settled w m target s q" and D: "relaxed_in w m D s (n_pos n)"
  shows "n_cost n = cost_at (explore w m n d s) (n_pos n)"
    "\<And>q. q \<noteq> n_pos n \<Longrightarrow> settled w m target (explore w m n d s) q"
    "relaxed_in w m (insert d D) (explore w m n d s) (n_pos n)"
proof -
  have "n_cost n = cost_at (explore w m n d s) (n_pos n) \<and>
    (\<forall>q. q \<noteq> n_pos n \<longrightarrow> settled w m target (explore w m n d s) q) \<and>
    relaxed_in w m (insert d D) (explore w m n d s) (n_pos n)"
  proof (cases rule: explore_cases [of w m n d s])
    case 1
    then show ?thesis using n q D by (auto simp: relaxed_in_def)
  next
    case (2 e p c f)
    let ?s = "explore w m n d s"
    have at: "cost_at ?s q = (if q = p then c else cost_at s q)" for q
      unfolding 2(6) by (auto simp: position_eq_iff)
    have le: "cost_at ?s q \<le> cost_at s q" for q using at 2(4) by simp
    have bag: "pq_bag (queue ?s) = add_mset (mk_node p f c) (pq_bag (queue s))"
      unfolding 2(6) using push_node(3) [OF wf] by simp
    have v: "n_pos n \<noteq> p" using 2(2) step_pos_neq [OF d] by metis
    have "settled w m target ?s q" if "q \<noteq> n_pos n" for q
    proof (cases "q = p")
      case True
      then have "pending ?s q" using at bag by (auto simp: pending_def mk_node_def)
      then show ?thesis by (simp add: settled_def)
    next
      case False
      then have "pending s q \<Longrightarrow> pending ?s q" using at bag by (auto simp: pending_def)
      moreover have "relaxed_in w m all_dirs s q \<Longrightarrow> relaxed_in w m all_dirs ?s q"
        using at [of q] False le unfolding relaxed_in_def by (metis order_trans)
      ultimately show ?thesis using q [OF that] at [of q] False by (auto simp: settled_def)
    qed
    moreover have "relaxed_in w m (insert d D) ?s (n_pos n)"
      using D le at [of "n_pos n"] v n at [of p] 2(1-3) unfolding relaxed_in_def
      by (auto intro: order_trans)
    ultimately show ?thesis using at [of "n_pos n"] v n by simp
  qed
  then show "n_cost n = cost_at (explore w m n d s) (n_pos n)"
    "\<And>q. q \<noteq> n_pos n \<Longrightarrow> settled w m target (explore w m n d s) q"
    "relaxed_in w m (insert d D) (explore w m n d s) (n_pos n)" by blast+
qed

lemma explore_queue:
  assumes "pq_wf (queue s)"
  shows "pq_wf (queue (explore w m n d s))" "pq_size (queue (explore w m n d s)) \<le> pq_size (queue s) + 1"
proof -
  have "pq_size (pq_push p f c q) \<le> pq_size q + 1" for p f c q by (simp add: pq_push_def Let_def)
  then show "pq_wf (queue (explore w m n d s))" "pq_size (queue (explore w m n d s)) \<le> pq_size (queue s) + 1"
    using assms push_node(1) by (cases rule: explore_cases [of w m n d s]; simp)+
qed

lemma explore_all_settled:
  assumes "pq_wf (queue s)" "pq_size (queue s) + length ds \<le> 256" "n_cost n = cost_at s (n_pos n)" "DIR_NONE \<notin> set ds"
    "\<And>q. q \<noteq> n_pos n \<Longrightarrow> settled w m target s q" "relaxed_in w m D s (n_pos n)"
  shows "(\<forall>q. q \<noteq> n_pos n \<longrightarrow> settled w m target (fold (explore w m n) ds s) q) \<and>
    relaxed_in w m (D \<union> set ds) (fold (explore w m n) ds s) (n_pos n)"
  using assms
proof (induction ds arbitrary: s D)
  case (Cons d ds)
  have nf: "\<not> pq_full (queue s)" using Cons.prems(2) by (simp add: pq_full_def)
  have d: "d \<noteq> DIR_NONE" using Cons.prems(4) by auto
  note e = explore_settled [OF Cons.prems(1) nf Cons.prems(3) d Cons.prems(5,6)]
  note q = explore_queue [OF Cons.prems(1), of w m n d]
  have "(\<forall>q. q \<noteq> n_pos n \<longrightarrow> settled w m target (fold (explore w m n) ds (explore w m n d s)) q) \<and>
    relaxed_in w m (insert d D \<union> set ds) (fold (explore w m n) ds (explore w m n d s)) (n_pos n)"
    using Cons.prems(2,4) q(2) by (intro Cons.IH q(1) e) simp_all
  then show ?case by simp
qed simp

lemma pop_settled:
  assumes wf: "pq_wf (queue s)" and ne: "\<not> pq_empty (queue s)" and pop: "pq_pop (queue s) = (n, q)"
    and p: "settled w m target s p" and np: "p \<noteq> n_pos n \<or> n_cost n \<noteq> cost_at s p"
  shows "settled w m target (s\<lparr>queue := q\<rparr>) p"
proof -
  have "pending s p \<Longrightarrow> pending (s\<lparr>queue := q\<rparr>) p"
    using heap.pop_rest [OF wf ne] pop np unfolding pending_def by fastforce
  then show ?thesis using p by (auto simp: settled_def relaxed_in_def)
qed

text \<open>No path costs less than everything that waits.\<close>

lemma path_cost_snocD:
  assumes "path_cost w m p (ds @ [d]) = Some c"
  obtains c0 e where "path_cost w m p ds = Some c0" "d \<noteq> DIR_NONE" "enter_cost w m (step_pos (path_end p ds) d) = Some e"
    "c = c0 + e"
proof -
  have "\<exists>c0 e. path_cost w m p ds = Some c0 \<and> d \<noteq> DIR_NONE \<and> enter_cost w m (step_pos (path_end p ds) d) = Some e \<and> c = c0 + e"
    using assms
    by (induction ds arbitrary: p c) (fastforce simp: bind_eq_Some_conv split: if_splits)+
  then show ?thesis using that by blast
qed

lemma lower_bound:
  assumes s: "\<And>p. settled w m target s p" "cost_at s start = 0" "K \<le> 9999"
    and K: "\<And>n. n \<in># pq_bag (queue s) \<Longrightarrow> K \<le> n_cost n"
    and path: "path_cost w m start ds = Some c" "path_end start ds = target"
  shows "K \<le> c"
proof (rule ccontr)
  assume "\<not> K \<le> c"
  have not_pending: "cost_at s p < K \<Longrightarrow> p \<noteq> target \<and> relaxed_in w m all_dirs s p" for p
    using s(1) [of p] s(3) K unfolding settled_def pending_def by (metis leD order_less_le_trans)
  have "path_cost w m start ds = Some c \<Longrightarrow> c < K \<Longrightarrow> cost_at s (path_end start ds) \<le> c" for ds c
  proof (induction ds arbitrary: c rule: rev_induct)
    case (snoc d ds)
    from snoc.prems(1) obtain c0 e where d: "path_cost w m start ds = Some c0" "d \<noteq> DIR_NONE"
      "enter_cost w m (step_pos (path_end start ds) d) = Some e" "c = c0 + e" by (rule path_cost_snocD)
    then have le: "cost_at s (path_end start ds) \<le> c0" using snoc by simp
    then have "relaxed_in w m all_dirs s (path_end start ds)" using not_pending d(4) snoc.prems(2) by simp
    then have "cost_at s (step_pos (path_end start ds) d) \<le> cost_at s (path_end start ds) + e"
      using d(2,3) by (simp add: relaxed_in_def all_dirs_iff)
    then show ?case using le d(4) by simp
  qed (simp add: s(2))
  then have "cost_at s target < K" using path \<open>\<not> K \<le> c\<close> by fastforce
  then show False using not_pending by blast
qed

definition shortest :: "bool \<Rightarrow> game_map \<Rightarrow> position \<Rightarrow> position \<Rightarrow> nat \<Rightarrow> bool" where
  "shortest w m start target c \<longleftrightarrow>
     (\<forall>ds c'. path_cost w m start ds = Some c' \<and> path_end start ds = target \<longrightarrow> c \<le> c')"

lemma search_loop_shortest:
  assumes "sound w m start s" "\<And>p. settled w m target s p" "search_fits w m target s"
  shows "(\<exists>c. reached w m start target (search_loop w m target s) c \<and> shortest w m start target c) \<or>
    search_loop w m target s = DIR_NONE \<and> shortest w m start target 9999"
  using assms
proof (induction s rule: search_induct [where w = w and m = m])
  case (1 s)
  obtain n q where nq: "pq_pop (queue s) = (n, q)" by fastforce
  have wf: "pq_wf (queue s)" and start: "cost_at s start = 0" using "1.prems"(1) by (simp_all add: sound_def)
  show ?case
  proof (cases "pq_empty (queue s)")
    case True
    then have "shortest w m start target 9999"
      using lower_bound [of w m target s start 9999] "1.prems"(2) start heap.empty_bag [OF wf] by (auto simp: shortest_def)
    then show ?thesis using True by (simp add: search_loop.simps)
  next
    case False
    note pop = sound_pop [OF "1.prems"(1) False nq]
    have min: "\<And>k. k \<in># pq_bag (queue s) \<Longrightarrow> n_cost n \<le> n_cost k" using heap.pop_min [OF wf False] nq by simp
    consider "n_pos n = target" | "n_pos n \<noteq> target" "n_cost n > cost_at s (n_pos n)"
      | "n_pos n \<noteq> target" "n_cost n = cost_at s (n_pos n)" using pop(3) le_neq_implies_less by metis
    then show ?thesis
    proof cases
      case 1
      then have "search_loop w m target s = dir_at s target" using False nq by (simp add: search_unfold)
      moreover have "reached w m start target (dir_at s target) (cost_at s target)"
        using "1.prems"(1) pop(3,4) 1 by (auto simp: sound_def)
      moreover have "shortest w m start target (cost_at s target)"
        using lower_bound [OF "1.prems"(2) start _ min] pop(3,4) 1 unfolding shortest_def by fastforce
      ultimately show ?thesis by metis
    next
      case 2
      have "\<And>p. settled w m target (s\<lparr>queue := q\<rparr>) p" using pop_settled [OF wf False nq "1.prems"(2)] 2 by (metis nat_neq_iff)
      moreover have "search_fits w m target (s\<lparr>queue := q\<rparr>)"
        "search_loop w m target s = search_loop w m target (s\<lparr>queue := q\<rparr>)"
        using "1.prems"(3) 2 False nq by (simp_all add: search_unfold [OF False nq])
      ultimately show ?thesis using "1.IH" [OF False nq] pop(1) by simp
    next
      case 3
      let ?s = "fold (explore w m n) search_dirs (s\<lparr>queue := q\<rparr>)"
      have fits: "pq_size q + 4 \<le> 256" "search_fits w m target ?s" "search_loop w m target s = search_loop w m target ?s"
        using "1.prems"(3) 3 False nq by (simp_all add: search_unfold [OF False nq])
      have "\<And>p. p \<noteq> n_pos n \<Longrightarrow> settled w m target (s\<lparr>queue := q\<rparr>) p"
        using pop_settled [OF wf False nq "1.prems"(2)] by blast
      moreover have "pq_wf q" using pop(1) by (simp add: sound_def)
      ultimately have "(\<forall>p. p \<noteq> n_pos n \<longrightarrow> settled w m target ?s p) \<and> relaxed_in w m ({} \<union> all_dirs) ?s (n_pos n)"
        using fits(1) 3 search_dirs_none by (intro explore_all_settled) (simp_all add: search_dirs_def relaxed_in_def)
      then have "\<And>p. settled w m target ?s p" using 3 by (metis settled_def sup_bot_left)
      then show ?thesis using "1.IH" [OF False nq] explore_all_sound [OF pop(1,2) search_dirs_none] fits by simp
    qed
  qed
qed

lemma search_init_ok:
  "sound w m start (search_init start)" "settled w m target (search_init start) p"
proof -
  have e: "pq_wf (pq_init pq_storage)" "\<not> pq_full (pq_init pq_storage)" "pq_bag (pq_init pq_storage) = {#}"
    by (simp_all add: pq_wf_def pq_init_def pq_storage_def heap_ok_def pq_full_def pq_bag_def)
  have bag: "pq_bag (queue (search_init start)) = {#mk_node start DIR_NONE 0#}" "pq_wf (queue (search_init start))"
    using push_node(1,3) [OF e(1)] e by (simp_all add: search_init_def)
  have at: "cost_at (search_init start) p = (if p = start then 0 else 9999)" "dir_at (search_init start) p = DIR_NONE" for p
    by (auto simp: search_init_def position_eq_iff)
  have "reached w m start start DIR_NONE 0" unfolding reached_def by (intro exI [of _ "[]"]) simp
  then show "sound w m start (search_init start)" using bag at by (simp add: sound_def mk_node_def)
  show "settled w m target (search_init start) p" using bag at by (auto simp: settled_def pending_def mk_node_def)
qed

section \<open>Properties\<close>

text \<open>Property C21 (find_path_sound). A direction returned by \<open>logic_find_path_bfs\<close> is the first
  step of a path from the start to the target that enters only cells the mover may enter.\<close>

theorem find_path_sound:
  assumes "logic_find_path_bfs start target can_pass_walls m = d" "d \<noteq> DIR_NONE"
  shows "\<exists>ds c. path_cost can_pass_walls m start (d # ds) = Some c \<and> path_end start (d # ds) = target"
proof -
  obtain c where "reached can_pass_walls m start target d c"
    using search_loop_sound [OF search_init_ok(1)] assms unfolding logic_find_path_bfs_def by blast
  then show ?thesis using assms(2) unfolding reached_def by (metis list.case(1) list.case(2) neq_Nil_conv)
qed

text \<open>Property C5 (find_path_shortest). When the queue has room throughout the search, the
  direction returned starts a cheapest path to the target, with open cells at cost one and
  crossed walls at cost ten; no direction is returned only if the start is the target or no
  path is cheaper than 9999.\<close>

theorem find_path_shortest:
  assumes "search_fits can_pass_walls m target (search_init start)" "start \<noteq> target"
  shows "case logic_find_path_bfs start target can_pass_walls m of
      DIR_NONE \<Rightarrow> shortest can_pass_walls m start target 9999
    | d \<Rightarrow> \<exists>ds c. path_cost can_pass_walls m start (d # ds) = Some c \<and> path_end start (d # ds) = target \<and>
        shortest can_pass_walls m start target c"
proof -
  define d where "d = search_loop can_pass_walls m target (search_init start)"
  have "(\<exists>ds c. d \<noteq> DIR_NONE \<and> path_cost can_pass_walls m start (d # ds) = Some c \<and> path_end start (d # ds) = target \<and>
      shortest can_pass_walls m start target c) \<or> d = DIR_NONE \<and> shortest can_pass_walls m start target 9999"
    using search_loop_shortest [OF search_init_ok assms(1)]
  proof (elim disjE exE conjE, fold d_def)
    fix c assume "reached can_pass_walls m start target d c" and c: "shortest can_pass_walls m start target c"
    then obtain ds where ds: "path_cost can_pass_walls m start ds = Some c" "path_end start ds = target"
      "d = (case ds of [] \<Rightarrow> DIR_NONE | d # _ \<Rightarrow> d)" by (auto simp: reached_def)
    then obtain ds' where "ds = d # ds'" "d \<noteq> DIR_NONE" using assms(2) by (cases ds) (auto split: if_splits)
    then show ?thesis using ds c by blast
  qed simp
  then show ?thesis unfolding logic_find_path_bfs_def d_def [symmetric] by (cases d) auto
qed

definition tunnel_example :: game_map where
  "tunnel_example = \<lparr>g_map = \<lambda>x y. if y = 5 \<and> 10 \<le> x \<and> x \<le> 12 then TILE_EMPTY else TILE_DIRT,
     gem_positions = [], seed = 12345\<rparr>"

theorem find_path_sound_witness:
  "\<exists>ds c. path_cost False tunnel_example (mk_pos 10 5) (DIR_RIGHT # ds) = Some c \<and>
     path_end (mk_pos 10 5) (DIR_RIGHT # ds) = mk_pos 12 5"
  by (rule find_path_sound) code_simp+

theorem find_path_shortest_witness:
  "case logic_find_path_bfs (mk_pos 10 5) (mk_pos 12 5) False tunnel_example of
      DIR_NONE \<Rightarrow> shortest False tunnel_example (mk_pos 10 5) (mk_pos 12 5) 9999
    | d \<Rightarrow> \<exists>ds c. path_cost False tunnel_example (mk_pos 10 5) (d # ds) = Some c \<and>
        path_end (mk_pos 10 5) (d # ds) = mk_pos 12 5 \<and> shortest False tunnel_example (mk_pos 10 5) (mk_pos 12 5) c"
  by (rule find_path_shortest) code_simp+

end
