(* ===== verification/Game_Logic.thy ===== *)
theory Game_Logic
  imports Game_Path
begin

text \<open>
  \<open>project/game_logic.c\<close>: the player, the enemies, the rocks, scoring and the per-tick update.
  The state passed to every routine is a \<open>world\<close>: the \<open>GameLogicState\<close>, the map of \<open>game_map.c\<close> and
  whether \<open>g_current_logic_state\<close> has been set; the program has a single \<open>GameLogicState\<close>, so that
  pointer is either null or points to it. The result of \<open>gettime()\<close> is the argument \<open>now\<close>. The
  null checks on arguments that are addresses of existing objects have no counterpart.
\<close>

section \<open>State\<close>

record logic_state =
  scene :: game_scene
  score :: int
  round_nr :: int
  lives :: int
  enemies_remaining :: int
  time_elapsed :: int
  round_start_timer :: int
  enemies_cleared_time :: int
  plyr :: player
  enemies :: "enemy list"
  enemy_count :: int
  rocks :: "rock list"
  rock_count :: int
  running :: bool

record world =
  gl :: logic_state
  gm :: game_map
  cur_logic :: bool

definition on_gl :: "(logic_state \<Rightarrow> logic_state) \<Rightarrow> world \<Rightarrow> world" where
  "on_gl f w = w\<lparr>gl := f (gl w)\<rparr>"

definition on_gm :: "(game_map \<Rightarrow> game_map) \<Rightarrow> world \<Rightarrow> world" where
  "on_gm f w = w\<lparr>gm := f (gm w)\<rparr>"

definition on_player :: "(player \<Rightarrow> player) \<Rightarrow> world \<Rightarrow> world" where
  "on_player f w = on_gl (\<lambda>s. s\<lparr>plyr := f (plyr s)\<rparr>) w"

definition on_enemy :: "nat \<Rightarrow> (enemy \<Rightarrow> enemy) \<Rightarrow> world \<Rightarrow> world" where
  "on_enemy i f w = on_gl (\<lambda>s. s\<lparr>enemies := (enemies s)[i := f (enemies s ! i)]\<rparr>) w"

definition on_rock :: "nat \<Rightarrow> (rock \<Rightarrow> rock) \<Rightarrow> world \<Rightarrow> world" where
  "on_rock i f w = on_gl (\<lambda>s. s\<lparr>rocks := (rocks s)[i := f (rocks s ! i)]\<rparr>) w"

text \<open>The position of an entity, and whether an enemy still takes part.\<close>

abbreviation ppos :: "world \<Rightarrow> position" where "ppos w \<equiv> pos (p_base (plyr (gl w)))"
abbreviation epos :: "enemy \<Rightarrow> position" where "epos e \<equiv> pos (e_base e)"
abbreviation rpos :: "rock \<Rightarrow> position" where "rpos r \<equiv> pos (r_base r)"

definition alive :: "enemy \<Rightarrow> bool" where
  "alive e \<longleftrightarrow> active (e_base e) \<and> e_state e \<noteq> ENEMY_DEAD"

definition ecount :: "world \<Rightarrow> nat" where "ecount w = nat (enemy_count (gl w))"
definition rcount :: "world \<Rightarrow> nat" where "rcount w = nat (rock_count (gl w))"

text \<open>The index of the first element that satisfies a condition, or -1.\<close>

definition first_index :: "(nat \<Rightarrow> bool) \<Rightarrow> nat \<Rightarrow> int" where
  "first_index P n = (case find P [0..<n] of None \<Rightarrow> -1 | Some i \<Rightarrow> int i)"

section \<open>Initialisation\<close>

definition logic_player_init :: "int \<Rightarrow> int \<Rightarrow> player \<Rightarrow> player" where
  "logic_player_init x y p =
     p\<lparr>p_base := (p_base p)\<lparr>pos := mk_pos x y, dir := DIR_NONE, etype := ENTITY_PLAYER, active := True,
         speed_counter := 0, speed_limit := PLAYER_SPEED\<rparr>,
       p_state := PLAYER_IDLE, facing_dir := DIR_RIGHT, is_pumping := False, pump_length := 0,
       pump_dir := DIR_NONE, is_attacking := False, attack_timer := 0\<rparr>"

definition logic_enemy_init :: "int \<Rightarrow> int \<Rightarrow> entity_type \<Rightarrow> enemy \<Rightarrow> enemy" where
  "logic_enemy_init x y type e =
     e\<lparr>e_base := (e_base e)\<lparr>pos := mk_pos x y, dir := DIR_NONE, etype := type, active := True,
         speed_counter := 0, speed_limit := (if type = ENTITY_FYGAR then FYGAR_BASE_SPEED else POOKA_BASE_SPEED)\<rparr>,
       e_state := ENEMY_NORMAL, inflate_level := 0, ghost_timer := 0, fire_start_time := 0,
       fire_end_time := 0, fire_active := False, fire_duration := 0, paralyzed_timer := 0,
       has_left_tunnel := False\<rparr>"

definition logic_rock_init :: "int \<Rightarrow> int \<Rightarrow> rock \<Rightarrow> rock" where
  "logic_rock_init x y r =
     r\<lparr>r_base := (r_base r)\<lparr>pos := mk_pos x y, dir := DIR_NONE, etype := ENTITY_ROCK, active := True,
         speed_counter := 0, speed_limit := 1\<rparr>,
       r_state := ROCK_STABLE, wobble_timer := 0, has_crushed := False, r_blink_timer := 0, r_blink_count := 0\<rparr>"

definition deactivate_enemy :: "enemy \<Rightarrow> enemy" where
  "deactivate_enemy e = e\<lparr>e_base := (e_base e)\<lparr>active := False\<rparr>\<rparr>"

definition deactivate_rock :: "rock \<Rightarrow> rock" where
  "deactivate_rock r = r\<lparr>r_base := (r_base r)\<lparr>active := False\<rparr>\<rparr>"

definition logic_init :: "world \<Rightarrow> world" where
  "logic_init w =
     (let w = on_gl (\<lambda>s. s\<lparr>scene := SCENE_MENU, score := 0, round_nr := 1, lives := INITIAL_LIVES,
                time_elapsed := 0, round_start_timer := 0, enemies_cleared_time := 0, running := True,
                enemies_remaining := 0, enemy_count := 0, rock_count := 0\<rparr>) w;
          w = on_player (logic_player_init PLAYER_START_X PLAYER_START_Y) w;
          w = fold (\<lambda>i. on_enemy i deactivate_enemy) [0..<MAX_ENEMIES] w
      in fold (\<lambda>i. on_rock i deactivate_rock) [0..<MAX_ROCKS] w)"

definition logic_start_round :: "int \<Rightarrow> world \<Rightarrow> world" where
  "logic_start_round rnd w =
     (let w = on_gl (\<lambda>s. s\<lparr>round_nr := rnd, scene := SCENE_ROUND_START, round_start_timer := ROUND_START_DELAY,
                enemies_cleared_time := 0\<rparr>) w;
          w = on_player (logic_player_init PLAYER_START_X PLAYER_START_Y) w;
          w = on_gm (map_init rnd) w;
          num_enemies = 2 + cdiv rnd 2;
          num_enemies = (if num_enemies > int MAX_ENEMIES then int MAX_ENEMIES else num_enemies);
          w = on_gl (\<lambda>s. s\<lparr>enemy_count := num_enemies, enemies_remaining := num_enemies\<rparr>) w;
          w = fold (\<lambda>i. on_enemy i (logic_enemy_init (60 + (int i * 5) mod 15) (8 + (int i * 4) mod 12)
                (if i mod 2 = 0 then ENTITY_POOKA else ENTITY_FYGAR))) [0..<nat num_enemies] w;
          w = on_gl (\<lambda>s. s\<lparr>rock_count := 4\<rparr>) w
      in fold (\<lambda>i. on_rock i (logic_rock_init (20 + int i * 15) (6 + int i * 3))) [0..<4] w)"

section \<open>Scoring\<close>

definition logic_add_score :: "int \<Rightarrow> world \<Rightarrow> world" where
  "logic_add_score points w =
     on_gl (\<lambda>s. s\<lparr>score := (if score s + points > MAX_SCORE then MAX_SCORE else score s + points)\<rparr>) w"

definition logic_get_layer :: "int \<Rightarrow> int" where
  "logic_get_layer y =
     (if y \<ge> 3 \<and> y \<le> 7 then 1 else if y \<ge> 8 \<and> y \<le> 12 then 2
      else if y \<ge> 13 \<and> y \<le> 17 then 3 else if y \<ge> 18 \<and> y \<le> 22 then 4 else 0)"

definition logic_calculate_enemy_points :: "int \<Rightarrow> int" where
  "logic_calculate_enemy_points y =
     (let layer = logic_get_layer y
      in if layer = 1 then 200 else if layer = 2 then 300 else if layer = 3 then 400
         else if layer = 4 then 500 else 200)"

text \<open>The steps shared by the four ways an enemy dies: it is marked, the count goes down and its
  depth is scored.\<close>

definition kill_enemy :: "nat \<Rightarrow> int \<Rightarrow> world \<Rightarrow> world" where
  "kill_enemy i factor w =
     (let w = on_enemy i (\<lambda>e. e\<lparr>e_state := ENEMY_DEAD, e_base := (e_base e)\<lparr>active := False\<rparr>\<rparr>) w;
          w = on_gl (\<lambda>s. s\<lparr>enemies_remaining := enemies_remaining s - 1\<rparr>) w
      in logic_add_score (logic_calculate_enemy_points (pos_y (epos (enemies (gl w) ! i))) * factor) w)"

section \<open>Collisions\<close>

definition logic_check_player_enemy_collision :: "world \<Rightarrow> int" where
  "logic_check_player_enemy_collision w =
     (if \<not> active (p_base (plyr (gl w))) then -1
      else first_index (\<lambda>i. let e = enemies (gl w) ! i in alive e \<and>
             pos_x (ppos w) = pos_x (epos e) \<and> pos_y (ppos w) = pos_y (epos e)) (ecount w))"

definition logic_check_player_rock_collision :: "world \<Rightarrow> int" where
  "logic_check_player_rock_collision w =
     (if \<not> active (p_base (plyr (gl w))) then -1
      else first_index (\<lambda>i. let r = rocks (gl w) ! i in active (r_base r) \<and>
             pos_x (ppos w) = pos_x (rpos r) \<and> pos_y (ppos w) = pos_y (rpos r)) (rcount w))"

primrec pump_hit_loop :: "nat \<Rightarrow> int \<Rightarrow> int \<Rightarrow> world \<Rightarrow> int" where
  "pump_hit_loop 0 x y w = -1"
| "pump_hit_loop (Suc n) x y w =
     (let d = pump_dir (plyr (gl w)); x = x + dir_dx d; y = y + dir_dy d;
          hit = first_index (\<lambda>j. let e = enemies (gl w) ! j in alive e \<and> pos_x (epos e) = x \<and> pos_y (epos e) = y) (ecount w)
      in if hit \<ge> 0 then hit
         else if \<not> map_is_walkable x y (gm w) then -1
         else pump_hit_loop n x y w)"

definition logic_check_pump_hit :: "world \<Rightarrow> int" where
  "logic_check_pump_hit w =
     (if \<not> is_pumping (plyr (gl w)) then -1
      else pump_hit_loop (nat (pump_length (plyr (gl w)))) (pos_x (ppos w)) (pos_y (ppos w)) w)"

section \<open>Player\<close>

definition has_rock_at :: "int \<Rightarrow> int \<Rightarrow> world \<Rightarrow> bool" where
  "has_rock_at x y w =
     list_ex (\<lambda>i. let r = rocks (gl w) ! i in active (r_base r) \<and> pos_x (rpos r) = x \<and> pos_y (rpos r) = y \<and>
        (r_state r = ROCK_STABLE \<or> r_state r = ROCK_WOBBLING)) [0..<rcount w]"

definition logic_player_die :: "world \<Rightarrow> world" where
  "logic_player_die w =
     (let w = on_player (\<lambda>p. p\<lparr>p_state := PLAYER_DEAD, is_pumping := False, pump_length := 0\<rparr>) w;
          w = on_gl (\<lambda>s. s\<lparr>lives := lives s - 1\<rparr>) w
      in if lives (gl w) > 0 then on_gl (\<lambda>s. s\<lparr>round_start_timer := RESPAWN_DELAY\<rparr>) w else w)"

definition logic_player_respawn :: "world \<Rightarrow> world" where
  "logic_player_respawn w =
     on_player (\<lambda>p. (logic_player_init PLAYER_START_X PLAYER_START_Y p)\<lparr>p_state := PLAYER_IDLE\<rparr>) w"

definition set_player_pos :: "int \<Rightarrow> int \<Rightarrow> world \<Rightarrow> world" where
  "set_player_pos x y w = on_player (\<lambda>p. p\<lparr>p_base := (p_base p)\<lparr>pos := mk_pos x y\<rparr>\<rparr>) w"

definition logic_player_move :: "direction \<Rightarrow> world \<Rightarrow> world" where
  "logic_player_move d w =
     (if \<not> active (p_base (plyr (gl w))) \<or> d = DIR_NONE then w
      else
        let new_x = pos_x (ppos w) + dir_dx d; new_y = pos_y (ppos w) + dir_dy d;
            w = on_player (facing_dir_update (\<lambda>_. d)) w in
        if \<not> map_is_valid_position new_x new_y then w
        else if new_y < ROW_SKY_END then w
        else if new_y \<ge> ROW_BORDER then w
        else if cur_logic w \<and> has_rock_at new_x new_y w then w
        else if \<not> map_is_diggable new_x new_y (gm w) \<and> \<not> map_is_walkable new_x new_y (gm w) then w
        else
          let w = (if map_is_diggable new_x new_y (gm w)
                   then on_player (p_state_update (\<lambda>_. PLAYER_DIGGING)) (on_gm (map_dig new_x new_y) w)
                   else on_player (p_state_update (\<lambda>_. PLAYER_MOVING)) w);
              w = set_player_pos new_x new_y w
          in if map_has_gem new_x new_y (gm w) then on_gm (map_remove_gem new_x new_y) w else w)"

primrec attack_clear_loop :: "nat \<Rightarrow> int \<Rightarrow> int \<Rightarrow> int \<Rightarrow> int \<Rightarrow> int \<Rightarrow> game_map \<Rightarrow> int" where
  "attack_clear_loop 0 i x y dx dy m = 0"
| "attack_clear_loop (Suc n) i x y dx dy m =
     (let check_x = x + dx * i; check_y = y + dy * i in
      if \<not> map_is_valid_position check_x check_y then 0
      else if map_is_solid check_x check_y m then 0
      else 1 + attack_clear_loop n (i + 1) x y dx dy m)"

definition attack_path_clear :: "int \<Rightarrow> int \<Rightarrow> direction \<Rightarrow> int \<Rightarrow> game_map \<Rightarrow> int" where
  "attack_path_clear x y d rng m =
     (if d = DIR_NONE then 0 else attack_clear_loop (nat rng) 1 x y (dir_dx d) (dir_dy d) m)"

definition attack_hit :: "int \<Rightarrow> int \<Rightarrow> nat \<Rightarrow> world \<Rightarrow> world" where
  "attack_hit x y i w =
     (let e = enemies (gl w) ! i in
      if \<not> active (e_base e) then w
      else if e_state e = ENEMY_PARALYZED then w
      else if pos_x (epos e) = x \<and> pos_y (epos e) = y
      then on_enemy i (\<lambda>e. e\<lparr>e_state := ENEMY_PARALYZED, e_blink_count := 10, paralyzed_timer := 5\<rparr>) w
      else w)"

definition logic_player_attack :: "world \<Rightarrow> bool \<times> world" where
  "logic_player_attack w =
     (if p_state (plyr (gl w)) = PLAYER_DEAD then (False, w)
      else if facing_dir (plyr (gl w)) = DIR_NONE then (False, w)
      else
        let d = facing_dir (plyr (gl w));
            rng = (if d = DIR_UP \<or> d = DIR_DOWN then ATTACK_RANGE_V else ATTACK_RANGE_H);
            clear = attack_path_clear (pos_x (ppos w)) (pos_y (ppos w)) d rng (gm w) in
        if clear = 0 then (False, w)
        else
          let w = on_player (\<lambda>p. p\<lparr>is_attacking := True, attack_timer := ATTACK_DISPLAY_TIME, p_state := PLAYER_ATTACKING\<rparr>) w
          in (True, fold (\<lambda>i. fold (attack_hit (pos_x (ppos w) + dir_dx d * i) (pos_y (ppos w) + dir_dy d * i)) [0..<ecount w])
                 [1..clear] w))"

definition logic_enemy_inflate :: "nat \<Rightarrow> world \<Rightarrow> world" where
  "logic_enemy_inflate i w =
     (if e_state (enemies (gl w) ! i) = ENEMY_DEAD then w
      else
        let w = on_enemy i (\<lambda>e. e\<lparr>e_state := ENEMY_INFLATING, inflate_level := inflate_level e + 1\<rparr>) w in
        if inflate_level (enemies (gl w) ! i) \<ge> INFLATE_LEVELS then
          if cur_logic w then kill_enemy i 1 w
          else on_enemy i (\<lambda>e. e\<lparr>e_state := ENEMY_DEAD, e_base := (e_base e)\<lparr>active := False\<rparr>\<rparr>) w
        else w)"

definition logic_enemy_deflate :: "enemy \<Rightarrow> enemy" where
  "logic_enemy_deflate e =
     (if e_state e \<noteq> ENEMY_INFLATING then e
      else
        let e = e\<lparr>inflate_level := inflate_level e - 1\<rparr>
        in if inflate_level e \<le> 0 then e\<lparr>e_state := ENEMY_NORMAL, inflate_level := 0\<rparr> else e)"

definition logic_player_pump :: "world \<Rightarrow> world" where
  "logic_player_pump w =
     (let w = on_player (\<lambda>p. p\<lparr>is_pumping := True, p_state := PLAYER_PUMPING, pump_dir := dir (p_base p),
                pump_length := (if pump_length p < MAX_PUMP_LENGTH then pump_length p + 1 else pump_length p)\<rparr>) w;
          hit_idx = logic_check_pump_hit w
      in if hit_idx \<ge> 0 then logic_enemy_inflate (nat hit_idx) w else w)"

text \<open>\<open>logic_update_player\<close> in its five steps: movement, cooldown, attack timer, pump, collisions.\<close>

definition player_step_move :: "world \<Rightarrow> world" where
  "player_step_move w =
     (let d = dir (p_base (plyr (gl w))) in
      if d = DIR_NONE then w
      else
        let w = (if speed_counter (p_base (plyr (gl w))) \<le> 0 then
              let w = logic_player_move d w;
                  w = on_player (\<lambda>p. p\<lparr>p_base := (p_base p)\<lparr>speed_counter := PLAYER_SPEED\<rparr>\<rparr>) w
              in if map_get_tile (pos_x (ppos w)) (pos_y (ppos w)) (gm w) = TILE_BONUS
                 then logic_add_score 100 (on_gm (map_set_tile (pos_x (ppos w)) (pos_y (ppos w)) TILE_EMPTY) w)
                 else w
            else w)
        in on_player (\<lambda>p. p\<lparr>p_base := (p_base p)\<lparr>dir := DIR_NONE\<rparr>\<rparr>) w)"

definition player_step_timers :: "player \<Rightarrow> player" where
  "player_step_timers p =
     (let p = (if speed_counter (p_base p) > 0
               then p\<lparr>p_base := (p_base p)\<lparr>speed_counter := speed_counter (p_base p) - 1\<rparr>\<rparr> else p)
      in if is_attacking p then
           if attack_timer p > 0 then p\<lparr>attack_timer := attack_timer p - 1\<rparr>
           else let p = p\<lparr>is_attacking := False\<rparr>
                in if p_state p = PLAYER_ATTACKING then p\<lparr>p_state := PLAYER_IDLE\<rparr> else p
         else p)"

definition player_step_pump :: "bool \<Rightarrow> world \<Rightarrow> world" where
  "player_step_pump action w =
     (if action then logic_player_pump w
      else if is_pumping (plyr (gl w))
      then on_player (\<lambda>p. p\<lparr>is_pumping := False, pump_length := 0, p_state := PLAYER_IDLE\<rparr>) w
      else w)"

definition player_step_collide :: "world \<Rightarrow> world" where
  "player_step_collide w =
     (let enemy_idx = logic_check_player_enemy_collision w;
          w = (if enemy_idx \<ge> 0 \<and> e_state (enemies (gl w) ! nat enemy_idx) \<noteq> ENEMY_INFLATING \<and>
                  e_state (enemies (gl w) ! nat enemy_idx) \<noteq> ENEMY_PARALYZED
               then logic_player_die w else w);
          rock_idx = logic_check_player_rock_collision w
      in if rock_idx \<ge> 0 \<and> r_state (rocks (gl w) ! nat rock_idx) = ROCK_FALLING then logic_player_die w else w)"

definition logic_update_player :: "world \<Rightarrow> world" where
  "logic_update_player w =
     (if p_state (plyr (gl w)) = PLAYER_DEAD then w
      else
        let action = is_pumping (plyr (gl w));
            w = player_step_move w;
            w = on_player player_step_timers w;
            w = player_step_pump action w
        in player_step_collide w)"

section \<open>Enemies\<close>

definition set_enemy_pos :: "int \<Rightarrow> int \<Rightarrow> direction \<Rightarrow> enemy \<Rightarrow> enemy" where
  "set_enemy_pos x y d e = e\<lparr>e_base := (e_base e)\<lparr>pos := mk_pos x y, dir := d\<rparr>\<rparr>"

definition any_rock_at :: "int \<Rightarrow> int \<Rightarrow> world \<Rightarrow> bool" where
  "any_rock_at x y w =
     list_ex (\<lambda>i. let r = rocks (gl w) ! i in active (r_base r) \<and> pos_x (rpos r) = x \<and> pos_y (rpos r) = y) [0..<rcount w]"

definition logic_get_random_direction :: "enemy \<Rightarrow> world \<Rightarrow> direction" where
  "logic_get_random_direction e w =
     (let start_idx = cmod (pos_x (epos e) + pos_y (epos e) * 79 + ghost_timer e) 4;
          ok = (\<lambda>d. let new_x = pos_x (epos e) + dir_dx d; new_y = pos_y (epos e) + dir_dy d
                in map_is_valid_position new_x new_y \<and> map_is_walkable new_x new_y (gm w) \<and> new_y < ROW_BORDER \<and>
                   \<not> (cur_logic w \<and> any_rock_at new_x new_y w))
      in case find ok (map (\<lambda>i. search_dirs ! nat (cmod (start_idx + i) 4)) [0, 1, 2, 3]) of
           None \<Rightarrow> DIR_NONE | Some d \<Rightarrow> d)"

definition logic_try_enemy_move :: "direction \<Rightarrow> enemy \<Rightarrow> world \<Rightarrow> bool \<times> enemy" where
  "logic_try_enemy_move d e w =
     (if d = DIR_NONE then (False, e)
      else
        let new_x = pos_x (epos e) + dir_dx d; new_y = pos_y (epos e) + dir_dy d in
        if \<not> map_is_valid_position new_x new_y then (False, e)
        else if cur_logic w \<and> has_rock_at new_x new_y w then (False, e)
        else if new_y \<ge> ROW_BORDER then (False, e)
        else if map_is_walkable new_x new_y (gm w) then (True, set_enemy_pos new_x new_y d e)
        else (False, e))"

definition logic_enemy_move_towards_player :: "enemy \<Rightarrow> world \<Rightarrow> enemy" where
  "logic_enemy_move_towards_player e w =
     (let best_dir = logic_find_path_bfs (epos e) (ppos w) False (gm w);
          (moved, e') = (if best_dir \<noteq> DIR_NONE then logic_try_enemy_move best_dir e w else (False, e))
      in if moved then e'\<lparr>ghost_timer := 0\<rparr>
         else
           let random_dir = logic_get_random_direction e' w
           in if random_dir \<noteq> DIR_NONE then snd (logic_try_enemy_move random_dir e' w) else e')"

definition back_to_normal :: "enemy \<Rightarrow> enemy" where
  "back_to_normal e = e\<lparr>e_state := ENEMY_NORMAL, ghost_timer := 0, has_left_tunnel := False\<rparr>"

definition logic_enemy_ghost_mode :: "enemy \<Rightarrow> world \<Rightarrow> enemy" where
  "logic_enemy_ghost_mode e w =
     (let on_tunnel = map_is_walkable (pos_x (epos e)) (pos_y (epos e)) (gm w) in
      if on_tunnel \<and> has_left_tunnel e then back_to_normal e
      else
        let e = (if \<not> on_tunnel \<and> \<not> has_left_tunnel e then e\<lparr>has_left_tunnel := True\<rparr> else e);
            best_dir = logic_find_path_bfs (epos e) (ppos w) True (gm w) in
        if best_dir = DIR_NONE then e
        else
          let new_x = pos_x (epos e) + dir_dx best_dir; new_y = pos_y (epos e) + dir_dy best_dir in
          if map_is_valid_position new_x new_y then
            let e = set_enemy_pos new_x new_y best_dir e
            in if map_is_walkable new_x new_y (gm w) \<and> has_left_tunnel e then back_to_normal e else e
          else e)"

definition logic_enemy_ai :: "enemy \<Rightarrow> world \<Rightarrow> enemy" where
  "logic_enemy_ai e w =
     (if e_state e = ENEMY_GHOST then logic_enemy_ghost_mode e w else logic_enemy_move_towards_player e w)"

definition logic_can_see_player :: "enemy \<Rightarrow> world \<Rightarrow> bool" where
  "logic_can_see_player e w =
     (let ex = pos_x (epos e); ey = pos_y (epos e); px = pos_x (ppos w); py = pos_y (ppos w) in
      if ey = py then list_all (\<lambda>x. map_is_walkable x ey (gm w)) [(if ex < px then ex else px)..(if ex < px then px else ex)]
      else if ex = px then list_all (\<lambda>y. map_is_walkable ex y (gm w)) [(if ey < py then ey else py)..(if ey < py then py else ey)]
      else False)"

subsection \<open>Fire\<close>

definition logic_check_fire_collision :: "enemy \<Rightarrow> player \<Rightarrow> bool" where
  "logic_check_fire_collision e p =
     (if \<not> fire_active e then False
      else
        let fy = pos_y (epos e); py = pos_y (pos (p_base p)); fx = pos_x (epos e); px = pos_x (pos (p_base p)) in
        if fy \<noteq> py then False
        else if dir (e_base e) = DIR_RIGHT then px > fx \<and> px \<le> fx + FYGAR_FIRE_RANGE
        else if dir (e_base e) = DIR_LEFT then px < fx \<and> px \<ge> fx - FYGAR_FIRE_RANGE
        else False)"

primrec fire_cells :: "nat \<Rightarrow> int \<Rightarrow> int \<Rightarrow> int \<Rightarrow> int \<Rightarrow> game_map \<Rightarrow> int" where
  "fire_cells 0 i x y dx m = 0"
| "fire_cells (Suc n) i x y dx m =
     (let check_x = x + dx * i in
      if map_is_valid_position check_x y \<and> map_is_walkable check_x y m then 1 + fire_cells n (i + 1) x y dx m else 0)"

definition fire_dir_free :: "enemy \<Rightarrow> direction \<Rightarrow> game_map \<Rightarrow> bool" where
  "fire_dir_free e d m =
     (fire_cells (nat FYGAR_FIRE_RANGE) 1 (pos_x (epos e)) (pos_y (epos e)) (if d = DIR_RIGHT then 1 else -1) m = FYGAR_FIRE_RANGE)"

definition start_fire :: "int \<Rightarrow> direction \<Rightarrow> enemy \<Rightarrow> enemy" where
  "start_fire now d e = e\<lparr>fire_active := True, fire_start_time := now, e_base := (e_base e)\<lparr>dir := d\<rparr>\<rparr>"

definition logic_fygar_fire :: "int \<Rightarrow> nat \<Rightarrow> world \<Rightarrow> world" where
  "logic_fygar_fire now i w =
     (let e = enemies (gl w) ! i in
      if etype (e_base e) \<noteq> ENTITY_FYGAR then w
      else if fire_active e then
        if now - fire_start_time e \<ge> FYGAR_FIRE_DURATION
        then on_enemy i (\<lambda>e. e\<lparr>fire_active := False, fire_end_time := now\<rparr>) w
        else if logic_check_fire_collision e (plyr (gl w)) then logic_player_die w else w
      else if fire_end_time e > 0 \<and> now - fire_end_time e < FYGAR_FIRE_COOLDOWN then w
      else
        let fire_dir = (if pos_x (ppos w) - pos_x (epos e) \<ge> 0 then DIR_RIGHT else DIR_LEFT);
            other = (if fire_dir = DIR_RIGHT then DIR_LEFT else DIR_RIGHT)
        in if fire_dir_free e fire_dir (gm w) then on_enemy i (start_fire now fire_dir) w
           else if fire_dir_free e other (gm w) then on_enemy i (start_fire now other) w
           else w)"

subsection \<open>Update\<close>

definition update_paralyzed :: "nat \<Rightarrow> world \<Rightarrow> world" where
  "update_paralyzed i w =
     (if paralyzed_timer (enemies (gl w) ! i) > 0
      then on_enemy i (\<lambda>e. e\<lparr>paralyzed_timer := paralyzed_timer e - 1\<rparr>) w
      else
        let w = on_enemy i (\<lambda>e. e\<lparr>e_blink_count := e_blink_count e - 1\<rparr>) w
        in if e_blink_count (enemies (gl w) ! i) \<le> 0 then kill_enemy i 1 w
           else on_enemy i (\<lambda>e. e\<lparr>paralyzed_timer := 5\<rparr>) w)"

definition enemy_think :: "nat \<Rightarrow> world \<Rightarrow> world" where
  "enemy_think i w =
     (let w = on_enemy i (\<lambda>e. logic_enemy_ai e w) w;
          w = on_enemy i (\<lambda>e. e\<lparr>e_base := (e_base e)\<lparr>speed_counter := speed_limit (e_base e)\<rparr>, ghost_timer := ghost_timer e + 1\<rparr>) w;
          e = enemies (gl w) ! i
      in if ghost_timer e > GHOST_MODE_THRESHOLD \<and> e_state e = ENEMY_NORMAL \<and> \<not> logic_can_see_player e w
         then on_enemy i (\<lambda>e. e\<lparr>e_state := ENEMY_GHOST, has_left_tunnel := False\<rparr>) w else w)"

definition update_enemy :: "int \<Rightarrow> nat \<Rightarrow> world \<Rightarrow> world" where
  "update_enemy now i w =
     (let e = enemies (gl w) ! i in
      if \<not> active (e_base e) \<or> e_state e = ENEMY_DEAD then w
      else if e_state e = ENEMY_PARALYZED then update_paralyzed i w
      else if e_state e = ENEMY_INFLATING then
        if \<not> is_pumping (plyr (gl w)) then on_enemy i logic_enemy_deflate w else w
      else if speed_counter (e_base e) > 0
      then on_enemy i (\<lambda>e. e\<lparr>e_base := (e_base e)\<lparr>speed_counter := speed_counter (e_base e) - 1\<rparr>\<rparr>) w
      else if etype (e_base e) = ENTITY_FYGAR then
        if fire_active e then logic_fygar_fire now i w
        else
          let w = logic_fygar_fire now i w
          in if fire_active (enemies (gl w) ! i) then w else enemy_think i w
      else enemy_think i w)"

definition logic_update_enemies :: "int \<Rightarrow> world \<Rightarrow> world" where
  "logic_update_enemies now w = fold (update_enemy now) [0..<ecount w] w"

section \<open>Rocks\<close>

definition logic_rock_check_fall :: "game_map \<Rightarrow> rock \<Rightarrow> rock" where
  "logic_rock_check_fall m r =
     (let below_x = pos_x (rpos r); below_y = pos_y (rpos r) + 1
      in if map_is_valid_position below_x below_y \<and> \<not> map_is_solid below_x below_y m
         then r\<lparr>r_state := ROCK_WOBBLING, wobble_timer := ROCK_WOBBLE_TICKS\<rparr> else r)"

definition crush_enemy :: "nat \<Rightarrow> nat \<Rightarrow> world \<Rightarrow> world" where
  "crush_enemy r i w =
     (let rx = pos_x (rpos (rocks (gl w) ! r)); ry = pos_y (rpos (rocks (gl w) ! r)); e = enemies (gl w) ! i in
      if alive e \<and> pos_x (epos e) = rx \<and> (pos_y (epos e) = ry \<or> pos_y (epos e) = ry + 1)
      then on_rock r (has_crushed_update (\<lambda>_. True)) (kill_enemy i ROCK_KILL_MULTIPLIER w) else w)"

definition crush_player :: "nat \<Rightarrow> int \<Rightarrow> world \<Rightarrow> world" where
  "crush_player r dy w =
     (if pos_x (ppos w) = pos_x (rpos (rocks (gl w) ! r)) \<and> pos_y (ppos w) = pos_y (rpos (rocks (gl w) ! r)) + dy
      then on_rock r (has_crushed_update (\<lambda>_. True)) (logic_player_die w) else w)"

definition logic_check_rock_crush :: "nat \<Rightarrow> world \<Rightarrow> world" where
  "logic_check_rock_crush r w = fold (crush_enemy r) [0..<ecount w] (crush_player r 1 (crush_player r 0 w))"

definition set_rock_y :: "int \<Rightarrow> rock \<Rightarrow> rock" where
  "set_rock_y y r = r\<lparr>r_base := (r_base r)\<lparr>pos := mk_pos (pos_x (rpos r)) y\<rparr>\<rparr>"

definition logic_rock_fall :: "nat \<Rightarrow> world \<Rightarrow> world" where
  "logic_rock_fall i w =
     (let r = rocks (gl w) ! i; new_y = pos_y (rpos r) + 1 in
      if \<not> map_is_valid_position (pos_x (rpos r)) new_y \<or> map_is_solid (pos_x (rpos r)) new_y (gm w)
      then on_rock i (\<lambda>r. r\<lparr>r_state := ROCK_BLINKING, r_blink_count := ROCK_BLINK_COUNT, r_blink_timer := ROCK_BLINK_DURATION\<rparr>) w
      else on_rock i (set_rock_y new_y) (logic_check_rock_crush i w))"

definition rock_wobble :: "rock \<Rightarrow> rock" where
  "rock_wobble r =
     (let r = r\<lparr>wobble_timer := wobble_timer r - 1\<rparr>
      in if wobble_timer r \<le> 0 then r\<lparr>r_state := ROCK_FALLING\<rparr> else r)"

definition rock_blink :: "rock \<Rightarrow> rock" where
  "rock_blink r =
     (let r = r\<lparr>r_blink_timer := r_blink_timer r - 1\<rparr> in
      if r_blink_timer r \<le> 0 then
        let r = r\<lparr>r_blink_count := r_blink_count r - 1\<rparr>
        in if r_blink_count r \<le> 0 then deactivate_rock (r\<lparr>r_state := ROCK_LANDED\<rparr>)
           else r\<lparr>r_blink_timer := ROCK_BLINK_DURATION\<rparr>
      else r)"

definition update_rock :: "nat \<Rightarrow> world \<Rightarrow> world" where
  "update_rock i w =
     (let r = rocks (gl w) ! i in
      if \<not> active (r_base r) then w
      else case r_state r of
        ROCK_STABLE \<Rightarrow> on_rock i (logic_rock_check_fall (gm w)) w
      | ROCK_WOBBLING \<Rightarrow> on_rock i rock_wobble w
      | ROCK_FALLING \<Rightarrow> logic_rock_fall i w
      | ROCK_BLINKING \<Rightarrow> on_rock i rock_blink w
      | ROCK_LANDED \<Rightarrow> on_rock i deactivate_rock w)"

definition logic_update_rocks :: "world \<Rightarrow> world" where
  "logic_update_rocks w = fold update_rock [0..<rcount w] w"

section \<open>Rounds\<close>

definition logic_check_round_complete :: "int \<Rightarrow> world \<Rightarrow> world" where
  "logic_check_round_complete now w =
     (if enemies_remaining (gl w) \<le> 0 then
        let w = (if enemies_cleared_time (gl w) = 0
                 then on_gl (enemies_cleared_time_update (\<lambda>_. now + 3 * ONE_SECOND)) w else w) in
        if enemies_cleared_time (gl w) - now \<le> 0 then
          if round_nr (gl w) \<ge> MAX_ROUNDS then on_gl (scene_update (\<lambda>_. SCENE_VICTORY)) w
          else on_gl (\<lambda>s. s\<lparr>scene := SCENE_ROUND_CLEAR, round_start_timer := LEVEL_CLEAR_DELAY\<rparr>) w
        else w
      else w)"

definition logic_check_game_over :: "world \<Rightarrow> world" where
  "logic_check_game_over w = (if lives (gl w) \<le> 0 then on_gl (scene_update (\<lambda>_. SCENE_GAME_OVER)) w else w)"

definition logic_transition_to_next_round :: "world \<Rightarrow> world" where
  "logic_transition_to_next_round w =
     (let w = on_gl (\<lambda>s. s\<lparr>round_nr := round_nr s + 1\<rparr>) w
      in if round_nr (gl w) > MAX_ROUNDS then on_gl (scene_update (\<lambda>_. SCENE_GAME_OVER)) w
         else logic_start_round (round_nr (gl w)) w)"

definition logic_dev_kill_enemy :: "world \<Rightarrow> bool \<times> world" where
  "logic_dev_kill_enemy w =
     (case find (\<lambda>i. alive (enemies (gl w) ! i)) [0..<ecount w] of
        None \<Rightarrow> (False, w) | Some i \<Rightarrow> (True, kill_enemy i 1 w))"

text \<open>One count of the timer: the state, and whether it has just reached zero.\<close>

definition count_down :: "world \<Rightarrow> bool \<times> world" where
  "count_down w =
     (if round_start_timer (gl w) > 0 then
        let w = on_gl (\<lambda>s. s\<lparr>round_start_timer := round_start_timer s - 1\<rparr>) w
        in (round_start_timer (gl w) = 0, w)
      else (False, w))"

definition logic_update :: "int \<Rightarrow> world \<Rightarrow> world" where
  "logic_update now w =
     (let w = w\<lparr>cur_logic := True\<rparr> in
      case scene (gl w) of
        SCENE_PLAYING \<Rightarrow>
          if round_start_timer (gl w) > 0 then
            let (done, w) = count_down w
            in if done \<and> p_state (plyr (gl w)) = PLAYER_DEAD \<and> lives (gl w) > 0 then logic_player_respawn w else w
          else
            let w = on_gl (\<lambda>s. s\<lparr>time_elapsed := time_elapsed s + 1\<rparr>) w;
                w = logic_update_player w;
                w = logic_update_enemies now w;
                w = logic_update_rocks w;
                w = logic_check_round_complete now w
            in logic_check_game_over w
      | SCENE_ROUND_CLEAR \<Rightarrow> (let (done, w) = count_down w in if done then logic_transition_to_next_round w else w)
      | SCENE_ROUND_START \<Rightarrow> (let (done, w) = count_down w in if done then on_gl (scene_update (\<lambda>_. SCENE_PLAYING)) w else w)
      | _ \<Rightarrow> w)"

end
