(* ===== verification/Game_Data.thy ===== *)
theory Game_Data
  imports Game_Logic
begin

text \<open>
  \<open>project/game_data.c\<close>: the five level tables, tunnels, spawning and loading. The arrays of a
  level hold the entries the table gives; the counts of the table index no further. The loop
  that digs a tunnel has no bound in the source, so it is a partial function, \<open>None\<close> standing
  for a loop that never ends; \<open>dig_tunnel_spec\<close> shows that it always ends.
\<close>

section \<open>Levels\<close>

record entity_spawn =
  spawn_x :: int
  spawn_y :: int
  spawn_type :: entity_type

record tunnel_def =
  t_x1 :: int
  t_y1 :: int
  t_x2 :: int
  t_y2 :: int

record level_data =
  round_number :: int
  player_start_x :: int
  player_start_y :: int
  l_enemies :: "entity_spawn list"
  l_enemy_count :: int
  l_rocks :: "entity_spawn list"
  l_rock_count :: int
  l_tunnels :: "tunnel_def list"
  l_tunnel_count :: int
  ghost_threshold :: int

definition mk_spawn :: "int \<Rightarrow> int \<Rightarrow> entity_type \<Rightarrow> entity_spawn" where
  "mk_spawn x y t = \<lparr>spawn_x = x, spawn_y = y, spawn_type = t\<rparr>"

definition mk_tunnel :: "int \<Rightarrow> int \<Rightarrow> int \<Rightarrow> int \<Rightarrow> tunnel_def" where
  "mk_tunnel x1 y1 x2 y2 = \<lparr>t_x1 = x1, t_y1 = y1, t_x2 = x2, t_y2 = y2\<rparr>"

definition level1 :: level_data where
  "level1 = \<lparr>round_number = 1, player_start_x = 10, player_start_y = 2,
     l_enemies = [mk_spawn 60 8 ENTITY_POOKA], l_enemy_count = 1,
     l_rocks = [mk_spawn 30 10 ENTITY_ROCK, mk_spawn 50 8 ENTITY_ROCK, mk_spawn 20 15 ENTITY_ROCK,
                mk_spawn 65 12 ENTITY_ROCK],
     l_rock_count = 4,
     l_tunnels = [mk_tunnel 5 2 15 2, mk_tunnel 58 7 62 7, mk_tunnel 60 7 60 9],
     l_tunnel_count = 3, ghost_threshold = 400\<rparr>"

definition level2 :: level_data where
  "level2 = \<lparr>round_number = 2, player_start_x = 10, player_start_y = 2,
     l_enemies = [mk_spawn 60 6 ENTITY_POOKA, mk_spawn 30 14 ENTITY_FYGAR], l_enemy_count = 2,
     l_rocks = [mk_spawn 25 7 ENTITY_ROCK, mk_spawn 45 13 ENTITY_ROCK, mk_spawn 15 18 ENTITY_ROCK,
                mk_spawn 70 10 ENTITY_ROCK],
     l_rock_count = 4,
     l_tunnels = [mk_tunnel 5 2 15 2, mk_tunnel 58 5 62 5, mk_tunnel 60 5 60 7, mk_tunnel 28 13 32 13,
                  mk_tunnel 30 13 30 15],
     l_tunnel_count = 5, ghost_threshold = 300\<rparr>"

definition level3 :: level_data where
  "level3 = \<lparr>round_number = 3, player_start_x = 10, player_start_y = 2,
     l_enemies = [mk_spawn 50 6 ENTITY_POOKA, mk_spawn 70 12 ENTITY_POOKA, mk_spawn 35 18 ENTITY_FYGAR], l_enemy_count = 3,
     l_rocks = [mk_spawn 20 8 ENTITY_ROCK, mk_spawn 55 15 ENTITY_ROCK, mk_spawn 40 10 ENTITY_ROCK,
                mk_spawn 65 20 ENTITY_ROCK],
     l_rock_count = 4,
     l_tunnels = [mk_tunnel 5 2 20 2, mk_tunnel 48 5 52 5, mk_tunnel 50 5 50 7, mk_tunnel 68 11 72 11,
                  mk_tunnel 70 11 70 13, mk_tunnel 33 17 37 17, mk_tunnel 35 17 35 19],
     l_tunnel_count = 7, ghost_threshold = 250\<rparr>"

definition level4 :: level_data where
  "level4 = \<lparr>round_number = 4, player_start_x = 40, player_start_y = 2,
     l_enemies = [mk_spawn 15 8 ENTITY_POOKA, mk_spawn 65 8 ENTITY_POOKA, mk_spawn 25 16 ENTITY_FYGAR,
                  mk_spawn 55 16 ENTITY_FYGAR], l_enemy_count = 4,
     l_rocks = [mk_spawn 20 10 ENTITY_ROCK, mk_spawn 60 10 ENTITY_ROCK, mk_spawn 40 18 ENTITY_ROCK,
                mk_spawn 30 14 ENTITY_ROCK],
     l_rock_count = 4,
     l_tunnels = [mk_tunnel 35 2 45 2, mk_tunnel 13 7 17 7, mk_tunnel 15 7 15 9, mk_tunnel 63 7 67 7,
                  mk_tunnel 65 7 65 9, mk_tunnel 23 15 27 15, mk_tunnel 25 15 25 17, mk_tunnel 53 15 57 15,
                  mk_tunnel 55 15 55 17],
     l_tunnel_count = 9, ghost_threshold = 200\<rparr>"

definition level5 :: level_data where
  "level5 = \<lparr>round_number = 5, player_start_x = 40, player_start_y = 2,
     l_enemies = [mk_spawn 10 8 ENTITY_POOKA, mk_spawn 70 8 ENTITY_POOKA, mk_spawn 40 14 ENTITY_POOKA,
                  mk_spawn 20 20 ENTITY_FYGAR, mk_spawn 60 20 ENTITY_FYGAR], l_enemy_count = 5,
     l_rocks = [mk_spawn 25 10 ENTITY_ROCK, mk_spawn 55 10 ENTITY_ROCK, mk_spawn 35 17 ENTITY_ROCK,
                mk_spawn 45 17 ENTITY_ROCK],
     l_rock_count = 4,
     l_tunnels = [mk_tunnel 35 2 45 2, mk_tunnel 8 7 12 7, mk_tunnel 10 7 10 9, mk_tunnel 68 7 72 7,
                  mk_tunnel 70 7 70 9, mk_tunnel 38 13 42 13, mk_tunnel 40 13 40 15, mk_tunnel 18 19 22 19,
                  mk_tunnel 20 19 20 21, mk_tunnel 58 19 62 19, mk_tunnel 60 19 60 21],
     l_tunnel_count = 11, ghost_threshold = 150\<rparr>"

definition g_levels :: "level_data list" where
  "g_levels = [level1, level2, level3, level4, level5]"

abbreviation (input) NUM_LEVELS_DEFINED :: int where "NUM_LEVELS_DEFINED \<equiv> 5"
abbreviation (input) MAX_TUNNELS :: nat where "MAX_TUNNELS \<equiv> 16"

definition data_get_level :: "int \<Rightarrow> level_data" where
  "data_get_level rnd =
     (if rnd < 1 then g_levels ! 0
      else
        let index = rnd - 1;
            index = (if index \<ge> NUM_LEVELS_DEFINED then NUM_LEVELS_DEFINED - 1 else index)
        in g_levels ! nat index)"

definition data_get_num_levels :: int where
  "data_get_num_levels = NUM_LEVELS_DEFINED"

section \<open>Tunnels\<close>

partial_function (option) dig_loop ::
  "int \<Rightarrow> int \<Rightarrow> int \<Rightarrow> int \<Rightarrow> int \<Rightarrow> int \<Rightarrow> game_map \<Rightarrow> game_map option" where
  "dig_loop dx dy x2 y2 x y m =
     (let m = (if map_is_valid_position x y then map_dig x y m else m) in
      if x = x2 \<and> y = y2 then Some m
      else if x \<noteq> x2 then dig_loop dx dy x2 y2 (x + dx) y m
      else dig_loop dx dy x2 y2 x (y + dy) m)"

definition data_dig_tunnel :: "int \<Rightarrow> int \<Rightarrow> int \<Rightarrow> int \<Rightarrow> game_map \<Rightarrow> game_map option" where
  "data_dig_tunnel x1 y1 x2 y2 m =
     (let dx = (if x2 > x1 then 1 else if x2 < x1 then -1 else 0);
          dy = (if y2 > y1 then 1 else if y2 < y1 then -1 else 0)
      in dig_loop dx dy x2 y2 x1 y1 m)"

definition data_create_tunnels :: "level_data \<Rightarrow> game_map \<Rightarrow> game_map option" where
  "data_create_tunnels level m =
     ofold (\<lambda>i. let t = l_tunnels level ! i in data_dig_tunnel (t_x1 t) (t_y1 t) (t_x2 t) (t_y2 t))
       [0..<min (nat (l_tunnel_count level)) MAX_TUNNELS] m"

section \<open>Spawning and loading\<close>

definition data_spawn_enemies :: "level_data \<Rightarrow> world \<Rightarrow> world" where
  "data_spawn_enemies level w =
     (let w = fold (\<lambda>i. let sp = l_enemies level ! i
                 in on_enemy i (logic_enemy_init (spawn_x sp) (spawn_y sp) (spawn_type sp)))
               [0..<min (nat (l_enemy_count level)) MAX_ENEMIES] w
      in fold (\<lambda>i. on_enemy i deactivate_enemy) [nat (l_enemy_count level)..<MAX_ENEMIES] w)"

definition data_spawn_rocks :: "level_data \<Rightarrow> world \<Rightarrow> world" where
  "data_spawn_rocks level w =
     (let w = fold (\<lambda>i. let sp = l_rocks level ! i in on_rock i (logic_rock_init (spawn_x sp) (spawn_y sp)))
               [0..<min (nat (l_rock_count level)) MAX_ROCKS] w
      in fold (\<lambda>i. on_rock i deactivate_rock) [nat (l_rock_count level)..<MAX_ROCKS] w)"

definition bonus_positions :: "int \<Rightarrow> (int \<times> int) list" where
  "bonus_positions rnd =
     (if rnd = 1 then [(20, 10), (40, 15), (65, 12)]
      else if rnd = 2 then [(15, 8), (45, 11), (70, 16)]
      else if rnd = 3 then [(25, 9), (40, 14), (60, 19)]
      else if rnd = 4 then [(20, 11), (45, 13), (55, 18)]
      else [(25, 10), (50, 16), (65, 18)])"

definition data_place_bonuses :: "int \<Rightarrow> game_map \<Rightarrow> game_map" where
  "data_place_bonuses rnd m = fold (\<lambda>(x, y). map_set_tile x y TILE_BONUS) (bonus_positions rnd) m"

definition faster_enemy :: "int \<Rightarrow> enemy \<Rightarrow> enemy" where
  "faster_enemy bonus e =
     (let l = speed_limit (e_base e) - bonus
      in e\<lparr>e_base := (e_base e)\<lparr>speed_limit := (if l < 2 then 2 else l)\<rparr>\<rparr>)"

definition data_load_level :: "int \<Rightarrow> world \<Rightarrow> world option" where
  "data_load_level rnd w = do {
     level \<leftarrow> Some (data_get_level rnd);
     w \<leftarrow> Some (on_gm (map_init rnd) w);
     m \<leftarrow> data_create_tunnels level (gm w);
     w \<leftarrow> Some (w\<lparr>gm := m\<rparr>);
     w \<leftarrow> Some (on_player (logic_player_init (player_start_x level) (player_start_y level)) w);
     w \<leftarrow> Some (data_spawn_enemies level w);
     w \<leftarrow> Some (data_spawn_rocks level w);
     w \<leftarrow> Some (on_gm (data_place_bonuses rnd) w);
     w \<leftarrow> Some (on_gl (\<lambda>s. s\<lparr>enemy_count := l_enemy_count level, enemies_remaining := l_enemy_count level,
            rock_count := l_rock_count level, round_nr := rnd\<rparr>) w);
     Some (if rnd > NUM_LEVELS_DEFINED
           then fold (\<lambda>i. on_enemy i (faster_enemy (rnd - NUM_LEVELS_DEFINED))) [0..<ecount w] w else w) }"

section \<open>Lemmas\<close>

text \<open>The cells of a tunnel: along the row of the start, then along the column of the end.\<close>

definition between :: "int \<Rightarrow> int \<Rightarrow> int \<Rightarrow> bool" where
  "between a b x \<longleftrightarrow> min a b \<le> x \<and> x \<le> max a b"

definition on_tunnel :: "int \<Rightarrow> int \<Rightarrow> int \<Rightarrow> int \<Rightarrow> int \<Rightarrow> int \<Rightarrow> bool" where
  "on_tunnel x1 y1 x2 y2 a b \<longleftrightarrow> b = y1 \<and> between x1 x2 a \<or> a = x2 \<and> between y1 y2 b"

text \<open>A map in which some cells of dirt are open.\<close>

definition dug :: "(int \<Rightarrow> int \<Rightarrow> bool) \<Rightarrow> game_map \<Rightarrow> game_map \<Rightarrow> bool" where
  "dug P m m' \<longleftrightarrow> gem_positions m' = gem_positions m \<and> (\<forall>a b. map_get_tile a b m' =
     (if map_get_tile a b m = TILE_DIRT \<and> P a b then TILE_EMPTY else map_get_tile a b m))"

lemma dug_refl: "dug (\<lambda>_ _. False) m m"
  by (simp add: dug_def)

lemma dug_trans: "dug P m m' \<Longrightarrow> dug Q m' m'' \<Longrightarrow> dug (\<lambda>a b. P a b \<or> Q a b) m m''"
  by (auto simp: dug_def)

lemma dug_one: "dug (\<lambda>a b. a = x \<and> b = y) m (if map_is_valid_position x y then map_dig x y m else m)"
proof -
  have "\<not> map_is_valid_position x y \<Longrightarrow> map_get_tile x y m = TILE_WALL" by (simp add: map_get_tile_def)
  then show ?thesis by (auto simp: dug_def map_dig_get map_is_diggable_def) (simp add: map_dig_def)
qed

lemma dug_cong: "dug P m m' \<Longrightarrow> (\<And>a b. P a b \<longleftrightarrow> Q a b) \<Longrightarrow> dug Q m m'"
  by (simp add: dug_def)

lemma on_tunnel_x:
  assumes "x \<noteq> x2"
  shows "on_tunnel x y x2 y2 a b \<longleftrightarrow> a = x \<and> b = y \<or> on_tunnel (x + sgn (x2 - x)) y x2 y2 a b"
  using assms by (cases "x < x2") (auto simp: on_tunnel_def between_def)

lemma on_tunnel_y:
  assumes "y \<noteq> y2"
  shows "on_tunnel x y x y2 a b \<longleftrightarrow> a = x \<and> b = y \<or> on_tunnel x (y + sgn (y2 - y)) x y2 a b"
  using assms by (cases "y < y2") (auto simp: on_tunnel_def between_def)

lemma dig_loop_ends:
  assumes "x \<noteq> x2 \<Longrightarrow> dx = sgn (x2 - x)" "y \<noteq> y2 \<Longrightarrow> dy = sgn (y2 - y)"
  shows "\<exists>m'. dig_loop dx dy x2 y2 x y m = Some m' \<and> dug (on_tunnel x y x2 y2) m m'"
  using assms
proof (induction "nat \<bar>x2 - x\<bar> + nat \<bar>y2 - y\<bar>" arbitrary: x y m rule: less_induct)
  case less
  define m1 where "m1 = (if map_is_valid_position x y then map_dig x y m else m)"
  have one: "dug (\<lambda>a b. a = x \<and> b = y) m m1" unfolding m1_def by (rule dug_one)
  consider "x = x2" "y = y2" | "x \<noteq> x2" | "x = x2" "y \<noteq> y2" by blast
  then show ?case
  proof cases
    case 1
    then have "dig_loop dx dy x2 y2 x y m = Some m1" by (subst dig_loop.simps) (simp add: m1_def)
    moreover have "dug (on_tunnel x y x2 y2) m m1"
      by (rule dug_cong [OF one]) (auto simp: 1 on_tunnel_def between_def)
    ultimately show ?thesis by blast
  next
    case 2
    then have dx: "dx = sgn (x2 - x)" using less.prems by simp
    have "nat \<bar>x2 - (x + dx)\<bar> + nat \<bar>y2 - y\<bar> < nat \<bar>x2 - x\<bar> + nat \<bar>y2 - y\<bar>" using 2 unfolding dx by (cases "x < x2") auto
    moreover have "x + dx \<noteq> x2 \<Longrightarrow> dx = sgn (x2 - (x + dx))" using 2 unfolding dx by (cases "x < x2") auto
    ultimately obtain m' where m': "dig_loop dx dy x2 y2 (x + dx) y m1 = Some m'" "dug (on_tunnel (x + dx) y x2 y2) m1 m'"
      using less.hyps less.prems(2) by blast
    have "dig_loop dx dy x2 y2 x y m = Some m'" using 2 m'(1) by (subst dig_loop.simps) (simp add: m1_def)
    moreover have "dug (on_tunnel x y x2 y2) m m'"
      by (rule dug_cong [OF dug_trans [OF one m'(2)]]) (simp add: on_tunnel_x [OF 2] dx)
    ultimately show ?thesis by blast
  next
    case 3
    then have dy: "dy = sgn (y2 - y)" using less.prems by simp
    have "nat \<bar>x2 - x\<bar> + nat \<bar>y2 - (y + dy)\<bar> < nat \<bar>x2 - x\<bar> + nat \<bar>y2 - y\<bar>" using 3 unfolding dy by (cases "y < y2") auto
    moreover have "y + dy \<noteq> y2 \<Longrightarrow> dy = sgn (y2 - (y + dy))" using 3 unfolding dy by (cases "y < y2") auto
    ultimately obtain m' where m': "dig_loop dx dy x2 y2 x (y + dy) m1 = Some m'" "dug (on_tunnel x (y + dy) x2 y2) m1 m'"
      using less.hyps less.prems(1) by blast
    have "dig_loop dx dy x2 y2 x y m = Some m'" using 3 m'(1) by (subst dig_loop.simps) (simp add: m1_def)
    moreover have "dug (on_tunnel x y x2 y2) m m'"
      by (rule dug_cong [OF dug_trans [OF one m'(2)]]) (simp add: on_tunnel_y [OF 3(2)] dy 3(1) [symmetric])
    ultimately show ?thesis by blast
  qed
qed

lemma data_dig_tunnel_ends: "\<exists>m'. data_dig_tunnel x1 y1 x2 y2 m = Some m' \<and> dug (on_tunnel x1 y1 x2 y2) m m'"
  unfolding data_dig_tunnel_def Let_def by (rule dig_loop_ends) auto

lemma ofold_dug:
  assumes "\<And>i m. \<exists>m'. f i m = Some m' \<and> dug (P i) m m'"
  shows "\<exists>m'. ofold f xs m = Some m' \<and> dug (\<lambda>a b. \<exists>i \<in> set xs. P i a b) m m'"
proof (induction xs arbitrary: m)
  case (Cons i xs)
  obtain m1 where m1: "f i m = Some m1" "dug (P i) m m1" using assms by blast
  obtain m2 where m2: "ofold f xs m1 = Some m2" "dug (\<lambda>a b. \<exists>i \<in> set xs. P i a b) m1 m2" using Cons by blast
  have "dug (\<lambda>a b. \<exists>j \<in> set (i # xs). P j a b) m m2" by (rule dug_cong [OF dug_trans [OF m1(2) m2(2)]]) auto
  then show ?case using m1 m2 by auto
qed (simp add: dug_refl)

definition in_tunnels :: "level_data \<Rightarrow> int \<Rightarrow> int \<Rightarrow> bool" where
  "in_tunnels level a b = list_ex (\<lambda>t. on_tunnel (t_x1 t) (t_y1 t) (t_x2 t) (t_y2 t) a b) (l_tunnels level)"

definition level_wf :: "level_data \<Rightarrow> bool" where
  "level_wf l \<longleftrightarrow> l_tunnel_count l = int (length (l_tunnels l)) \<and> length (l_tunnels l) \<le> MAX_TUNNELS \<and>
     l_enemy_count l = int (length (l_enemies l)) \<and> length (l_enemies l) \<le> MAX_ENEMIES \<and>
     l_rock_count l = int (length (l_rocks l)) \<and> length (l_rocks l) \<le> MAX_ROCKS"

lemmas level_defs = level1_def level2_def level3_def level4_def level5_def mk_spawn_def mk_tunnel_def

lemma level_cases: "data_get_level r \<in> {level1, level2, level3, level4, level5}"
proof -
  have "r < 1 \<or> r = 1 \<or> r = 2 \<or> r = 3 \<or> r = 4 \<or> 5 \<le> r" by arith
  then show ?thesis by (auto simp: data_get_level_def g_levels_def)
qed

lemma level_wf: "level_wf (data_get_level r)"
  using level_cases [of r] by (auto simp: level_wf_def level_defs)

lemma create_tunnels_ends:
  assumes "level_wf l"
  shows "\<exists>m'. data_create_tunnels l m = Some m' \<and> dug (in_tunnels l) m m'"
proof -
  define P where "P = (\<lambda>i. on_tunnel (t_x1 (l_tunnels l ! i)) (t_y1 (l_tunnels l ! i)) (t_x2 (l_tunnels l ! i)) (t_y2 (l_tunnels l ! i)))"
  have "\<exists>m'. data_create_tunnels l m = Some m' \<and> dug (\<lambda>a b. \<exists>i \<in> set [0..<min (nat (l_tunnel_count l)) 16]. P i a b) m m'"
    unfolding data_create_tunnels_def by (rule ofold_dug) (simp add: P_def Let_def data_dig_tunnel_ends)
  moreover have "(\<exists>i \<in> set [0..<min (nat (l_tunnel_count l)) 16]. P i a b) \<longleftrightarrow> in_tunnels l a b" for a b
    using assms by (auto simp: level_wf_def in_tunnels_def P_def list_ex_length)
  ultimately show ?thesis by (auto intro: dug_cong)
qed

section \<open>Properties\<close>

text \<open>Property C20 (dig_tunnel_spec). The loop of \<open>data_dig_tunnel\<close> ends for any two points, and
  what it changes is exactly this: the cells of dirt on the row of the first point, up to the
  column of the second, and from there along that column are open.\<close>

theorem dig_tunnel_spec:
  "\<exists>m'. data_dig_tunnel x1 y1 x2 y2 m = Some m' \<and> gem_positions m' = gem_positions m \<and>
     (\<forall>x y. map_get_tile x y m' =
        (if map_is_diggable x y m \<and> on_tunnel x1 y1 x2 y2 x y then TILE_EMPTY else map_get_tile x y m))"
  using data_dig_tunnel_ends [of x1 y1 x2 y2 m] by (auto simp: dug_def map_is_diggable_def)

end
