(* ===== verification/Game_Safety.thy ===== *)
theory Game_Safety
  imports Game_Data
begin

text \<open>
  The invariant of the game logic and its preservation by every operation of \<open>game_logic.c\<close> and
  \<open>game_data.c\<close>: indices stay within the arrays, the player stays between the sky and the border,
  enemies and rocks stay on the map, the score stays within its five digits, and the count of
  remaining enemies is the number of enemies that still take part.
\<close>

section \<open>The invariant\<close>

definition cell_ok :: "position \<Rightarrow> bool" where
  "cell_ok p \<longleftrightarrow> map_is_valid_position (pos_x p) (pos_y p)"

definition player_ok :: "player \<Rightarrow> bool" where
  "player_ok p \<longleftrightarrow> 0 \<le> pos_x (pos (p_base p)) \<and> pos_x (pos (p_base p)) < MAP_WIDTH \<and>
     ROW_SKY_END \<le> pos_y (pos (p_base p)) \<and> pos_y (pos (p_base p)) < ROW_BORDER \<and>
     0 \<le> pump_length p \<and> pump_length p \<le> MAX_PUMP_LENGTH"

definition alive_ids :: "logic_state \<Rightarrow> nat set" where
  "alive_ids s = {i. i < nat (enemy_count s) \<and> alive (enemies s ! i)}"

definition sizes_ok :: "logic_state \<Rightarrow> bool" where
  "sizes_ok s \<longleftrightarrow> length (enemies s) = MAX_ENEMIES \<and> length (rocks s) = MAX_ROCKS \<and>
     0 \<le> enemy_count s \<and> enemy_count s \<le> int MAX_ENEMIES \<and> 0 \<le> rock_count s \<and> rock_count s \<le> int MAX_ROCKS"

definition enemies_ok :: "logic_state \<Rightarrow> bool" where
  "enemies_ok s \<longleftrightarrow> (\<forall>i < nat (enemy_count s). cell_ok (epos (enemies s ! i)) \<and>
        (active (e_base (enemies s ! i)) \<longrightarrow> alive (enemies s ! i))) \<and>
     enemies_remaining s = int (card (alive_ids s))"

definition rocks_ok :: "logic_state \<Rightarrow> bool" where
  "rocks_ok s \<longleftrightarrow> (\<forall>i < nat (rock_count s). cell_ok (rpos (rocks s ! i)))"

definition linv :: "logic_state \<Rightarrow> bool" where
  "linv s \<longleftrightarrow> sizes_ok s \<and> player_ok (plyr s) \<and> enemies_ok s \<and> rocks_ok s \<and>
     0 \<le> score s \<and> score s \<le> MAX_SCORE \<and> lives s \<le> INITIAL_LIVES \<and> 1 \<le> round_nr s"

section \<open>Generic steps\<close>

named_theorems linv_intros "preservation of the game invariant"

lemma gl_simps [simp]:
  "gl (on_gl f w) = f (gl w)" "gl (on_gm g w) = gl w" "gm (on_gl f w) = gm w" "gm (on_gm g w) = g (gm w)"
  "cur_logic (on_gl f w) = cur_logic w" "cur_logic (on_gm g w) = cur_logic w"
  "gl (on_player h w) = (gl w)\<lparr>plyr := h (plyr (gl w))\<rparr>" "gm (on_player h w) = gm w"
  "cur_logic (on_player h w) = cur_logic w"
  "gl (on_enemy i e w) = (gl w)\<lparr>enemies := (enemies (gl w))[i := e (enemies (gl w) ! i)]\<rparr>" "gm (on_enemy i e w) = gm w"
  "gl (on_rock i r w) = (gl w)\<lparr>rocks := (rocks (gl w))[i := r (rocks (gl w) ! i)]\<rparr>" "gm (on_rock i r w) = gm w"
  "cur_logic (on_enemy i e w) = cur_logic w" "cur_logic (on_rock i r w) = cur_logic w"
  by (simp_all add: on_gl_def on_gm_def on_player_def on_enemy_def on_rock_def)

lemmas linv_parts = sizes_ok_def player_ok_def enemies_ok_def rocks_ok_def alive_ids_def

lemma linv_counts: "linv (gl w) \<Longrightarrow> i < ecount w \<Longrightarrow> i < length (enemies (gl w))"
  "linv (gl w) \<Longrightarrow> j < rcount w \<Longrightarrow> j < length (rocks (gl w))"
  by (auto simp: linv_def sizes_ok_def ecount_def rcount_def)

lemma finite_alive_ids [simp]: "finite (alive_ids s)"
  by (simp add: alive_ids_def)

lemma linv_player: "linv s \<Longrightarrow> player_ok p \<Longrightarrow> linv (s\<lparr>plyr := p\<rparr>)"
  by (simp add: linv_def sizes_ok_def enemies_ok_def rocks_ok_def alive_ids_def)

lemma linv_on_player [linv_intros]:
  "linv (gl w) \<Longrightarrow> (player_ok (plyr (gl w)) \<Longrightarrow> player_ok (f (plyr (gl w)))) \<Longrightarrow> linv (gl (on_player f w))"
  using linv_player by (simp add: linv_def)

lemma linv_enemy:
  assumes "linv s" "i < nat (enemy_count s)" "alive (enemies s ! i)" "alive e" "cell_ok (epos e)"
  shows "linv (s\<lparr>enemies := (enemies s)[i := e]\<rparr>)"
proof -
  have len: "i < length (enemies s)" using assms(1,2) by (auto simp: linv_def sizes_ok_def)
  have "alive_ids (s\<lparr>enemies := (enemies s)[i := e]\<rparr>) = alive_ids s"
    using assms(2-4) len by (auto simp: alive_ids_def nth_list_update)
  then show ?thesis using assms len by (auto simp: linv_def sizes_ok_def enemies_ok_def rocks_ok_def nth_list_update)
qed

lemma linv_on_enemy [linv_intros]:
  "linv (gl w) \<Longrightarrow> i < ecount w \<Longrightarrow> alive (enemies (gl w) ! i) \<Longrightarrow> alive (f (enemies (gl w) ! i)) \<Longrightarrow>
   cell_ok (epos (f (enemies (gl w) ! i))) \<Longrightarrow> linv (gl (on_enemy i f w))"
  by (simp add: linv_enemy ecount_def)

lemma linv_cell: "linv (gl w) \<Longrightarrow> i < ecount w \<Longrightarrow> cell_ok (epos (enemies (gl w) ! i))"
  "linv (gl w) \<Longrightarrow> j < rcount w \<Longrightarrow> cell_ok (rpos (rocks (gl w) ! j))"
  by (auto simp: linv_def enemies_ok_def rocks_ok_def ecount_def rcount_def)

lemma linv_active: "linv (gl w) \<Longrightarrow> i < ecount w \<Longrightarrow> active (e_base (enemies (gl w) ! i)) \<Longrightarrow> alive (enemies (gl w) ! i)"
  by (auto simp: linv_def enemies_ok_def ecount_def)

lemma linv_on_rock [linv_intros]:
  assumes "linv (gl w)" "cell_ok (rpos (rocks (gl w) ! i)) \<Longrightarrow> cell_ok (rpos (f (rocks (gl w) ! i)))"
  shows "linv (gl (on_rock i f w))"
proof -
  let ?s = "(gl w)\<lparr>rocks := (rocks (gl w))[i := f (rocks (gl w) ! i)]\<rparr>"
  have "rocks_ok ?s" unfolding rocks_ok_def
  proof (intro allI impI)
    fix j assume "j < nat (rock_count ?s)"
    then have "cell_ok (rpos (rocks (gl w) ! j))" "j < length (rocks (gl w))"
      using assms(1) by (auto simp: linv_def rocks_ok_def sizes_ok_def)
    then show "cell_ok (rpos (rocks ?s ! j))" using assms(2) by (cases "i = j") simp_all
  qed
  then show ?thesis using assms(1) by (simp add: linv_def sizes_ok_def enemies_ok_def alive_ids_def)
qed

lemma linv_gm [linv_intros]: "linv (gl w) \<Longrightarrow> linv (gl (on_gm f w))"
  by simp

lemma linv_scene [linv_intros]: "linv (gl w) \<Longrightarrow> linv (gl (on_gl (scene_update f) w))"
  by (simp add: linv_def linv_parts)

lemma linv_timers [linv_intros]:
  "linv (gl w) \<Longrightarrow> linv (gl (on_gl (\<lambda>s. s\<lparr>round_start_timer := t s\<rparr>) w))"
  "linv (gl w) \<Longrightarrow> linv (gl (on_gl (\<lambda>s. s\<lparr>time_elapsed := t s\<rparr>) w))"
  "linv (gl w) \<Longrightarrow> linv (gl (on_gl (enemies_cleared_time_update (\<lambda>_. c)) w))"
  "linv (gl w) \<Longrightarrow> linv (gl (on_gl (\<lambda>s. s\<lparr>scene := sc, round_start_timer := t'\<rparr>) w))"
  by (simp_all add: linv_def linv_parts)

lemma linv_add_score [linv_intros]: "linv (gl w) \<Longrightarrow> 0 \<le> p \<Longrightarrow> linv (gl (logic_add_score p w))"
  by (simp add: logic_add_score_def linv_def linv_parts)

lemma enemy_points_nonneg: "200 \<le> logic_calculate_enemy_points y" "logic_calculate_enemy_points y \<le> 500"
  by (simp_all add: logic_calculate_enemy_points_def Let_def)

lemma linv_kill [linv_intros]:
  assumes "linv (gl w)" "i < ecount w" "alive (enemies (gl w) ! i)" "0 \<le> k"
  shows "linv (gl (kill_enemy i k w))"
proof -
  let ?f = "\<lambda>e. e\<lparr>e_state := ENEMY_DEAD, e_base := (e_base e)\<lparr>active := False\<rparr>\<rparr>"
  define s where "s = (gl w)\<lparr>enemies := (enemies (gl w))[i := ?f (enemies (gl w) ! i)],
    enemies_remaining := enemies_remaining (gl w) - 1\<rparr>"
  have len: "i < length (enemies (gl w))" using assms linv_counts by blast
  have i: "i \<in> alive_ids (gl w)" using assms by (simp add: alive_ids_def ecount_def)
  have "alive_ids s = alive_ids (gl w) - {i}"
    using len by (auto simp: s_def alive_ids_def nth_list_update alive_def)
  then have "int (card (alive_ids s)) = int (card (alive_ids (gl w))) - 1"
    using card_Suc_Diff1 [OF finite_alive_ids i] by simp
  then have "enemies_ok s" using assms(1) len
    by (auto simp: enemies_ok_def linv_def s_def nth_list_update)
  then have "linv s" using assms(1) by (simp add: linv_def s_def sizes_ok_def rocks_ok_def)
  then have "linv (gl (on_gl (\<lambda>s. s\<lparr>enemies_remaining := enemies_remaining s - 1\<rparr>) (on_enemy i ?f w)))"
    by (simp add: s_def)
  then show ?thesis unfolding kill_enemy_def Let_def
    using enemy_points_nonneg(1) assms(4) by (intro linv_add_score mult_nonneg_nonneg) (auto intro: order_trans [of 0 200])
qed

section \<open>Player\<close>

lemma player_okD: "linv (gl w) \<Longrightarrow> player_ok (plyr (gl w))"
  by (simp add: linv_def)

lemma linv_die [linv_intros]:
  assumes "linv (gl w)"
  shows "linv (gl (logic_player_die w))"
proof -
  let ?w = "on_player (\<lambda>p. p\<lparr>p_state := PLAYER_DEAD, is_pumping := False, pump_length := 0\<rparr>) w"
  have "linv (gl ?w)" by (rule linv_on_player [OF assms]) (simp add: player_ok_def)
  then have "linv (gl (on_gl (\<lambda>s. s\<lparr>lives := lives s - 1\<rparr>) ?w))"
    by (simp add: linv_def linv_parts)
  then show ?thesis by (simp add: logic_player_die_def Let_def linv_def linv_parts)
qed

lemma linv_respawn [linv_intros]: "linv (gl w) \<Longrightarrow> linv (gl (logic_player_respawn w))"
  unfolding logic_player_respawn_def by (rule linv_on_player) (simp_all add: player_ok_def logic_player_init_def)

lemma die_simps [simp]:
  "enemies (gl (logic_player_die w)) = enemies (gl w)" "ecount (logic_player_die w) = ecount w"
  "rocks (gl (logic_player_die w)) = rocks (gl w)" "rcount (logic_player_die w) = rcount w"
  by (simp_all add: logic_player_die_def Let_def ecount_def rcount_def)

lemma linv_player_move [linv_intros]:
  assumes "linv (gl w)"
  shows "linv (gl (logic_player_move d w))"
proof -
  have face: "linv (gl (on_player (facing_dir_update (\<lambda>_. d)) w))"
    by (rule linv_on_player [OF assms]) (simp add: player_ok_def)
  show ?thesis unfolding logic_player_move_def Let_def set_player_pos_def
    using assms face player_okD [OF face]
    by (auto intro!: linv_intros linv_player simp: player_ok_def map_is_valid_position_def)
qed

lemma linv_step_move [linv_intros]:
  assumes "linv (gl w)"
  shows "linv (gl (player_step_move w))"
  unfolding player_step_move_def Let_def
  using assms by (auto intro!: linv_intros simp: player_ok_def simp del: gl_simps)

lemma player_timers_ok: "player_ok p \<Longrightarrow> player_ok (player_step_timers p)"
  by (simp add: player_step_timers_def player_ok_def Let_def)

lemma first_index_ge:
  assumes "first_index P n \<ge> 0"
  shows "nat (first_index P n) < n" "P (nat (first_index P n))"
proof -
  obtain i where i: "find P [0..<n] = Some i" using assms by (cases "find P [0..<n]") (simp_all add: first_index_def)
  then have "i < n \<and> P i" by (auto simp: find_Some_iff)
  then show "nat (first_index P n) < n" "P (nat (first_index P n))" using i by (simp_all add: first_index_def)
qed

lemma pump_hit_alive:
  "pump_hit_loop n x y w \<ge> 0 \<Longrightarrow>
     nat (pump_hit_loop n x y w) < ecount w \<and> alive (enemies (gl w) ! nat (pump_hit_loop n x y w))"
proof (induction n arbitrary: x y)
  case (Suc n)
  then show ?case by (auto simp: Let_def split: if_splits dest: first_index_ge)
qed simp

lemma linv_inflate [linv_intros]:
  assumes "linv (gl w)" "i < ecount w" "alive (enemies (gl w) ! i)" "cur_logic w"
  shows "linv (gl (logic_enemy_inflate i w))"
proof -
  let ?w = "on_enemy i (\<lambda>e. e\<lparr>e_state := ENEMY_INFLATING, inflate_level := inflate_level e + 1\<rparr>) w"
  have "linv (gl ?w)" using assms linv_cell(1) by (intro linv_on_enemy) (auto simp: alive_def)
  moreover have "i < ecount ?w" "alive (enemies (gl ?w) ! i)"
    using assms linv_counts by (simp_all add: ecount_def alive_def)
  ultimately show ?thesis using assms by (simp add: logic_enemy_inflate_def Let_def linv_kill)
qed

lemma linv_pump [linv_intros]:
  assumes "linv (gl w)" "cur_logic w"
  shows "linv (gl (logic_player_pump w))"
proof -
  let ?w = "on_player (\<lambda>p. p\<lparr>is_pumping := True, p_state := PLAYER_PUMPING, pump_dir := dir (p_base p),
      pump_length := (if pump_length p < MAX_PUMP_LENGTH then pump_length p + 1 else pump_length p)\<rparr>) w"
  have "linv (gl ?w)" by (rule linv_on_player [OF assms(1)]) (simp add: player_ok_def)
  moreover have "cur_logic ?w" using assms by simp
  ultimately show ?thesis unfolding logic_player_pump_def Let_def
    using pump_hit_alive [of _ _ _ ?w] by (auto intro!: linv_inflate simp: logic_check_pump_hit_def simp del: gl_simps)
qed

lemma linv_step_pump [linv_intros]: "linv (gl w) \<Longrightarrow> cur_logic w \<Longrightarrow> linv (gl (player_step_pump a w))"
  unfolding player_step_pump_def by (auto intro!: linv_intros simp: player_ok_def simp del: gl_simps)

lemma linv_step_collide [linv_intros]: "linv (gl w) \<Longrightarrow> linv (gl (player_step_collide w))"
  unfolding player_step_collide_def Let_def by (auto intro!: linv_intros)

lemma cur_logic_simps [simp]:
  "cur_logic (logic_add_score p w) = cur_logic w" "cur_logic (logic_player_move d w) = cur_logic w"
  "cur_logic (player_step_move w) = cur_logic w"
  by (simp_all add: logic_add_score_def logic_player_move_def player_step_move_def set_player_pos_def Let_def)

lemma linv_update_player [linv_intros]: "linv (gl w) \<Longrightarrow> cur_logic w \<Longrightarrow> linv (gl (logic_update_player w))"
  unfolding logic_update_player_def Let_def
  by (auto intro!: linv_intros player_timers_ok simp del: gl_simps) simp

section \<open>Enemies\<close>

lemma try_move_ok:
  assumes "alive e" "cell_ok (epos e)"
  shows "alive (snd (logic_try_enemy_move d e w))" "cell_ok (epos (snd (logic_try_enemy_move d e w)))"
  using assms by (auto simp: logic_try_enemy_move_def Let_def set_enemy_pos_def alive_def cell_ok_def)

lemma ai_ok:
  assumes "alive e" "cell_ok (epos e)"
  shows "alive (logic_enemy_ai e w)" "cell_ok (epos (logic_enemy_ai e w))"
proof -
  have upd: "alive (e'\<lparr>ghost_timer := t\<rparr>) = alive e'" for e' t by (simp add: alive_def)
  have "alive (logic_enemy_move_towards_player e w) \<and> cell_ok (epos (logic_enemy_move_towards_player e w))"
    using assms try_move_ok unfolding logic_enemy_move_towards_player_def Let_def
    by (auto split: prod.splits if_splits simp: upd) (metis snd_conv)+
  moreover have "alive (logic_enemy_ghost_mode e w) \<and> cell_ok (epos (logic_enemy_ghost_mode e w))"
    using assms unfolding logic_enemy_ghost_mode_def Let_def
    by (auto simp: alive_def cell_ok_def back_to_normal_def set_enemy_pos_def)
  ultimately show "alive (logic_enemy_ai e w)" "cell_ok (epos (logic_enemy_ai e w))"
    by (simp_all add: logic_enemy_ai_def)
qed

lemma ecount_simps [simp]:
  "ecount (on_player f w) = ecount w" "ecount (on_enemy i g w) = ecount w" "ecount (on_rock i h w) = ecount w"
  "rcount (on_player f w) = rcount w" "rcount (on_enemy i g w) = rcount w" "rcount (on_rock i h w) = rcount w"
  "ecount (on_gm k w) = ecount w" "rcount (on_gm k w) = rcount w"
  "ecount (kill_enemy i c w) = ecount w" "rcount (kill_enemy i c w) = rcount w"
  by (simp_all add: ecount_def rcount_def kill_enemy_def logic_add_score_def Let_def)

text \<open>A change of one enemy that keeps it in the game and on the map.\<close>

definition enemy_live :: "nat \<Rightarrow> world \<Rightarrow> bool" where
  "enemy_live i w \<longleftrightarrow> linv (gl w) \<and> i < ecount w \<and> alive (enemies (gl w) ! i)"

lemma enemy_live_step:
  assumes "enemy_live i w" "\<And>e. alive e \<Longrightarrow> cell_ok (epos e) \<Longrightarrow> alive (f e) \<and> cell_ok (epos (f e))"
  shows "enemy_live i (on_enemy i f w)"
proof -
  have w: "linv (gl w)" "i < ecount w" "alive (enemies (gl w) ! i)" using assms(1) by (simp_all add: enemy_live_def)
  have f: "alive (f (enemies (gl w) ! i))" "cell_ok (epos (f (enemies (gl w) ! i)))"
    using assms(2) w(3) linv_cell(1) [OF w(1,2)] by blast+
  then have "linv (gl (on_enemy i f w))" using w by (intro linv_on_enemy)
  then show ?thesis using f(1) w(2) linv_counts(1) [OF w(1,2)] by (simp add: enemy_live_def)
qed

lemma linv_think:
  assumes "enemy_live i w"
  shows "linv (gl (enemy_think i w))"
proof -
  define w1 where "w1 = on_enemy i (\<lambda>e. logic_enemy_ai e w) w"
  define w2 where "w2 = on_enemy i (\<lambda>e. e\<lparr>e_base := (e_base e)\<lparr>speed_counter := speed_limit (e_base e)\<rparr>, ghost_timer := ghost_timer e + 1\<rparr>) w1"
  have "enemy_live i w1" unfolding w1_def by (rule enemy_live_step [OF assms]) (simp add: ai_ok)
  then have "enemy_live i w2" unfolding w2_def by (rule enemy_live_step) (simp add: alive_def)
  moreover have "enemy_live i (on_enemy i (\<lambda>e. e\<lparr>e_state := ENEMY_GHOST, has_left_tunnel := False\<rparr>) w2)"
    by (rule enemy_live_step [OF calculation]) (simp add: alive_def)
  ultimately show ?thesis unfolding enemy_think_def Let_def w1_def [symmetric] w2_def [symmetric] enemy_live_def by simp
qed

lemma live_fire:
  assumes "enemy_live i w"
  shows "enemy_live i (logic_fygar_fire now i w)"
proof -
  have "enemy_live i (on_enemy i (start_fire now d) w)" for d
    by (rule enemy_live_step [OF assms]) (simp add: alive_def start_fire_def)
  moreover have "enemy_live i (on_enemy i (\<lambda>e. e\<lparr>fire_active := False, fire_end_time := now\<rparr>) w)"
    by (rule enemy_live_step [OF assms]) (simp add: alive_def)
  moreover have "enemy_live i (logic_player_die w)" using assms linv_die by (simp add: enemy_live_def)
  ultimately show ?thesis using assms by (simp add: logic_fygar_fire_def Let_def)
qed

lemma linv_paralyzed:
  assumes "enemy_live i w"
  shows "linv (gl (update_paralyzed i w))"
proof -
  define w1 where "w1 = on_enemy i (\<lambda>e. e\<lparr>e_blink_count := e_blink_count e - 1\<rparr>) w"
  have 1: "enemy_live i w1" unfolding w1_def by (rule enemy_live_step [OF assms]) (simp add: alive_def)
  have "enemy_live i (on_enemy i (\<lambda>e. e\<lparr>paralyzed_timer := paralyzed_timer e - 1\<rparr>) w)"
    "enemy_live i (on_enemy i (\<lambda>e. e\<lparr>paralyzed_timer := 5\<rparr>) w1)"
    by (rule enemy_live_step [OF assms] enemy_live_step [OF 1], simp add: alive_def)+
  moreover have "linv (gl (kill_enemy i 1 w1))" using 1 linv_kill by (simp add: enemy_live_def)
  ultimately show ?thesis unfolding update_paralyzed_def Let_def w1_def [symmetric] enemy_live_def by simp
qed

lemma linv_update_enemy:
  assumes "linv (gl w)" "i < ecount w"
  shows "linv (gl (update_enemy now i w))"
proof (cases "alive (enemies (gl w) ! i)")
  case True
  then have live: "enemy_live i w" using assms by (simp add: enemy_live_def)
  have "enemy_live i (on_enemy i logic_enemy_deflate w)"
    "enemy_live i (on_enemy i (\<lambda>e. e\<lparr>e_base := (e_base e)\<lparr>speed_counter := speed_counter (e_base e) - 1\<rparr>\<rparr>) w)"
    by (rule enemy_live_step [OF live], simp add: alive_def logic_enemy_deflate_def Let_def)+
  then show ?thesis
    using assms(1) live live_fire [OF live, of now] linv_think linv_paralyzed [OF live]
    unfolding update_enemy_def Let_def enemy_live_def by simp
next
  case False
  then show ?thesis using assms by (auto simp: update_enemy_def alive_def)
qed

lemma ecount_update_enemy [simp]: "ecount (update_enemy now i w) = ecount w" "rcount (update_enemy now i w) = rcount w"
proof -
  have "ecount (update_paralyzed i w) = ecount w" "rcount (update_paralyzed i w) = rcount w" for w
    by (simp_all add: update_paralyzed_def Let_def del: gl_simps)
  moreover have "ecount (enemy_think i w) = ecount w" "rcount (enemy_think i w) = rcount w" for w
    by (simp_all add: enemy_think_def Let_def del: gl_simps)
  moreover have "ecount (logic_fygar_fire now i w) = ecount w" "rcount (logic_fygar_fire now i w) = rcount w" for w
    by (simp_all add: logic_fygar_fire_def Let_def del: gl_simps)
  ultimately show "ecount (update_enemy now i w) = ecount w" "rcount (update_enemy now i w) = rcount w"
    by (simp_all add: update_enemy_def Let_def del: gl_simps)
qed

text \<open>A loop over indices keeps what its body keeps.\<close>

lemma fold_inv:
  assumes "Q s" "\<And>i s. i \<in> set xs \<Longrightarrow> Q s \<Longrightarrow> Q (f i s)"
  shows "Q (fold f xs s)"
  using assms by (induction xs arbitrary: s) simp_all

lemma linv_update_enemies:
  assumes "linv (gl w)"
  shows "linv (gl (logic_update_enemies now w))"
proof -
  have "linv (gl (fold (update_enemy now) [0..<ecount w] w)) \<and> ecount (fold (update_enemy now) [0..<ecount w] w) = ecount w"
    by (rule fold_inv) (use assms linv_update_enemy in auto)
  then show ?thesis by (simp add: logic_update_enemies_def)
qed

section \<open>Rocks\<close>

lemma kill_rocks [simp]: "rocks (gl (kill_enemy i k w)) = rocks (gl w)"
  by (simp add: kill_enemy_def logic_add_score_def Let_def)

lemma on_rock_rpos:
  assumes "\<And>x. rpos (f x) = rpos x"
  shows "rpos (rocks (gl (on_rock r f w)) ! j) = rpos (rocks (gl w) ! j)"
  using assms by (cases "r = j"; cases "j < length (rocks (gl w))") (simp_all add: list_update_beyond)

lemma crush_rpos:
  "rpos (rocks (gl (crush_enemy r i w)) ! j) = rpos (rocks (gl w) ! j)"
  "rpos (rocks (gl (crush_player r dy w)) ! j) = rpos (rocks (gl w) ! j)"
  by (simp_all add: crush_enemy_def crush_player_def Let_def on_rock_rpos del: gl_simps)

lemma crush_counts [simp]:
  "ecount (crush_enemy r i w) = ecount w" "rcount (crush_enemy r i w) = rcount w"
  "ecount (crush_player r dy w) = ecount w" "rcount (crush_player r dy w) = rcount w"
  by (simp_all add: crush_enemy_def crush_player_def Let_def del: gl_simps)

lemma linv_crush:
  assumes "linv (gl w)"
  shows "linv (gl (logic_check_rock_crush r w)) \<and> ecount (logic_check_rock_crush r w) = ecount w \<and>
    rcount (logic_check_rock_crush r w) = rcount w \<and>
    rpos (rocks (gl (logic_check_rock_crush r w)) ! j) = rpos (rocks (gl w) ! j)"
proof -
  have die: "linv (gl (crush_player r dy w))" if "linv (gl w)" for dy w
    using that unfolding crush_player_def by (auto intro!: linv_on_rock linv_die simp del: gl_simps)
  have enemy: "linv (gl (crush_enemy r i w))" if "linv (gl w)" "i < ecount w" for i w
    using that unfolding crush_enemy_def Let_def by (auto intro!: linv_on_rock linv_kill simp del: gl_simps)
  define Q where "Q w' \<longleftrightarrow> linv (gl w') \<and> ecount w' = ecount w \<and> rcount w' = rcount w \<and>
    rpos (rocks (gl w') ! j) = rpos (rocks (gl w) ! j)" for w'
  have "Q (fold (crush_enemy r) [0..<ecount w] (crush_player r 1 (crush_player r 0 w)))"
    by (rule fold_inv) (use assms die enemy in \<open>simp_all add: Q_def crush_rpos\<close>)
  then show ?thesis by (simp add: Q_def logic_check_rock_crush_def)
qed

lemma linv_rock_fall:
  assumes "linv (gl w)"
  shows "linv (gl (logic_rock_fall i w)) \<and> rcount (logic_rock_fall i w) = rcount w"
proof -
  have "linv (gl (on_rock i (set_rock_y (pos_y (rpos (rocks (gl w) ! i)) + 1)) (logic_check_rock_crush i w)))"
    if "map_is_valid_position (pos_x (rpos (rocks (gl w) ! i))) (pos_y (rpos (rocks (gl w) ! i)) + 1)"
    using that linv_crush [OF assms, of i i]
    by (intro linv_on_rock) (auto simp: set_rock_y_def cell_ok_def simp del: gl_simps)
  moreover have "linv (gl (on_rock i (\<lambda>r. r\<lparr>r_state := ROCK_BLINKING, r_blink_count := ROCK_BLINK_COUNT,
      r_blink_timer := ROCK_BLINK_DURATION\<rparr>) w))"
    by (intro linv_on_rock assms) simp
  ultimately show ?thesis using linv_crush [OF assms, of i i] by (simp add: logic_rock_fall_def Let_def del: gl_simps)
qed

lemma linv_update_rock:
  assumes "linv (gl w)"
  shows "linv (gl (update_rock i w)) \<and> rcount (update_rock i w) = rcount w"
  using assms linv_rock_fall [OF assms, of i] unfolding update_rock_def Let_def
  by (cases "r_state (rocks (gl w) ! i)")
    (auto intro!: linv_on_rock simp: logic_rock_check_fall_def rock_wobble_def rock_blink_def deactivate_rock_def Let_def
      simp del: gl_simps)

lemma linv_update_rocks: "linv (gl w) \<Longrightarrow> linv (gl (logic_update_rocks w))"
  unfolding logic_update_rocks_def by (rule fold_inv) (use linv_update_rock in auto)

section \<open>Rounds and loading\<close>

text \<open>Loops that initialise the entries of an array one by one.\<close>

lemma fold_update_nth:
  "fold (\<lambda>i xs. xs[i := f i (xs ! i)]) [a..<b] xs = map (\<lambda>i. if a \<le> i \<and> i < b then f i (xs ! i) else xs ! i) [0..<length xs]"
proof (induction b)
  case 0
  then show ?case by (simp add: map_nth)
next
  case (Suc b)
  show ?case
  proof (cases "a \<le> b")
    case True
    then show ?thesis using Suc by (auto intro!: nth_equalityI simp: nth_list_update less_Suc_eq)
  next
    case False
    then show ?thesis by (auto intro!: nth_equalityI)
  qed
qed

lemma fold_on_enemy:
  "fold (\<lambda>i. on_enemy i (f i)) [a..<b] w = on_gl (enemies_update (\<lambda>es.
     map (\<lambda>i. if a \<le> i \<and> i < b then f i (es ! i) else es ! i) [0..<length es])) w"
proof -
  have "fold (\<lambda>i. on_enemy i (f i)) xs w = on_gl (enemies_update (fold (\<lambda>i es. es[i := f i (es ! i)]) xs)) w" for xs
    by (induction xs arbitrary: w) (simp_all add: on_enemy_def on_gl_def)
  then show ?thesis by (simp add: fold_update_nth)
qed

lemma fold_on_rock:
  "fold (\<lambda>i. on_rock i (f i)) [a..<b] w = on_gl (rocks_update (\<lambda>rs.
     map (\<lambda>i. if a \<le> i \<and> i < b then f i (rs ! i) else rs ! i) [0..<length rs])) w"
proof -
  have "fold (\<lambda>i. on_rock i (f i)) xs w = on_gl (rocks_update (fold (\<lambda>i rs. rs[i := f i (rs ! i)]) xs)) w" for xs
    by (induction xs arbitrary: w) (simp_all add: on_rock_def on_gl_def)
  then show ?thesis by (simp add: fold_update_nth)
qed

text \<open>What holds before a level is loaded, and a freshly loaded level.\<close>

definition lbase :: "logic_state \<Rightarrow> bool" where
  "lbase s \<longleftrightarrow> length (enemies s) = MAX_ENEMIES \<and> length (rocks s) = MAX_ROCKS \<and>
     0 \<le> score s \<and> score s \<le> MAX_SCORE \<and> lives s \<le> INITIAL_LIVES"

lemma linv_lbase: "linv s \<Longrightarrow> lbase s"
  by (simp add: linv_def lbase_def sizes_ok_def)

lemma linv_fresh:
  assumes "lbase s" "player_ok (plyr s)" "1 \<le> round_nr s" "enemy_count s = int n" "n \<le> 8" "rock_count s = int k" "k \<le> 10"
    "enemies_remaining s = int n" "\<And>i. i < n \<Longrightarrow> alive (enemies s ! i) \<and> cell_ok (epos (enemies s ! i))"
    "\<And>i. i < k \<Longrightarrow> cell_ok (rpos (rocks s ! i))"
  shows "linv s"
proof -
  have "alive_ids s = {..<n}" using assms by (auto simp: alive_ids_def)
  then show ?thesis using assms by (simp add: linv_def lbase_def sizes_ok_def enemies_ok_def rocks_ok_def)
qed

lemma init_ok [simp]:
  "alive (logic_enemy_init x y t e)" "epos (logic_enemy_init x y t e) = mk_pos x y" "rpos (logic_rock_init x y r) = mk_pos x y"
  by (simp_all add: logic_enemy_init_def logic_rock_init_def alive_def)

lemma player_init_ok: "0 \<le> x \<Longrightarrow> x < 80 \<Longrightarrow> 2 \<le> y \<Longrightarrow> y < 23 \<Longrightarrow> player_ok (logic_player_init x y p)"
  by (simp add: logic_player_init_def player_ok_def)

lemma linv_start_round:
  assumes "lbase (gl w)" "1 \<le> rnd"
  shows "linv (gl (logic_start_round rnd w))"
proof -
  define n where "n = nat (if 2 + cdiv rnd 2 > int MAX_ENEMIES then int MAX_ENEMIES else 2 + cdiv rnd 2)"
  have n: "n \<le> 8" "(if 2 + cdiv rnd 2 > int MAX_ENEMIES then int MAX_ENEMIES else 2 + cdiv rnd 2) = int n"
    using assms(2) by (auto simp: n_def)
  have epos: "cell_ok (mk_pos (60 + (int i * 5) mod 15) (8 + (int i * 4) mod 12))" for i
  proof -
    have "int i * 5 mod 15 < 15" "int i * 4 mod 12 < 12" by (rule pos_mod_bound, simp)+
    then show ?thesis unfolding cell_ok_def map_is_valid_position_def by (simp add: less_imp_le, linarith)
  qed
  have rpos: "i < 4 \<Longrightarrow> cell_ok (mk_pos (20 + int i * 15) (6 + int i * 3))" for i
    by (simp add: cell_ok_def map_is_valid_position_def)
  show ?thesis
    unfolding logic_start_round_def Let_def n(2)
    by (rule linv_fresh [where n = n and k = 4])
      (use assms n(1) epos rpos in \<open>simp_all add: fold_on_enemy fold_on_rock lbase_def player_init_ok\<close>)
qed

lemma linv_transition: "linv (gl w) \<Longrightarrow> linv (gl (logic_transition_to_next_round w))"
proof -
  assume inv: "linv (gl w)"
  let ?w = "on_gl (\<lambda>s. s\<lparr>round_nr := round_nr s + 1\<rparr>) w"
  have "linv (gl ?w)" using inv by (simp add: linv_def linv_parts)
  then have "linv (gl (logic_start_round (round_nr (gl ?w)) ?w))"
    by (intro linv_start_round linv_lbase) (simp_all add: linv_def)
  moreover have "linv (gl (on_gl (scene_update (\<lambda>_. SCENE_GAME_OVER)) ?w))" by (rule linv_scene) fact
  ultimately show ?thesis by (simp add: logic_transition_to_next_round_def Let_def)
qed

lemma linv_count_down: "linv (gl w) \<Longrightarrow> linv (gl (snd (count_down w)))"
  by (simp add: count_down_def Let_def linv_def linv_parts)

lemma linv_round_complete: "linv (gl w) \<Longrightarrow> linv (gl (logic_check_round_complete now w))"
  unfolding logic_check_round_complete_def Let_def by (auto intro!: linv_intros simp del: gl_simps)

lemma linv_game_over: "linv (gl w) \<Longrightarrow> linv (gl (logic_check_game_over w))"
  unfolding logic_check_game_over_def by (auto intro!: linv_intros simp del: gl_simps)

lemma linv_logic_update:
  assumes "linv (gl w)"
  shows "linv (gl (logic_update now w))"
proof -
  let ?w = "w\<lparr>cur_logic := True\<rparr>"
  have w: "linv (gl ?w)" "cur_logic ?w" using assms by simp_all
  obtain b w' where cd: "count_down ?w = (b, w')" by fastforce
  have w': "linv (gl w')" using linv_count_down [OF w(1)] cd by simp
  have play: "linv (gl (logic_check_game_over (logic_check_round_complete now (logic_update_rocks (logic_update_enemies now
      (logic_update_player (on_gl (\<lambda>s. s\<lparr>time_elapsed := time_elapsed s + 1\<rparr>) ?w)))))))"
    by (intro linv_game_over linv_round_complete linv_update_rocks linv_update_enemies linv_update_player linv_timers w)
      (simp add: w(2))
  show ?thesis
    using w w' play linv_respawn [OF w'] linv_transition [OF w'] linv_scene [OF w']
    unfolding logic_update_def Let_def cd by (cases "scene (gl w)") simp_all
qed

lemma linv_attack: "linv (gl w) \<Longrightarrow> linv (gl (snd (logic_player_attack w)))"
proof -
  assume inv: "linv (gl w)"
  have hit: "linv (gl (attack_hit x y i w)) \<and> ecount (attack_hit x y i w) = ecount w" if "linv (gl w)" "i < ecount w" for x y i w
    using that linv_cell(1) [OF that] linv_active [OF that] unfolding attack_hit_def Let_def
    by (auto intro!: linv_on_enemy simp: alive_def simp del: gl_simps)
  define w1 where "w1 = on_player (\<lambda>p. p\<lparr>is_attacking := True, attack_timer := ATTACK_DISPLAY_TIME, p_state := PLAYER_ATTACKING\<rparr>) w"
  define Q where "Q w' \<longleftrightarrow> linv (gl w') \<and> ecount w' = ecount w1" for w'
  have "linv (gl w1)" unfolding w1_def by (rule linv_on_player [OF inv]) (simp add: player_ok_def)
  then have "Q w1" by (simp add: Q_def)
  then have "Q (fold (\<lambda>i. fold (attack_hit (x + dx * i) (y + dy * i)) [0..<ecount w1]) is w1)" for x y dx dy "is"
    by (rule fold_inv) (rule fold_inv, assumption, use hit in \<open>auto simp: Q_def\<close>)
  then show ?thesis using inv unfolding logic_player_attack_def Let_def w1_def [symmetric] by (simp add: Q_def)
qed

lemma linv_dev_kill: "linv (gl w) \<Longrightarrow> linv (gl (snd (logic_dev_kill_enemy w)))"
  unfolding logic_dev_kill_enemy_def
  by (auto intro!: linv_kill simp: find_Some_iff split: option.splits)

lemma lbase_init:
  assumes "length (enemies (gl w)) = MAX_ENEMIES" "length (rocks (gl w)) = MAX_ROCKS"
  shows "linv (gl (logic_init w))"
  unfolding logic_init_def Let_def
  by (rule linv_fresh [where n = 0 and k = 0])
    (use assms in \<open>simp_all add: fold_on_enemy fold_on_rock lbase_def player_init_ok\<close>)

text \<open>Loading a level, in one step.\<close>

definition loaded :: "level_data \<Rightarrow> int \<Rightarrow> game_map \<Rightarrow> world \<Rightarrow> world \<Rightarrow> bool" where
  "loaded l rnd m w w' \<longleftrightarrow> gm w' = data_place_bonuses rnd m \<and> cur_logic w' = cur_logic w \<and>
     plyr (gl w') = logic_player_init (player_start_x l) (player_start_y l) (plyr (gl w)) \<and>
     enemy_count (gl w') = l_enemy_count l \<and> enemies_remaining (gl w') = l_enemy_count l \<and>
     rock_count (gl w') = l_rock_count l \<and> round_nr (gl w') = rnd \<and>
     scene (gl w') = scene (gl w) \<and> score (gl w') = score (gl w) \<and> lives (gl w') = lives (gl w) \<and>
     time_elapsed (gl w') = time_elapsed (gl w) \<and> enemies_cleared_time (gl w') = enemies_cleared_time (gl w) \<and>
     round_start_timer (gl w') = round_start_timer (gl w) \<and> running (gl w') = running (gl w) \<and>
     length (enemies (gl w')) = length (enemies (gl w)) \<and> length (rocks (gl w')) = length (rocks (gl w)) \<and>
     (\<forall>i < length (l_enemies l). alive (enemies (gl w') ! i) \<and>
        epos (enemies (gl w') ! i) = mk_pos (spawn_x (l_enemies l ! i)) (spawn_y (l_enemies l ! i)) \<and>
        etype (e_base (enemies (gl w') ! i)) = spawn_type (l_enemies l ! i)) \<and>
     (\<forall>i < length (l_rocks l). active (r_base (rocks (gl w') ! i)) \<and> r_state (rocks (gl w') ! i) = ROCK_STABLE \<and>
        rpos (rocks (gl w') ! i) = mk_pos (spawn_x (l_rocks l ! i)) (spawn_y (l_rocks l ! i)))"

lemma faster_ok [simp]:
  "alive (faster_enemy b e) = alive e" "epos (faster_enemy b e) = epos e" "etype (e_base (faster_enemy b e)) = etype (e_base e)"
  by (simp_all add: faster_enemy_def alive_def Let_def)

lemma init_fields [simp]:
  "etype (e_base (logic_enemy_init x y t e)) = t" "active (r_base (logic_rock_init x y r))"
  "r_state (logic_rock_init x y r) = ROCK_STABLE"
  by (simp_all add: logic_enemy_init_def logic_rock_init_def)

lemma load_level:
  assumes "length (enemies (gl w)) = MAX_ENEMIES" "length (rocks (gl w)) = MAX_ROCKS"
  shows "\<exists>w' m. data_load_level rnd w = Some w' \<and> dug (in_tunnels (data_get_level rnd)) (map_init rnd (gm w)) m \<and>
    loaded (data_get_level rnd) rnd m w w'"
proof -
  define l where "l = data_get_level rnd"
  have wf: "level_wf l" by (simp add: l_def level_wf)
  obtain m where m: "data_create_tunnels l (map_init rnd (gm w)) = Some m" "dug (in_tunnels l) (map_init rnd (gm w)) m"
    using create_tunnels_ends [OF wf] by blast
  define w1 where "w1 = on_gl (\<lambda>s. s\<lparr>enemy_count := l_enemy_count l, enemies_remaining := l_enemy_count l,
      rock_count := l_rock_count l, round_nr := rnd\<rparr>) (on_gm (data_place_bonuses rnd) (data_spawn_rocks l (data_spawn_enemies l
      (on_player (logic_player_init (player_start_x l) (player_start_y l)) (w\<lparr>gm := m\<rparr>)))))"
  have 1: "loaded l rnd m w w1" using wf assms
    by (simp add: w1_def loaded_def data_spawn_rocks_def data_spawn_enemies_def Let_def fold_on_enemy fold_on_rock level_wf_def)
  then have 2: "loaded l rnd m w (fold (\<lambda>i. on_enemy i (faster_enemy b)) [0..<n] w1)" for b n
    using wf assms by (simp add: fold_on_enemy loaded_def level_wf_def)
  have "data_load_level rnd w = Some (if rnd > NUM_LEVELS_DEFINED
      then fold (\<lambda>i. on_enemy i (faster_enemy (rnd - NUM_LEVELS_DEFINED))) [0..<ecount w1] w1 else w1)"
    by (simp add: data_load_level_def l_def [symmetric] m(1) on_gm_def w1_def)
  then show ?thesis using 1 2 m(2) by (auto simp: l_def)
qed

lemma level_cells: "list_all (\<lambda>sp. cell_ok (mk_pos (spawn_x sp) (spawn_y sp))) (l_enemies (data_get_level rnd))"
  "list_all (\<lambda>sp. cell_ok (mk_pos (spawn_x sp) (spawn_y sp))) (l_rocks (data_get_level rnd))"
  "player_ok (logic_player_init (player_start_x (data_get_level rnd)) (player_start_y (data_get_level rnd)) p)"
  using level_cases [of rnd]
  by (auto simp: level_defs cell_ok_def map_is_valid_position_def intro!: player_init_ok)

lemma linv_loaded:
  assumes "lbase (gl w)" "1 \<le> rnd" "data_load_level rnd w = Some w'"
  shows "linv (gl w')"
proof -
  define l where "l = data_get_level rnd"
  have wf: "level_wf l" by (simp add: l_def level_wf)
  obtain m where "loaded l rnd m w w'" using load_level [of w rnd] assms(1,3) by (auto simp: lbase_def l_def)
  then show ?thesis
    using assms wf level_cells [of rnd, folded l_def]
    by (intro linv_fresh [where n = "length (l_enemies l)" and k = "length (l_rocks l)"])
      (auto simp: loaded_def lbase_def level_wf_def list_all_length)
qed

end
