(* ===== verification/Game_Rocks.thy ===== *)
theory Game_Rocks
  imports Game_Safety
begin

text \<open>
  The life of a rock: \<open>update_rock\<close> (the body of \<open>logic_update_rocks\<close>) as a state machine on one
  rock, with the measure that shows that a rock which has started to move comes to rest.
\<close>

section \<open>One rock\<close>

text \<open>The step of one rock on a given map, apart from the flag that records a crush.\<close>

definition rock_step :: "game_map \<Rightarrow> rock \<Rightarrow> rock" where
  "rock_step m r =
     (if \<not> active (r_base r) then r
      else case r_state r of
        ROCK_STABLE \<Rightarrow> logic_rock_check_fall m r
      | ROCK_WOBBLING \<Rightarrow> rock_wobble r
      | ROCK_FALLING \<Rightarrow>
          if \<not> map_is_valid_position (pos_x (rpos r)) (pos_y (rpos r) + 1) \<or> map_is_solid (pos_x (rpos r)) (pos_y (rpos r) + 1) m
          then r\<lparr>r_state := ROCK_BLINKING, r_blink_count := ROCK_BLINK_COUNT, r_blink_timer := ROCK_BLINK_DURATION\<rparr>
          else set_rock_y (pos_y (rpos r) + 1) r
      | ROCK_BLINKING \<Rightarrow> rock_blink r
      | ROCK_LANDED \<Rightarrow> deactivate_rock r)"

definition same_rock :: "rock \<Rightarrow> rock \<Rightarrow> bool" where
  "same_rock r r' \<longleftrightarrow> (\<exists>b. r' = r\<lparr>has_crushed := b\<rparr>)"

text \<open>How many updates a moving rock may still take; 0 for a rock that is gone.\<close>

definition rock_rank :: "rock \<Rightarrow> nat" where
  "rock_rank r =
     (if \<not> active (r_base r) then 0
      else case r_state r of
        ROCK_WOBBLING \<Rightarrow> 70 + nat (wobble_timer r)
      | ROCK_FALLING \<Rightarrow> 45 + nat (24 - pos_y (rpos r))
      | ROCK_BLINKING \<Rightarrow> 1 + nat (r_blink_timer r) + 11 * nat (r_blink_count r)
      | _ \<Rightarrow> 1)"

definition rock_moving :: "rock \<Rightarrow> bool" where
  "rock_moving r \<longleftrightarrow> r_state r \<noteq> ROCK_STABLE \<and> cell_ok (rpos r)"

text \<open>The rock \<open>i\<close> over successive updates, with an arbitrary map before each.\<close>

definition rock_run :: "nat \<Rightarrow> game_map list \<Rightarrow> world \<Rightarrow> world" where
  "rock_run i ms w = fold (\<lambda>m w. update_rock i (w\<lparr>gm := m\<rparr>)) ms w"

section \<open>Lemmas\<close>

lemma same_rock_refl [simp]: "same_rock r r"
  unfolding same_rock_def by (rule exI [of _ "has_crushed r"]) simp

lemma crush_rocks:
  assumes "i < length (rocks (gl w))"
  shows "length (rocks (gl (logic_check_rock_crush i w))) = length (rocks (gl w)) \<and>
    same_rock (rocks (gl w) ! i) (rocks (gl (logic_check_rock_crush i w)) ! i)"
proof -
  define Q where "Q w' \<longleftrightarrow> length (rocks (gl w')) = length (rocks (gl w)) \<and>
    same_rock (rocks (gl w) ! i) (rocks (gl w') ! i)" for w' :: world
  have flag: "same_rock r r' \<Longrightarrow> same_rock r (r'\<lparr>has_crushed := True\<rparr>)" for r r' by (auto simp: same_rock_def)
  have step: "Q (crush_player i dy w')" "Q (crush_enemy i j w')" if "Q w'" for dy j w'
    using that assms flag by (simp_all add: Q_def crush_player_def crush_enemy_def Let_def)
  have "Q w" by (simp add: Q_def)
  then have "Q (crush_player i 1 (crush_player i 0 w))" by (intro step(1))
  then have "Q (fold (crush_enemy i) [0..<ecount w] (crush_player i 1 (crush_player i 0 w)))"
    by (rule fold_inv) (rule step(2))
  then show ?thesis by (simp add: Q_def logic_check_rock_crush_def)
qed

lemma same_rock_simps:
  assumes "same_rock r r'"
  shows "r_base r' = r_base r" "r_state r' = r_state r" "wobble_timer r' = wobble_timer r"
    "r_blink_timer r' = r_blink_timer r" "r_blink_count r' = r_blink_count r"
  using assms by (auto simp: same_rock_def)

lemma rock_fall_step:
  assumes "i < length (rocks (gl w))" "active (r_base (rocks (gl w) ! i))" "r_state (rocks (gl w) ! i) = ROCK_FALLING"
  shows "length (rocks (gl (logic_rock_fall i w))) = length (rocks (gl w)) \<and>
    same_rock (rock_step (gm w) (rocks (gl w) ! i)) (rocks (gl (logic_rock_fall i w)) ! i)"
proof -
  define r where "r = rocks (gl w) ! i"
  define r' where "r' = rocks (gl (logic_check_rock_crush i w)) ! i"
  have c: "length (rocks (gl (logic_check_rock_crush i w))) = length (rocks (gl w))" "same_rock r r'"
    using crush_rocks [OF assms(1)] by (simp_all add: r_def r'_def)
  obtain b where "r' = r\<lparr>has_crushed := b\<rparr>" using c(2) unfolding same_rock_def by blast
  then have "same_rock (set_rock_y y r) (set_rock_y y r')" for y
    unfolding same_rock_def by (intro exI [of _ b]) (simp add: set_rock_y_def)
  then show ?thesis using assms c(1)
    by (simp add: logic_rock_fall_def rock_step_def Let_def r_def [symmetric] r'_def [symmetric])
qed

lemma update_rock_step:
  assumes "i < length (rocks (gl w))"
  shows "length (rocks (gl (update_rock i w))) = length (rocks (gl w)) \<and>
    same_rock (rock_step (gm w) (rocks (gl w) ! i)) (rocks (gl (update_rock i w)) ! i)"
  using assms rock_fall_step [OF assms] unfolding update_rock_def Let_def
  by (cases "r_state (rocks (gl w) ! i)"; cases "active (r_base (rocks (gl w) ! i))")
    (simp_all add: rock_step_def)

lemma rock_rank_same: "same_rock r r' \<Longrightarrow> rock_rank r' = rock_rank r \<and> rock_moving r' = rock_moving r"
  using same_rock_simps [of r r'] by (simp add: rock_rank_def rock_moving_def cong: rock_state.case_cong)

lemma rock_step_rank:
  assumes "rock_moving r"
  shows "rock_moving (rock_step m r)" "active (r_base r) \<Longrightarrow> rock_rank (rock_step m r) < rock_rank r"
    "\<not> active (r_base r) \<Longrightarrow> rock_step m r = r"
proof -
  have y: "0 \<le> pos_y (rpos r)" "pos_y (rpos r) < 24" using assms by (auto simp: rock_moving_def cell_ok_def map_is_valid_position_def)
  show "rock_moving (rock_step m r)"
    using assms by (cases "r_state r")
      (auto simp: rock_moving_def rock_step_def rock_wobble_def rock_blink_def deactivate_rock_def set_rock_y_def cell_ok_def Let_def)
  show "active (r_base r) \<Longrightarrow> rock_rank (rock_step m r) < rock_rank r"
    using assms y by (cases "r_state r")
      (auto simp: rock_moving_def rock_step_def rock_wobble_def rock_blink_def deactivate_rock_def set_rock_y_def rock_rank_def
        map_is_valid_position_def Let_def)
  show "\<not> active (r_base r) \<Longrightarrow> rock_step m r = r" by (simp add: rock_step_def)
qed

lemma rock_run_rank:
  assumes "i < length (rocks (gl w))" "rock_moving (rocks (gl w) ! i)" "rock_rank (rocks (gl w) ! i) \<le> length ms"
  shows "rock_rank (rocks (gl (rock_run i ms w)) ! i) = 0"
  using assms
proof (induction ms arbitrary: w)
  case (Cons m ms)
  let ?w = "update_rock i (w\<lparr>gm := m\<rparr>)"
  note s = update_rock_step [of i "w\<lparr>gm := m\<rparr>"]
  have same: "length (rocks (gl ?w)) = length (rocks (gl w))" "same_rock (rock_step m (rocks (gl w) ! i)) (rocks (gl ?w) ! i)"
    using s Cons.prems(1) by simp_all
  have "rock_rank (rocks (gl ?w) ! i) \<le> length ms"
    using rock_rank_same [OF same(2)] rock_step_rank(2,3) [OF Cons.prems(2), of m] Cons.prems(3)
    by (cases "active (r_base (rocks (gl w) ! i))") (fastforce simp: rock_rank_def)+
  then have "rock_rank (rocks (gl (rock_run i ms ?w)) ! i) = 0"
    using Cons.prems same rock_rank_same [OF same(2)] rock_step_rank(1) [OF Cons.prems(2)] by (intro Cons.IH) simp_all
  then show ?case by (simp add: rock_run_def)
qed (simp add: rock_run_def)

lemma rock_rank_zero: "rock_rank r = 0 \<longleftrightarrow> \<not> active (r_base r)"
  by (cases "r_state r") (auto simp: rock_rank_def)

section \<open>Properties\<close>

text \<open>Property C15 (rock_comes_to_rest). A rock that has left its stable state, with the timers the
  game gives it, is out of play after at most 150 updates, whatever the map looks like before
  each of them: it wobbles, falls at most the height of the map, blinks and disappears.\<close>

theorem rock_comes_to_rest:
  assumes "i < length (rocks (gl w))" "r = rocks (gl w) ! i" "r_state r \<noteq> ROCK_STABLE"
    "map_is_valid_position (pos_x (rpos r)) (pos_y (rpos r))" "wobble_timer r \<le> ROCK_WOBBLE_TICKS"
    "r_blink_timer r \<le> ROCK_BLINK_DURATION" "r_blink_count r \<le> ROCK_BLINK_COUNT" "150 \<le> length ms"
  shows "\<not> active (r_base (rocks (gl (rock_run i ms w)) ! i))"
proof -
  have "rock_rank r \<le> 150" using assms(3-7)
    by (cases "r_state r") (auto simp: rock_rank_def map_is_valid_position_def)
  moreover have "rock_moving r" using assms(3,4) by (simp add: rock_moving_def cell_ok_def)
  ultimately show ?thesis using rock_run_rank [OF assms(1)] assms(2,8) rock_rank_zero by (metis order_trans)
qed

definition falling_example :: world where
  "falling_example = \<lparr>gl = \<lparr>scene = SCENE_PLAYING, score = 0, round_nr = 1, lives = 5, enemies_remaining = 1, time_elapsed = 0,
      round_start_timer = 0, enemies_cleared_time = 0,
      plyr = logic_player_init 10 5 player_zero,
      enemies = logic_enemy_init 10 5 ENTITY_POOKA enemy_zero # replicate 7 enemy_zero, enemy_count = 1,
      rocks = (logic_rock_init 10 5 rock_zero)\<lparr>r_state := ROCK_FALLING\<rparr> # replicate 9 rock_zero, rock_count = 1,
      running = True\<rparr>,
    gm = tunnel_example, cur_logic = True\<rparr>"

theorem rock_comes_to_rest_witness:
  "\<not> active (r_base (rocks (gl (rock_run 0 (replicate 150 tunnel_example) falling_example)) ! 0))"
  by (rule rock_comes_to_rest [OF _ refl])
    (simp_all add: falling_example_def logic_rock_init_def map_is_valid_position_def)

end
