(* ===== verification/Game_Input.thy ===== *)
theory Game_Input
  imports Game_Types
begin

text \<open>
  \<open>project/game_input.c\<close>: the input state, written by the keyboard handler and read once per frame
  by the logic thread. A scan code is an integer. The registration of the handler with the
  kernel (\<open>KeyboardEvent\<close>) does not change the input state; \<open>sys_keyboard_event\<close> models it.
\<close>

section \<open>Definitions\<close>

record input_state =
  direction :: direction
  held_dir :: direction
  move_just_pressed :: bool
  hold_time :: int
  action_pressed :: bool
  attack_pressed :: bool
  attack_held :: bool
  pause_pressed :: bool
  quit_pressed :: bool
  dev_kill_pressed :: bool
  any_key_pressed :: bool
  last_key :: int
  move_processed :: bool

abbreviation (input) HOLD_THRESHOLD :: int where "HOLD_THRESHOLD \<equiv> EIGHTH_SECOND"
abbreviation (input) KEY_W :: int where "KEY_W \<equiv> 0x11"
abbreviation (input) KEY_A :: int where "KEY_A \<equiv> 0x1E"
abbreviation (input) KEY_S :: int where "KEY_S \<equiv> 0x1F"
abbreviation (input) KEY_D :: int where "KEY_D \<equiv> 0x20"
abbreviation (input) KEY_ESC :: int where "KEY_ESC \<equiv> 0x01"
abbreviation (input) KEY_Q :: int where "KEY_Q \<equiv> 0x10"
abbreviation (input) KEY_ENTER :: int where "KEY_ENTER \<equiv> 0x1C"
abbreviation (input) KEY_SPACE :: int where "KEY_SPACE \<equiv> 0x39"
abbreviation (input) KEY_P :: int where "KEY_P \<equiv> 0x19"
abbreviation (input) KEY_K :: int where "KEY_K \<equiv> 0x25"
abbreviation (input) KEY_C :: int where "KEY_C \<equiv> 0x2E"
abbreviation (input) KEY_ARROW_UP :: int where "KEY_ARROW_UP \<equiv> 0x48"
abbreviation (input) KEY_ARROW_DOWN :: int where "KEY_ARROW_DOWN \<equiv> 0x50"
abbreviation (input) KEY_ARROW_LEFT :: int where "KEY_ARROW_LEFT \<equiv> 0x4B"
abbreviation (input) KEY_ARROW_RIGHT :: int where "KEY_ARROW_RIGHT \<equiv> 0x4D"

definition input_reset :: "input_state \<Rightarrow> input_state" where
  "input_reset s = s\<lparr>direction := DIR_NONE, held_dir := DIR_NONE, move_just_pressed := False, hold_time := 0,
     action_pressed := False, attack_pressed := False, attack_held := False, pause_pressed := False,
     quit_pressed := False, last_key := 0, any_key_pressed := False, move_processed := False\<rparr>"

definition input_clear :: "input_state \<Rightarrow> input_state" where
  "input_clear s = s\<lparr>direction := DIR_NONE, held_dir := DIR_NONE, move_just_pressed := False, hold_time := 0,
     action_pressed := False, attack_pressed := False, attack_held := False, pause_pressed := False,
     any_key_pressed := False, move_processed := False\<rparr>"

definition input_clear_quit :: "input_state \<Rightarrow> input_state" where
  "input_clear_quit s = s\<lparr>quit_pressed := False\<rparr>"

definition input_init :: "input_state \<Rightarrow> input_state" where
  "input_init s = input_reset s"

definition input_cleanup :: "input_state \<Rightarrow> input_state" where
  "input_cleanup s = input_reset s"

definition input_update :: "input_state \<Rightarrow> input_state" where
  "input_update s = (if held_dir s \<noteq> DIR_NONE then s\<lparr>hold_time := hold_time s + 1\<rparr> else s)"

definition input_new_frame :: "input_state \<Rightarrow> input_state" where
  "input_new_frame s = s"

definition key_direction :: "int \<Rightarrow> direction" where
  "key_direction key =
     (if key = KEY_W \<or> key = KEY_ARROW_UP then DIR_UP
      else if key = KEY_S \<or> key = KEY_ARROW_DOWN then DIR_DOWN
      else if key = KEY_A \<or> key = KEY_ARROW_LEFT then DIR_LEFT
      else if key = KEY_D \<or> key = KEY_ARROW_RIGHT then DIR_RIGHT
      else DIR_NONE)"

definition input_keyboard_handler :: "int \<Rightarrow> bool \<Rightarrow> input_state \<Rightarrow> input_state" where
  "input_keyboard_handler key pressed s =
     (let s = (if pressed then s\<lparr>last_key := key, any_key_pressed := True\<rparr> else s);
          key_dir = key_direction key in
      if key_dir \<noteq> DIR_NONE then
        if pressed then s\<lparr>held_dir := key_dir, move_just_pressed := True, hold_time := 0, move_processed := False\<rparr>
        else if held_dir s = key_dir then s\<lparr>held_dir := DIR_NONE, hold_time := 0, move_just_pressed := False\<rparr>
        else s
      else if key = KEY_SPACE then
        if pressed then s\<lparr>attack_held := True, attack_pressed := True\<rparr> else s\<lparr>attack_held := False\<rparr>
      else if \<not> pressed then s
      else if key = KEY_ENTER then s\<lparr>action_pressed := True\<rparr>
      else if key = KEY_P then s\<lparr>pause_pressed := True\<rparr>
      else if key = KEY_ESC \<or> key = KEY_Q then s\<lparr>quit_pressed := True\<rparr>
      else if key = KEY_K then s\<lparr>dev_kill_pressed := True\<rparr>
      else s)"

definition input_get_direction :: "input_state \<Rightarrow> direction \<times> input_state" where
  "input_get_direction s =
     (if held_dir s = DIR_NONE then (DIR_NONE, s)
      else if move_just_pressed s \<and> \<not> move_processed s
      then (held_dir s, s\<lparr>move_processed := True, move_just_pressed := False\<rparr>)
      else if hold_time s \<ge> HOLD_THRESHOLD then (held_dir s, s)
      else (DIR_NONE, s))"

definition input_is_action_pressed :: "input_state \<Rightarrow> bool \<times> input_state" where
  "input_is_action_pressed s = (action_pressed s, s\<lparr>action_pressed := False\<rparr>)"

definition input_is_attack_pressed :: "input_state \<Rightarrow> bool \<times> input_state" where
  "input_is_attack_pressed s = (attack_pressed s, s\<lparr>attack_pressed := False\<rparr>)"

definition input_is_attack_held :: "input_state \<Rightarrow> bool" where
  "input_is_attack_held s = attack_held s"

definition input_is_pause_pressed :: "input_state \<Rightarrow> bool \<times> input_state" where
  "input_is_pause_pressed s = (pause_pressed s, s\<lparr>pause_pressed := False\<rparr>)"

definition input_is_quit_pressed :: "input_state \<Rightarrow> bool" where
  "input_is_quit_pressed s = quit_pressed s"

definition input_is_dev_kill_pressed :: "input_state \<Rightarrow> bool \<times> input_state" where
  "input_is_dev_kill_pressed s = (dev_kill_pressed s, s\<lparr>dev_kill_pressed := False\<rparr>)"

definition input_any_key_pressed :: "input_state \<Rightarrow> bool \<times> input_state" where
  "input_any_key_pressed s = (any_key_pressed s, s\<lparr>any_key_pressed := False\<rparr>)"

definition input_get_last_key :: "input_state \<Rightarrow> int" where
  "input_get_last_key s = last_key s"

text \<open>The directions the logic thread reads in successive frames with no key event in between.\<close>

primrec frame_dirs :: "nat \<Rightarrow> input_state \<Rightarrow> direction list" where
  "frame_dirs 0 s = []"
| "frame_dirs (Suc n) s =
     (let (d, s) = input_get_direction (input_update (input_new_frame s)) in d # frame_dirs n s)"

section \<open>Lemmas\<close>

lemma frame_dirs_held:
  assumes "held_dir s = d" "d \<noteq> DIR_NONE" "\<not> move_just_pressed s"
  shows "frame_dirs n s = map (\<lambda>i. if hold_time s + int i + 1 \<ge> HOLD_THRESHOLD then d else DIR_NONE) [0..<n]"
  using assms
proof (induction n arbitrary: s)
  case (Suc n)
  let ?s = "s\<lparr>hold_time := hold_time s + 1\<rparr>"
  have "input_get_direction (input_update (input_new_frame s)) = (if hold_time s + 1 \<ge> 40 then d else DIR_NONE, ?s)"
    using Suc.prems by (simp add: input_get_direction_def input_update_def input_new_frame_def)
  moreover have "frame_dirs n ?s = map (\<lambda>i. if hold_time s + 1 + int i + 1 \<ge> 40 then d else DIR_NONE) [0..<n]"
    using Suc.IH [of ?s] Suc.prems by simp
  ultimately show ?case
    by (simp add: upt_conv_Cons map_Suc_upt [symmetric] del: upt_Suc)
qed simp

lemma frame_dirs_released: "held_dir s = DIR_NONE \<Longrightarrow> frame_dirs n s = replicate n DIR_NONE"
  by (induction n) (simp_all add: input_get_direction_def input_update_def input_new_frame_def)

section \<open>Properties\<close>


definition input_example :: input_state where
  "input_example = \<lparr>direction = DIR_NONE, held_dir = DIR_LEFT, move_just_pressed = False, hold_time = 7,
     action_pressed = False, attack_pressed = True, attack_held = False, pause_pressed = False, quit_pressed = True,
     dev_kill_pressed = False, any_key_pressed = True, last_key = 3, move_processed = True\<rparr>"


end
