(* ===== verification/Game_Main.thy ===== *)
theory Game_Main
  imports Game_Rocks Game_Input
begin

text \<open>
  \<open>project/game.c\<close>: the scenes of the game and the loop of the logic thread. A \<open>game\<close> holds the
  fields of \<open>g_game\<close> that the code uses, the input state, the flags shared with the render thread
  and the world of \<open>Game_Logic\<close>. Drawing does not change this state and is in \<open>Game_Render\<close>. A frame
  is one pass of the loop of \<open>logic_thread_func\<close>; keys arrive between frames. The debug output is
  disabled in \<open>include/debug.h\<close>.
\<close>

section \<open>State\<close>

record game =
  gw :: world
  inp :: input_state
  g_scene :: game_scene
  g_score :: int
  g_level :: int
  g_lives :: int
  g_ticks_elapsed :: int
  g_enemy_count :: int
  g_frame_ready :: bool
  g_running :: bool
  g_last_frame_time :: int
  g_frame_ticks :: int

abbreviation (input) GAME_OVER_DELAY :: int where "GAME_OVER_DELAY \<equiv> TIME_LONG"
abbreviation (input) MY_ROUND_START_DELAY :: int where "MY_ROUND_START_DELAY \<equiv> TIME_SHORT"
abbreviation (input) TICKS_PER_FRAME :: int where "TICKS_PER_FRAME \<equiv> 8"

definition on_w :: "(world \<Rightarrow> world) \<Rightarrow> game \<Rightarrow> game" where
  "on_w f g = g\<lparr>gw := f (gw g)\<rparr>"

definition read_input :: "(input_state \<Rightarrow> 'a \<times> input_state) \<Rightarrow> game \<Rightarrow> 'a \<times> game" where
  "read_input f g = (let (r, s) = f (inp g) in (r, g\<lparr>inp := s\<rparr>))"

text \<open>Both scene variables at once; the code always sets them together.\<close>

definition set_scene :: "game_scene \<Rightarrow> game \<Rightarrow> game" where
  "set_scene sc g = on_w (on_gl (scene_update (\<lambda>_. sc))) (g\<lparr>g_scene := sc\<rparr>)"

section \<open>Initialisation and levels\<close>

definition game_init :: "int \<Rightarrow> game \<Rightarrow> game" where
  "game_init now g =
     (let g = g\<lparr>inp := input_init (inp g)\<rparr>;
          g = on_w logic_init g
      in g\<lparr>g_scene := SCENE_MENU, g_score := 0, g_level := 1, g_lives := INITIAL_LIVES, g_ticks_elapsed := 0,
           g_enemy_count := 0, g_running := True, g_frame_ready := False, g_last_frame_time := now, g_frame_ticks := 0\<rparr>)"

definition game_cleanup :: "game \<Rightarrow> game" where
  "game_cleanup g = g\<lparr>g_running := False\<rparr>"

definition game_reset :: "game \<Rightarrow> game" where
  "game_reset g =
     (let g = g\<lparr>g_score := 0, g_lives := INITIAL_LIVES, g_level := 1, g_ticks_elapsed := 0, g_enemy_count := 0,
                g_scene := SCENE_MENU\<rparr>;
          g = on_w logic_init g
      in on_w (on_gl (\<lambda>s. s\<lparr>score := 0, lives := INITIAL_LIVES, round_nr := 1\<rparr>)) g)"

definition game_is_running :: "game \<Rightarrow> bool" where
  "game_is_running g = g_running g"

definition game_new_level :: "game \<Rightarrow> (int \<times> game) option" where
  "game_new_level g =
     (if g_level g < 1 \<or> g_level g > data_get_num_levels then Some (-1, g)
      else do {
        w \<leftarrow> data_load_level (g_level g) (gw g);
        g \<leftarrow> Some (g\<lparr>gw := w, g_enemy_count := enemy_count (gl w)\<rparr>);
        g \<leftarrow> Some (set_scene SCENE_ROUND_START g);
        Some (0, on_w (on_gl (round_start_timer_update (\<lambda>_. MY_ROUND_START_DELAY))) g) })"

definition game_restart_level :: "game \<Rightarrow> game option" where
  "game_restart_level g = do {
     w \<leftarrow> data_load_level (g_level g) (gw g);
     Some (g\<lparr>gw := w, g_enemy_count := enemy_count (gl w)\<rparr>) }"

definition sync_logic_to_game_state :: "game \<Rightarrow> game" where
  "sync_logic_to_game_state g =
     (let s = gl (gw g);
          g = g\<lparr>g_score := score s, g_lives := lives s, g_enemy_count := enemy_count s, g_ticks_elapsed := time_elapsed s\<rparr>
      in if scene s \<noteq> g_scene g then g\<lparr>g_scene := scene s\<rparr> else g)"

text \<open>The common start of a new game: reset, level one.\<close>

definition start_game :: "game \<Rightarrow> game option" where
  "start_game g = map_option snd (game_new_level ((game_reset g)\<lparr>g_level := 1\<rparr>))"

section \<open>Scenes\<close>

definition process_menu_state :: "game \<Rightarrow> game option" where
  "process_menu_state g =
     (let (action, g) = read_input input_is_action_pressed g in
      if action then do { g \<leftarrow> start_game g; Some (g\<lparr>inp := input_clear (inp g)\<rparr>) }
      else Some g)"

definition playing_attack :: "bool \<Rightarrow> bool \<Rightarrow> world \<Rightarrow> world" where
  "playing_attack just_pressed held w =
     (if just_pressed then snd (logic_player_attack w)
      else if held \<and> is_attacking (plyr (gl w)) then on_player (attack_timer_update (\<lambda>_. ATTACK_DISPLAY_TIME)) w
      else w)"

definition playing_end :: "game \<Rightarrow> game" where
  "playing_end g =
     (let g = sync_logic_to_game_state g
      in if lives (gl (gw g)) \<le> 0
         then on_w (on_gl (\<lambda>s. s\<lparr>round_start_timer := GAME_OVER_DELAY\<rparr>)) (set_scene SCENE_GAME_OVER g)
         else g)"

definition process_playing_state :: "int \<Rightarrow> game \<Rightarrow> game" where
  "process_playing_state now g =
     (let (pause, g) = read_input input_is_pause_pressed g in
      if pause then set_scene SCENE_PAUSED g
      else
        let (kill, g) = read_input input_is_dev_kill_pressed g;
            g = (if kill then on_w (\<lambda>w. snd (logic_dev_kill_enemy w)) g else g);
            (d, g) = read_input input_get_direction g;
            (pumping, g) = read_input input_is_action_pressed g;
            (just_pressed, g) = read_input input_is_attack_pressed g;
            held = input_is_attack_held (inp g);
            g = (if d \<noteq> DIR_NONE then on_w (on_player (\<lambda>p. p\<lparr>p_base := (p_base p)\<lparr>dir := d\<rparr>\<rparr>)) g else g);
            g = on_w (on_player (is_pumping_update (\<lambda>_. pumping))) g;
            g = on_w (playing_attack just_pressed held) g;
            g = on_w (logic_update now) g
        in playing_end g)"

definition process_paused_state :: "game \<Rightarrow> game" where
  "process_paused_state g =
     (let (pause, g) = read_input input_is_pause_pressed g in if pause then set_scene SCENE_PLAYING g else g)"

definition timer_down :: "game \<Rightarrow> game" where
  "timer_down g = on_w (on_gl (\<lambda>s. s\<lparr>round_start_timer := round_start_timer s - 1\<rparr>)) g"

definition process_level_clear_state :: "game \<Rightarrow> game option" where
  "process_level_clear_state g =
     (let g = timer_down g in
      if round_start_timer (gl (gw g)) \<le> 0 then
        let g = on_w (on_gl (\<lambda>s. s\<lparr>round_nr := round_nr s + 1\<rparr>)) (g\<lparr>g_level := g_level g + 1\<rparr>)
        in if g_level g > MAX_ROUNDS then Some (set_scene SCENE_VICTORY g) else map_option snd (game_new_level g)
      else Some g)"

definition process_game_over_state :: "game \<Rightarrow> game option" where
  "process_game_over_state g =
     (let g = timer_down g in
      if round_start_timer (gl (gw g)) \<le> 0 then
        let (action, g) = read_input input_is_action_pressed g in if action then start_game g else Some g
      else Some g)"

definition process_victory_state :: "game \<Rightarrow> game option" where
  "process_victory_state g =
     (let (action, g) = read_input input_is_action_pressed g in
      if action then start_game g
      else if input_is_quit_pressed (inp g) then Some (set_scene SCENE_MENU (g\<lparr>inp := input_clear_quit (inp g)\<rparr>))
      else if input_get_last_key (inp g) = KEY_C then Some (set_scene SCENE_CREDITS g)
      else Some g)"

definition process_credits_state :: "game \<Rightarrow> game" where
  "process_credits_state g =
     (if input_is_quit_pressed (inp g) then set_scene SCENE_VICTORY (g\<lparr>inp := input_clear_quit (inp g)\<rparr>) else g)"

definition process_round_start :: "game \<Rightarrow> game" where
  "process_round_start g =
     (let g = timer_down g in
      if round_start_timer (gl (gw g)) \<le> 0
      then (let g = set_scene SCENE_PLAYING g in g\<lparr>inp := input_clear (inp g)\<rparr>) else g)"

definition process_scene :: "int \<Rightarrow> game \<Rightarrow> game option" where
  "process_scene now g =
     (case g_scene g of
        SCENE_MENU \<Rightarrow> process_menu_state g
      | SCENE_PLAYING \<Rightarrow> Some (process_playing_state now g)
      | SCENE_PAUSED \<Rightarrow> Some (process_paused_state g)
      | SCENE_ROUND_CLEAR \<Rightarrow> process_level_clear_state g
      | SCENE_GAME_OVER \<Rightarrow> process_game_over_state g
      | SCENE_ROUND_START \<Rightarrow> Some (process_round_start g)
      | SCENE_VICTORY \<Rightarrow> process_victory_state g
      | SCENE_CREDITS \<Rightarrow> Some (process_credits_state g))"

section \<open>The loop\<close>

text \<open>The clock readings of the busy wait are the values \<open>clock 0, clock 1, \<dots>\<close>.\<close>

partial_function (option) wait_loop :: "(nat \<Rightarrow> int) \<Rightarrow> nat \<Rightarrow> int \<Rightarrow> int option" where
  "wait_loop clock i prev = (if clock i - prev < TICKS_PER_FRAME then wait_loop clock (i + 1) prev else Some (clock i))"

definition wait_for_next_frame :: "(nat \<Rightarrow> int) \<Rightarrow> game \<Rightarrow> game option" where
  "wait_for_next_frame clock g = do {
     now \<leftarrow> wait_loop clock 0 (g_last_frame_time g);
     Some (g\<lparr>g_frame_ticks := now - g_last_frame_time g, g_last_frame_time := now\<rparr>) }"

text \<open>One pass of the loop after the wait. Quitting from the menu leaves the loop at once.\<close>

definition game_frame :: "int \<Rightarrow> game \<Rightarrow> game option" where
  "game_frame now g =
     (let g = g\<lparr>inp := input_update (input_new_frame (inp g))\<rparr> in
      if input_is_quit_pressed (inp g) \<and> g_scene g = SCENE_MENU then Some (g\<lparr>g_running := False\<rparr>)
      else do {
        g \<leftarrow> process_scene now g;
        Some (g\<lparr>g_frame_ready := True, g_ticks_elapsed := g_ticks_elapsed g + 1\<rparr>) })"

text \<open>A run of the game: initialisation, then frames while it is running, keys, and the render
  thread taking over a finished frame, in any order.\<close>

inductive game_run :: "game \<Rightarrow> bool" where
  start: "length (enemies (gl (gw g))) = MAX_ENEMIES \<Longrightarrow> length (rocks (gl (gw g))) = MAX_ROCKS \<Longrightarrow> game_run (game_init now g)"
| frame: "game_run g \<Longrightarrow> g_running g \<Longrightarrow> game_frame now g = Some g' \<Longrightarrow> game_run g'"
| key: "game_run g \<Longrightarrow> game_run (g\<lparr>inp := input_keyboard_handler k pressed (inp g)\<rparr>)"
| rendered: "game_run g \<Longrightarrow> game_run (g\<lparr>g_frame_ready := False\<rparr>)"

section \<open>What the updates leave alone\<close>

definition sr :: "world \<Rightarrow> game_scene \<times> int" where
  "sr w = (scene (gl w), round_nr (gl w))"

lemma sr_basic [simp]:
  "sr (on_gm f w) = sr w" "sr (on_player h w) = sr w" "sr (on_enemy i e w) = sr w" "sr (on_rock i r w) = sr w"
  "sr (logic_add_score p w) = sr w" "sr (kill_enemy i k w) = sr w" "sr (logic_player_die w) = sr w"
  "sr (w\<lparr>cur_logic := b\<rparr>) = sr w" "sr (logic_player_respawn w) = sr w"
  by (simp_all add: sr_def logic_add_score_def kill_enemy_def logic_player_die_def logic_player_respawn_def Let_def)

lemma sr_player [simp]: "sr (logic_update_player w) = sr w"
proof -
  have "sr (logic_player_move d w) = sr w" for d w
    by (simp add: logic_player_move_def set_player_pos_def Let_def del: gl_simps)
  then have move: "sr (player_step_move w) = sr w" for w by (simp add: player_step_move_def Let_def del: gl_simps)
  have "sr (logic_enemy_inflate i w) = sr w" for i w by (simp add: logic_enemy_inflate_def Let_def del: gl_simps)
  then have pump: "sr (player_step_pump a w) = sr w" for a w
    by (simp add: player_step_pump_def logic_player_pump_def Let_def del: gl_simps)
  have "sr (player_step_collide w) = sr w" for w by (simp add: player_step_collide_def Let_def del: gl_simps)
  then show ?thesis by (simp add: logic_update_player_def Let_def move pump del: gl_simps)
qed

lemma sr_enemies [simp]: "sr (logic_update_enemies now w) = sr w"
proof -
  have "sr (update_paralyzed i w) = sr w" "sr (enemy_think i w) = sr w" "sr (logic_fygar_fire now i w) = sr w" for i w
    by (simp_all add: update_paralyzed_def enemy_think_def logic_fygar_fire_def Let_def del: gl_simps)
  then have "sr (update_enemy now i w) = sr w" for i w by (simp add: update_enemy_def Let_def del: gl_simps)
  then show ?thesis unfolding logic_update_enemies_def by (rule fold_keeps)
qed

lemma sr_rocks [simp]: "sr (logic_update_rocks w) = sr w"
proof -
  have "sr (crush_enemy r i w) = sr w" "sr (crush_player r dy w) = sr w" for r i dy w
    by (simp_all add: crush_enemy_def crush_player_def Let_def del: gl_simps)
  then have "sr (logic_check_rock_crush r w) = sr w" for r w
    unfolding logic_check_rock_crush_def by (subst fold_keeps [where h = sr]) simp_all
  then have "sr (logic_rock_fall i w) = sr w" for i w by (simp add: logic_rock_fall_def Let_def del: gl_simps)
  then have "sr (update_rock i w) = sr w" for i w
    by (simp add: update_rock_def Let_def split: rock_state.split del: gl_simps)
  then show ?thesis unfolding logic_update_rocks_def by (rule fold_keeps)
qed

lemma sr_attack [simp]: "sr (playing_attack a h w) = sr w"
proof -
  have "sr (attack_hit x y i w) = sr w" for x y i w by (simp add: attack_hit_def Let_def del: gl_simps)
  then have "sr (fold (\<lambda>i. fold (attack_hit (x + dx * i) (y + dy * i)) js) is w) = sr w" for x y dx dy js "is" w
    by (intro fold_keeps)
  then have "sr (snd (logic_player_attack w)) = sr w" for w by (simp add: logic_player_attack_def Let_def del: gl_simps)
  then show ?thesis by (simp add: playing_attack_def del: gl_simps)
qed

lemma sr_dev_kill [simp]: "sr (snd (logic_dev_kill_enemy w)) = sr w"
  by (simp add: logic_dev_kill_enemy_def split: option.split)

text \<open>Where one update of a game in play can lead.\<close>

lemma logic_update_playing:
  assumes "scene (gl w) = SCENE_PLAYING"
  shows "round_nr (gl (logic_update now w)) = round_nr (gl w)"
    "scene (gl (logic_update now w)) \<in> {SCENE_PLAYING, SCENE_ROUND_CLEAR, SCENE_VICTORY, SCENE_GAME_OVER}"
    "scene (gl (logic_update now w)) = SCENE_ROUND_CLEAR \<Longrightarrow> round_nr (gl w) < MAX_ROUNDS"
    "scene (gl (logic_update now w)) = SCENE_GAME_OVER \<longleftrightarrow> lives (gl (logic_update now w)) \<le> 0 \<and> round_start_timer (gl w) \<le> 0"
proof -
  define w1 where "w1 = logic_update_rocks (logic_update_enemies now (logic_update_player
    (on_gl (\<lambda>s. s\<lparr>time_elapsed := time_elapsed s + 1\<rparr>) (w\<lparr>cur_logic := True\<rparr>))))"
  have "sr w1 = sr (on_gl (\<lambda>s. s\<lparr>time_elapsed := time_elapsed s + 1\<rparr>) (w\<lparr>cur_logic := True\<rparr>))" by (simp add: w1_def)
  then have w1: "scene (gl w1) = SCENE_PLAYING" "round_nr (gl w1) = round_nr (gl w)" using assms by (simp_all add: sr_def)
  have eq: "logic_update now w = (if round_start_timer (gl w) > 0
      then (let (b, w') = count_down (w\<lparr>cur_logic := True\<rparr>)
            in if b \<and> p_state (plyr (gl w')) = PLAYER_DEAD \<and> lives (gl w') > 0 then logic_player_respawn w' else w')
      else logic_check_game_over (logic_check_round_complete now w1))"
    using assms by (simp add: logic_update_def w1_def Let_def)
  show "round_nr (gl (logic_update now w)) = round_nr (gl w)"
    "scene (gl (logic_update now w)) \<in> {SCENE_PLAYING, SCENE_ROUND_CLEAR, SCENE_VICTORY, SCENE_GAME_OVER}"
    "scene (gl (logic_update now w)) = SCENE_ROUND_CLEAR \<Longrightarrow> round_nr (gl w) < MAX_ROUNDS"
    "scene (gl (logic_update now w)) = SCENE_GAME_OVER \<longleftrightarrow> lives (gl (logic_update now w)) \<le> 0 \<and> round_start_timer (gl w) \<le> 0"
    using w1 assms unfolding eq
    by (auto simp: count_down_def logic_player_respawn_def logic_check_game_over_def logic_check_round_complete_def Let_def
        split: if_splits)
qed

section \<open>The invariant of the game\<close>

definition ginv :: "game \<Rightarrow> bool" where
  "ginv g \<longleftrightarrow> (let s = gl (gw g) in linv s \<and> g_scene g = scene s \<and> g_level g = round_nr s \<and> g_level g \<le> MAX_ROUNDS \<and>
     g_score g = score s \<and> g_lives g = lives s \<and> g_enemy_count g = enemy_count s \<and>
     (g_scene g = SCENE_ROUND_CLEAR \<longrightarrow> g_level g < MAX_ROUNDS) \<and> (g_scene g \<noteq> SCENE_GAME_OVER \<longrightarrow> lives s > 0))"

lemma ginv_gm: "ginv g \<Longrightarrow> linv (gl (gw g)) \<and> 1 \<le> g_level g"
  by (simp add: ginv_def Let_def linv_def)

lemma ginv_flags [simp]:
  "ginv (g\<lparr>inp := i\<rparr>) = ginv g" "ginv (g\<lparr>g_frame_ready := b\<rparr>) = ginv g" "ginv (g\<lparr>g_running := b\<rparr>) = ginv g"
  "ginv (g\<lparr>g_ticks_elapsed := t\<rparr>) = ginv g"
  by (simp_all add: ginv_def)

lemma read_input_eq: "snd (read_input f g) = g\<lparr>inp := snd (f (inp g))\<rparr>" "fst (read_input f g) = fst (f (inp g))"
  by (simp_all add: read_input_def split: prod.split)

lemma ginv_set_scene:
  assumes "ginv g" "sc \<noteq> SCENE_ROUND_CLEAR" "g_scene g \<noteq> SCENE_GAME_OVER"
  shows "ginv (set_scene sc g)"
  using assms by (simp add: ginv_def set_scene_def on_w_def Let_def linv_def linv_parts)

lemma ginv_timer: "ginv g \<Longrightarrow> ginv (on_w (on_gl (\<lambda>s. s\<lparr>round_start_timer := t s\<rparr>)) g)"
  using linv_timers(1) by (auto simp: ginv_def on_w_def Let_def)

lemma new_level_ok:
  assumes "lbase (gl (gw g))" "1 \<le> g_level g" "g_level g \<le> MAX_ROUNDS" "lives (gl (gw g)) > 0"
    "g_score g = score (gl (gw g))" "g_lives g = lives (gl (gw g))"
  shows "\<exists>g'. game_new_level g = Some (0, g') \<and> ginv g' \<and> g_scene g' = SCENE_ROUND_START \<and> inp g' = inp g \<and>
    g_running g' = g_running g"
proof -
  have len: "length (enemies (gl (gw g))) = 8" "length (rocks (gl (gw g))) = 10" using assms(1) by (simp_all add: lbase_def)
  obtain w' m where w': "data_load_level (g_level g) (gw g) = Some w'" "loaded (data_get_level (g_level g)) (g_level g) m (gw g) w'"
    using load_level [OF len] by blast
  have "linv (gl w')" using linv_loaded [OF assms(1,2) w'(1)] .
  then show ?thesis using assms w'
    by (simp add: game_new_level_def data_get_num_levels_def set_scene_def on_w_def ginv_def Let_def loaded_def linv_def linv_parts)
qed

lemma start_game_ok:
  assumes "length (enemies (gl (gw g))) = MAX_ENEMIES" "length (rocks (gl (gw g))) = MAX_ROCKS"
  shows "\<exists>g'. start_game g = Some g' \<and> ginv g' \<and> g_scene g' = SCENE_ROUND_START \<and> inp g' = inp g \<and> g_running g' = g_running g"
proof -
  let ?g = "(game_reset g)\<lparr>g_level := 1\<rparr>"
  have "linv (gl (logic_init (gw g)))" using lbase_init [OF assms] .
  then have "lbase (gl (gw ?g))" by (simp add: game_reset_def on_w_def Let_def linv_def lbase_def sizes_ok_def)
  then obtain g' where "game_new_level ?g = Some (0, g')" "ginv g' \<and> g_scene g' = SCENE_ROUND_START \<and> inp g' = inp ?g \<and> g_running g' = g_running ?g"
    using new_level_ok [of ?g] by (auto simp: game_reset_def on_w_def Let_def)
  then show ?thesis by (simp add: start_game_def game_reset_def on_w_def Let_def)
qed

lemma ginv_lengths: "ginv g \<Longrightarrow> length (enemies (gl (gw g))) = MAX_ENEMIES \<and> length (rocks (gl (gw g))) = MAX_ROCKS"
  by (simp add: ginv_def Let_def linv_def sizes_ok_def)

subsection \<open>Frames\<close>

definition scene_next :: "game_scene \<Rightarrow> game_scene set" where
  "scene_next sc = (case sc of
     SCENE_MENU \<Rightarrow> {SCENE_MENU, SCENE_ROUND_START}
   | SCENE_ROUND_START \<Rightarrow> {SCENE_ROUND_START, SCENE_PLAYING}
   | SCENE_PLAYING \<Rightarrow> {SCENE_PLAYING, SCENE_PAUSED, SCENE_ROUND_CLEAR, SCENE_VICTORY, SCENE_GAME_OVER}
   | SCENE_PAUSED \<Rightarrow> {SCENE_PAUSED, SCENE_PLAYING}
   | SCENE_ROUND_CLEAR \<Rightarrow> {SCENE_ROUND_CLEAR, SCENE_ROUND_START}
   | SCENE_GAME_OVER \<Rightarrow> {SCENE_GAME_OVER, SCENE_ROUND_START}
   | SCENE_VICTORY \<Rightarrow> {SCENE_VICTORY, SCENE_ROUND_START, SCENE_MENU, SCENE_CREDITS}
   | SCENE_CREDITS \<Rightarrow> {SCENE_CREDITS, SCENE_VICTORY})"

definition frame_ok :: "game \<Rightarrow> game \<Rightarrow> bool" where
  "frame_ok g g' \<longleftrightarrow> ginv g' \<and> g_scene g' \<in> scene_next (g_scene g)"

lemma read_let: "(case read_input f g of (r, h) \<Rightarrow> F r h) = F (fst (f (inp g))) (g\<lparr>inp := snd (f (inp g))\<rparr>)"
  by (simp add: read_input_def split: prod.split)

lemma on_w_rules:
  "(if b then on_w f g else g) = on_w (\<lambda>w. if b then f w else w) g" "inp (on_w f g) = inp g"
  "(on_w f g)\<lparr>inp := i\<rparr> = on_w f (g\<lparr>inp := i\<rparr>)" "on_w f (on_w h g) = on_w (\<lambda>w. f (h w)) g"
  "on_w f g = g\<lparr>gw := f (gw g)\<rparr>"
  by (simp_all add: on_w_def)

lemma inp_rules: "inp (g\<lparr>inp := i\<rparr>) = i" "g\<lparr>inp := i, inp := j\<rparr> = g\<lparr>inp := j\<rparr>" "gw (g\<lparr>inp := i\<rparr>) = gw g"
  by simp_all

lemma playing_unfold:
  assumes "linv (gl (gw g))" "\<not> pause_pressed (inp g)"
  shows "\<exists>i w. linv (gl w) \<and> sr w = sr (gw g) \<and>
    process_playing_state now g = playing_end (g\<lparr>inp := i, gw := logic_update now w\<rparr>)"
proof -
  define w0 where "w0 = (if dev_kill_pressed (inp g) then snd (logic_dev_kill_enemy (gw g)) else gw g)"
  define i0 where "i0 = (inp g)\<lparr>pause_pressed := False, dev_kill_pressed := False\<rparr>"
  obtain d i1 where d: "input_get_direction i0 = (d, i1)" by fastforce
  define w1 where "w1 = (if d \<noteq> DIR_NONE then on_player (\<lambda>p. p\<lparr>p_base := (p_base p)\<lparr>dir := d\<rparr>\<rparr>) w0 else w0)"
  define w2 where "w2 = on_player (is_pumping_update (\<lambda>_. action_pressed i1)) w1"
  define w3 where "w3 = playing_attack (attack_pressed i1) (attack_held i1) w2"
  have "linv (gl w0)" using assms linv_dev_kill by (simp add: w0_def)
  then have "linv (gl w1)" unfolding w1_def by (auto intro!: linv_on_player simp: player_ok_def simp del: gl_simps)
  then have "linv (gl w2)" unfolding w2_def by (auto intro!: linv_on_player simp: player_ok_def simp del: gl_simps)
  then have "linv (gl w3)" unfolding w3_def playing_attack_def
    by (auto intro!: linv_on_player linv_attack simp: player_ok_def simp del: gl_simps)
  moreover have "sr w3 = sr (gw g)" by (simp add: w3_def w2_def w1_def w0_def)
  moreover have "process_playing_state now g =
      playing_end (g\<lparr>inp := i1\<lparr>action_pressed := False, attack_pressed := False\<rparr>, gw := logic_update now w3\<rparr>)"
  proof -
    have fs: "fst (input_is_pause_pressed (inp g)) = False" "snd (input_is_dev_kill_pressed (snd (input_is_pause_pressed (inp g)))) = i0"
      "fst (input_is_dev_kill_pressed (snd (input_is_pause_pressed (inp g)))) = dev_kill_pressed (inp g)"
      "fst (input_is_action_pressed i1) = action_pressed i1" "fst (input_is_attack_pressed (snd (input_is_action_pressed i1))) = attack_pressed i1"
      "snd (input_is_attack_pressed (snd (input_is_action_pressed i1))) = i1\<lparr>action_pressed := False, attack_pressed := False\<rparr>"
      "input_is_attack_held (i1\<lparr>action_pressed := False, attack_pressed := False\<rparr>) = attack_held i1"
      using assms(2) by (simp_all add: input_is_pause_pressed_def input_is_dev_kill_pressed_def input_is_action_pressed_def
          input_is_attack_pressed_def input_is_attack_held_def i0_def)
    show ?thesis
      unfolding process_playing_state_def Let_def w3_def w2_def w1_def w0_def
      by (simp only: read_let on_w_rules(1-4) inp_rules fs d fst_conv snd_conv if_False) (simp only: on_w_rules(5) inp_rules)
  qed
  ultimately show ?thesis by blast
qed

lemma playing_ok:
  assumes "ginv g" "g_scene g = SCENE_PLAYING"
  shows "frame_ok g (process_playing_state now g)"
proof (cases "pause_pressed (inp g)")
  case True
  have "process_playing_state now g = set_scene SCENE_PAUSED (g\<lparr>inp := (inp g)\<lparr>pause_pressed := False\<rparr>\<rparr>)"
    using True by (simp add: process_playing_state_def read_input_def input_is_pause_pressed_def)
  moreover have "ginv (set_scene SCENE_PAUSED (g\<lparr>inp := (inp g)\<lparr>pause_pressed := False\<rparr>\<rparr>))"
    by (rule ginv_set_scene) (use assms in simp_all)
  ultimately show ?thesis using assms by (simp add: frame_ok_def scene_next_def set_scene_def on_w_def)
next
  case False
  obtain i w where w: "linv (gl w)" "sr w = sr (gw g)"
    "process_playing_state now g = playing_end (g\<lparr>inp := i, gw := logic_update now w\<rparr>)"
    using playing_unfold [OF _ False, of now] ginv_gm [OF assms(1)] by blast
  define w' where "w' = logic_update now w"
  have sc: "scene (gl w) = SCENE_PLAYING" "round_nr (gl w) = g_level g" using w(2) assms by (simp_all add: sr_def ginv_def Let_def)
  have w': "linv (gl w')" "round_nr (gl w') = g_level g" "scene (gl w') \<in> {SCENE_PLAYING, SCENE_ROUND_CLEAR, SCENE_VICTORY, SCENE_GAME_OVER}"
    "scene (gl w') = SCENE_ROUND_CLEAR \<longrightarrow> g_level g < MAX_ROUNDS" "scene (gl w') = SCENE_GAME_OVER \<longrightarrow> lives (gl w') \<le> 0"
    using linv_logic_update [OF w(1), of now] logic_update_playing [OF sc(1), of now] sc(2) by (auto simp: w'_def)
  show ?thesis
  proof (cases "lives (gl w') \<le> 0")
    case True
    have "linv ((gl w')\<lparr>scene := SCENE_GAME_OVER, round_start_timer := GAME_OVER_DELAY\<rparr>)"
      using linv_timers(4) [OF w'(1), where sc = SCENE_GAME_OVER and t' = GAME_OVER_DELAY] by simp
    then show ?thesis using True assms w'(2) unfolding w(3) w'_def [symmetric]
      by (simp add: playing_end_def sync_logic_to_game_state_def set_scene_def on_w_def frame_ok_def ginv_def Let_def scene_next_def)
  next
    case False
    then show ?thesis using assms w' unfolding w(3) w'_def [symmetric]
      by (auto simp: playing_end_def sync_logic_to_game_state_def frame_ok_def ginv_def Let_def scene_next_def)
  qed
qed

lemma menu_ok:
  assumes "ginv g" "g_scene g = SCENE_MENU"
  shows "\<exists>g'. process_menu_state g = Some g' \<and> frame_ok g g'"
  using start_game_ok [of "g\<lparr>inp := (inp g)\<lparr>action_pressed := False\<rparr>\<rparr>"] ginv_lengths [OF assms(1)] assms
  by (cases "action_pressed (inp g)")
    (auto simp: process_menu_state_def read_input_def input_is_action_pressed_def frame_ok_def scene_next_def)

lemma victory_ok:
  assumes "ginv g" "g_scene g = SCENE_VICTORY"
  shows "\<exists>g'. process_victory_state g = Some g' \<and> frame_ok g g'"
proof -
  let ?g = "g\<lparr>inp := (inp g)\<lparr>action_pressed := False\<rparr>\<rparr>"
  have sc: "ginv (set_scene s (?g\<lparr>inp := i\<rparr>))" if "s \<noteq> SCENE_ROUND_CLEAR" for s i
    by (rule ginv_set_scene) (use assms that in simp_all)
  have sc': "ginv (set_scene SCENE_CREDITS ?g)" by (rule ginv_set_scene) (use assms in simp_all)
  show ?thesis
    using start_game_ok [of ?g] ginv_lengths [OF assms(1)] assms sc sc'
    by (cases "action_pressed (inp g)")
      (auto simp: process_victory_state_def read_input_def input_is_action_pressed_def frame_ok_def scene_next_def
        set_scene_def on_w_def)
qed

lemma game_over_ok:
  assumes "ginv g" "g_scene g = SCENE_GAME_OVER"
  shows "\<exists>g'. process_game_over_state g = Some g' \<and> frame_ok g g'"
proof -
  let ?h = "timer_down g"
  have h: "ginv ?h" "g_scene ?h = SCENE_GAME_OVER" "inp ?h = inp g"
    unfolding timer_down_def using ginv_timer [OF assms(1)] assms(2) by (simp_all add: on_w_def)
  then show ?thesis
    using start_game_ok [of "?h\<lparr>inp := (inp g)\<lparr>action_pressed := False\<rparr>\<rparr>"] ginv_lengths [OF h(1)] assms
    by (cases "action_pressed (inp g)")
      (auto simp: process_game_over_state_def Let_def read_input_def input_is_action_pressed_def frame_ok_def scene_next_def)
qed

lemma level_clear_ok:
  assumes "ginv g" "g_scene g = SCENE_ROUND_CLEAR"
  shows "\<exists>g'. process_level_clear_state g = Some g' \<and> frame_ok g g'"
proof -
  let ?h = "timer_down g"
  let ?k = "on_w (on_gl (\<lambda>s. s\<lparr>round_nr := round_nr s + 1\<rparr>)) (?h\<lparr>g_level := g_level ?h + 1\<rparr>)"
  have h: "ginv ?h" "g_scene ?h = SCENE_ROUND_CLEAR"
    unfolding timer_down_def using ginv_timer [OF assms(1)] assms(2) by (simp_all add: on_w_def)
  then have "\<exists>g'. game_new_level ?k = Some (0, g') \<and> ginv g' \<and> g_scene g' = SCENE_ROUND_START \<and> inp g' = inp ?k \<and> g_running g' = g_running ?k"
    by (intro new_level_ok) (auto simp: ginv_def Let_def on_w_def linv_def lbase_def sizes_ok_def)
  then show ?thesis using h assms
    by (auto simp: process_level_clear_state_def Let_def frame_ok_def scene_next_def on_w_def ginv_def)
qed

lemma other_ok:
  assumes "ginv g"
  shows "g_scene g = SCENE_PAUSED \<Longrightarrow> frame_ok g (process_paused_state g)"
    "g_scene g = SCENE_CREDITS \<Longrightarrow> frame_ok g (process_credits_state g)"
    "g_scene g = SCENE_ROUND_START \<Longrightarrow> frame_ok g (process_round_start g)"
proof -
  have sc: "ginv (set_scene s (g\<lparr>inp := i\<rparr>))" if "s \<noteq> SCENE_ROUND_CLEAR" "g_scene g \<noteq> SCENE_GAME_OVER" for s i
    by (rule ginv_set_scene) (use assms that in simp_all)
  have scene: "g_scene (set_scene s h) = s" for s h by (simp add: set_scene_def on_w_def)
  show "g_scene g = SCENE_PAUSED \<Longrightarrow> frame_ok g (process_paused_state g)"
    "g_scene g = SCENE_CREDITS \<Longrightarrow> frame_ok g (process_credits_state g)"
    using sc assms
    by (auto simp: process_paused_state_def process_credits_state_def read_input_def input_is_pause_pressed_def frame_ok_def
        scene_next_def scene)
  let ?h = "timer_down g"
  assume rs: "g_scene g = SCENE_ROUND_START"
  have h: "ginv ?h" "g_scene ?h = SCENE_ROUND_START"
    unfolding timer_down_def using ginv_timer [OF assms] rs by (simp_all add: on_w_def)
  then have "ginv (set_scene SCENE_PLAYING ?h)" by (intro ginv_set_scene) simp_all
  then show "frame_ok g (process_round_start g)" using h rs
    by (simp add: process_round_start_def Let_def frame_ok_def scene_next_def scene)
qed

lemma process_scene_ok:
  assumes "ginv g"
  shows "\<exists>g'. process_scene now g = Some g' \<and> frame_ok g g'"
  using playing_ok [OF assms] menu_ok [OF assms] victory_ok [OF assms] game_over_ok [OF assms] level_clear_ok [OF assms]
    other_ok [OF assms]
  by (cases "g_scene g") (simp_all add: process_scene_def)

lemma game_frame_ok:
  assumes "ginv g"
  shows "\<exists>g'. game_frame now g = Some g' \<and> frame_ok g g'"
proof -
  let ?g = "g\<lparr>inp := input_update (input_new_frame (inp g))\<rparr>"
  obtain g' where g': "process_scene now ?g = Some g'" "frame_ok ?g g'" using process_scene_ok [of ?g now] assms by auto
  have "frame_ok g (?g\<lparr>g_running := False\<rparr>)" if "g_scene g = SCENE_MENU" using assms that by (simp add: frame_ok_def scene_next_def)
  moreover have "frame_ok g (g'\<lparr>g_frame_ready := True, g_ticks_elapsed := t\<rparr>)" for t
    using g'(2) by (simp add: frame_ok_def)
  ultimately show ?thesis using g'(1) by (simp add: game_frame_def Let_def)
qed

lemma game_run_inv: "game_run g \<Longrightarrow> ginv g"
proof (induction rule: game_run.induct)
  case (start g now)
  have "linv (gl (logic_init (gw g)))" using lbase_init start by simp
  moreover have "scene (gl (logic_init w)) = SCENE_MENU \<and> round_nr (gl (logic_init w)) = 1 \<and> score (gl (logic_init w)) = 0 \<and>
    lives (gl (logic_init w)) = 5 \<and> enemy_count (gl (logic_init w)) = 0" for w
    by (simp add: logic_init_def Let_def fold_on_enemy fold_on_rock)
  ultimately show ?case by (simp add: game_init_def on_w_def ginv_def Let_def)
next
  case (frame g now g')
  then show ?case using game_frame_ok [of g now] by (auto simp: frame_ok_def)
qed simp_all

lemma wait_loop_returns:
  assumes "clock (i + n) - prev \<ge> TICKS_PER_FRAME" "\<And>j. j < n \<Longrightarrow> clock (i + j) - prev < TICKS_PER_FRAME"
  shows "wait_loop clock i prev = Some (clock (i + n))"
  using assms
proof (induction n arbitrary: i)
  case 0
  then show ?case by (subst wait_loop.simps) simp
next
  case (Suc n)
  have "wait_loop clock (i + 1) prev = Some (clock (i + 1 + n))"
    using Suc.prems(1) Suc.prems(2) [of "Suc j" for j] by (intro Suc.IH) simp_all
  moreover have "clock i - prev < 8" using Suc.prems(2) [of 0] by simp
  ultimately show ?case by (subst wait_loop.simps) simp
qed

section \<open>Loaded levels\<close>

lemma level_spawns:
  "list_all (\<lambda>sp. in_tunnels (data_get_level rnd) (spawn_x sp) (spawn_y sp) \<and> 1 \<le> spawn_x sp \<and> spawn_x sp \<le> 78 \<and>
     3 \<le> spawn_y sp \<and> spawn_y sp \<le> 22) (l_enemies (data_get_level rnd))"
  "1 \<le> player_start_x (data_get_level rnd) \<and> player_start_x (data_get_level rnd) \<le> 78 \<and> player_start_y (data_get_level rnd) = 2"
  using level_cases [of rnd]
  by (auto simp: level_defs in_tunnels_def on_tunnel_def between_def)

lemma bonuses_tile:
  "map_get_tile x y (data_place_bonuses rnd m) =
     (if map_is_valid_position x y \<and> (x, y) \<in> set (bonus_positions rnd) then TILE_BONUS else map_get_tile x y m)"
proof -
  have "map_get_tile x y (fold (\<lambda>(x, y). map_set_tile x y TILE_BONUS) ps m) =
     (if map_is_valid_position x y \<and> (x, y) \<in> set ps then TILE_BONUS else map_get_tile x y m)" for ps
    by (induction ps arbitrary: m) (auto split: if_splits)
  then show ?thesis by (simp add: data_place_bonuses_def)
qed

lemma loaded_open:
  assumes "dug P (map_init rnd m0) m" "1 \<le> x" "x \<le> 78" "y = 2 \<or> 3 \<le> y \<and> y \<le> 22 \<and> P x y"
  shows "map_is_walkable x y (data_place_bonuses rnd m)"
proof -
  have v: "map_is_valid_position x y" using assms by (auto simp: map_is_valid_position_def)
  have "map_get_tile x y m \<in> {TILE_EMPTY, TILE_SKY}" using assms v by (auto simp: dug_def map_init_tile IS_SKY_def)
  then show ?thesis using v by (auto simp: map_is_walkable_def bonuses_tile Let_def)
qed

text \<open>One update can cost two lives: the player who shares a cell with an enemy and a falling rock dies
  once for each.\<close>

lemma two_lives_at_once:
  "lives (gl falling_example) = 5 \<and> lives (gl (logic_update 0 falling_example)) = 3"
  by code_simp

section \<open>Properties\<close>

text \<open>Property C2 (game_run_safe). In every state the game can reach, with keys arriving at any
  time, the next frame ends and keeps the invariant: the player is on the map between the sky
  row and the border, enemies and rocks are on the map and within their arrays, the score is
  between 0 and 99999, the count of remaining enemies is the number of enemies in play, the
  round is between 1 and 5, the values shown agree with the game logic, and lives are left
  unless the game is over.\<close>

theorem game_run_safe:
  assumes "game_run g"
  shows "ginv g \<and> (\<exists>g'. game_frame now g = Some g' \<and> ginv g')"
  using game_run_inv [OF assms] game_frame_ok [of g now] by (auto simp: frame_ok_def)


text \<open>Property C38 (frame_wait_ends). The busy wait of \<open>wait_for_next_frame\<close> ends as soon as the clock
  reads eight ticks past the last frame, and records that reading; it does not end earlier.\<close>

theorem frame_wait_ends:
  assumes "clock n - g_last_frame_time g \<ge> TICKS_PER_FRAME" "\<And>j. j < n \<Longrightarrow> clock j - g_last_frame_time g < TICKS_PER_FRAME"
  shows "\<exists>g'. wait_for_next_frame clock g = Some g' \<and> g_last_frame_time g' = clock n \<and>
    g_frame_ticks g' = clock n - g_last_frame_time g \<and> g_frame_ticks g' \<ge> TICKS_PER_FRAME"
  using wait_loop_returns [of clock 0 n "g_last_frame_time g"] assms by (simp add: wait_for_next_frame_def)

text \<open>Property C14 (level_loads). Loading any round ends and leaves a level that can be played: the
  game invariant holds, every enemy of the table is in play and stands on an open cell, and so
  does the player, in the sky row.\<close>

theorem level_loads:
  assumes "lbase (gl w)" "1 \<le> rnd"
  shows "\<exists>w'. data_load_level rnd w = Some w' \<and> linv (gl w') \<and> round_nr (gl w') = rnd \<and>
    enemy_count (gl w') = int (length (l_enemies (data_get_level rnd))) \<and> enemies_remaining (gl w') = enemy_count (gl w') \<and>
    (\<forall>i < ecount w'. alive (enemies (gl w') ! i) \<and>
       map_is_walkable (pos_x (epos (enemies (gl w') ! i))) (pos_y (epos (enemies (gl w') ! i))) (gm w')) \<and>
    map_is_walkable (pos_x (ppos w')) (pos_y (ppos w')) (gm w') \<and> pos_y (ppos w') = ROW_SKY_END"
proof -
  define l where "l = data_get_level rnd"
  obtain w' m where w': "data_load_level rnd w = Some w'" "dug (in_tunnels l) (map_init rnd (gm w)) m" "loaded l rnd m w w'"
    using load_level [of w rnd] assms(1) by (auto simp: lbase_def l_def)
  have wf: "level_wf l" by (simp add: l_def level_wf)
  note sp = level_spawns [of rnd, folded l_def]
  have "map_is_walkable (spawn_x (l_enemies l ! i)) (spawn_y (l_enemies l ! i)) (gm w')" if "i < length (l_enemies l)" for i
  proof -
    have "in_tunnels l (spawn_x (l_enemies l ! i)) (spawn_y (l_enemies l ! i)) \<and> 1 \<le> spawn_x (l_enemies l ! i) \<and>
      spawn_x (l_enemies l ! i) \<le> 78 \<and> 3 \<le> spawn_y (l_enemies l ! i) \<and> spawn_y (l_enemies l ! i) \<le> 22"
      using sp(1) that by (auto simp: list_all_length)
    then show ?thesis using loaded_open [OF w'(2)] w'(3) by (simp add: loaded_def)
  qed
  moreover have "map_is_walkable (pos_x (ppos w')) (pos_y (ppos w')) (gm w') \<and> pos_y (ppos w') = 2"
    using loaded_open [OF w'(2), of "player_start_x l" 2] sp(2) w'(3) by (simp add: loaded_def logic_player_init_def)
  moreover have "enemy_count (gl w') = int (length (l_enemies l))" "enemies_remaining (gl w') = enemy_count (gl w')"
    "round_nr (gl w') = rnd" "\<And>i. i < length (l_enemies l) \<Longrightarrow> alive (enemies (gl w') ! i) \<and>
      epos (enemies (gl w') ! i) = mk_pos (spawn_x (l_enemies l ! i)) (spawn_y (l_enemies l ! i))"
    using w'(3) wf by (simp_all add: loaded_def level_wf_def)
  ultimately show ?thesis using w'(1) linv_loaded [OF assms w'(1)] by (auto simp: ecount_def l_def [symmetric])
qed


section \<open>Witnesses\<close>

definition game_example :: game where
  "game_example = \<lparr>gw = falling_example, inp = input_example, g_scene = SCENE_PLAYING, g_score = 0, g_level = 1, g_lives = 5,
     g_ticks_elapsed = 0, g_enemy_count = 1, g_frame_ready = False, g_running = False, g_last_frame_time = 0, g_frame_ticks = 0\<rparr>"

lemma example_lengths: "length (enemies (gl falling_example)) = 8" "length (rocks (gl falling_example)) = 10"
  by (simp_all add: falling_example_def)

lemma example_run: "game_run (game_init 5 game_example)"
  by (rule game_run.start) (simp_all add: game_example_def example_lengths)

theorem game_run_safe_witness:
  "ginv (game_init 5 game_example) \<and> (\<exists>g'. game_frame 13 (game_init 5 game_example) = Some g' \<and> ginv g')"
  by (rule game_run_safe) (rule example_run)


theorem frame_wait_ends_witness:
  "\<exists>g'. wait_for_next_frame (\<lambda>i. int i + 3) game_example = Some g' \<and> g_frame_ticks g' = 8"
  using frame_wait_ends [of "\<lambda>i. int i + 3" 5 game_example] by (auto simp: game_example_def)

theorem level_loads_witness:
  "\<exists>w'. data_load_level 3 falling_example = Some w' \<and> linv (gl w') \<and> enemy_count (gl w') = 3"
proof -
  have "lbase (gl falling_example)" by (simp add: lbase_def falling_example_def)
  then obtain w' where "data_load_level 3 falling_example = Some w'" "linv (gl w')"
    "enemy_count (gl w') = int (length (l_enemies (data_get_level 3)))"
    using level_loads [of falling_example 3] by auto
  moreover have "length (l_enemies (data_get_level 3)) = 3" by (simp add: data_get_level_def g_levels_def level3_def)
  ultimately show ?thesis by auto
qed


end
