(* ===== verification/Game_Screen.thy ===== *)
theory Game_Screen
  imports Game_Map
begin

text \<open>
  The drawing primitives of \<open>project/game_render.c\<close>: the two cell buffers, the conversion to the
  video format and the text output. The arrays of cells are functions of row and column, the
  video buffer is a list of bytes. A \<open>const char *\<close> is the list of characters before the
  terminator. \<open>writes\<close> records the buffers handed to \<open>write(10, \<dots>)\<close>, in order; the timers are
  those of \<open>game_ui.c\<close>.
\<close>

section \<open>Definitions\<close>

abbreviation (input) SCREEN_SIZE :: nat where "SCREEN_SIZE \<equiv> 4000"
abbreviation (input) STATUS_TOP_ROW :: int where "STATUS_TOP_ROW \<equiv> ROW_STATUS_TOP"
abbreviation (input) STATUS_BOTTOM_ROW :: int where "STATUS_BOTTOM_ROW \<equiv> ROW_STATUS_BOTTOM"

abbreviation (input) COLOR_BLACK :: u8 where "COLOR_BLACK \<equiv> 0"
abbreviation (input) COLOR_BLUE :: u8 where "COLOR_BLUE \<equiv> 1"
abbreviation (input) COLOR_GREEN :: u8 where "COLOR_GREEN \<equiv> 2"
abbreviation (input) COLOR_CYAN :: u8 where "COLOR_CYAN \<equiv> 3"
abbreviation (input) COLOR_RED :: u8 where "COLOR_RED \<equiv> 4"
abbreviation (input) COLOR_MAGENTA :: u8 where "COLOR_MAGENTA \<equiv> 5"
abbreviation (input) COLOR_BROWN :: u8 where "COLOR_BROWN \<equiv> 6"
abbreviation (input) COLOR_LIGHT_GRAY :: u8 where "COLOR_LIGHT_GRAY \<equiv> 7"
abbreviation (input) COLOR_DARK_GRAY :: u8 where "COLOR_DARK_GRAY \<equiv> 8"
abbreviation (input) COLOR_LIGHT_GREEN :: u8 where "COLOR_LIGHT_GREEN \<equiv> 10"
abbreviation (input) COLOR_LIGHT_CYAN :: u8 where "COLOR_LIGHT_CYAN \<equiv> 11"
abbreviation (input) COLOR_LIGHT_RED :: u8 where "COLOR_LIGHT_RED \<equiv> 12"
abbreviation (input) COLOR_LIGHT_MAGENTA :: u8 where "COLOR_LIGHT_MAGENTA \<equiv> 13"
abbreviation (input) COLOR_YELLOW :: u8 where "COLOR_YELLOW \<equiv> 14"
abbreviation (input) COLOR_WHITE :: u8 where "COLOR_WHITE \<equiv> 15"

record color =
  fg :: u8
  bg :: u8

record screen_cell =
  character :: char
  ccolor :: color

record screen_buffer =
  cells :: "int \<Rightarrow> int \<Rightarrow> screen_cell"
  dirty :: bool

record renderer =
  g_front_buffer :: screen_buffer
  g_back_buffer :: screen_buffer
  g_vga_buffer :: "u8 list"
  g_default_color :: color
  writes :: "u8 list list"
  g_score_flash_timer :: int
  g_life_lost_timer :: int

definition render_make_color :: "u8 \<Rightarrow> u8 \<Rightarrow> color" where
  "render_make_color f b = \<lparr>fg = f, bg = b\<rparr>"

definition render_is_valid_pos :: "int \<Rightarrow> int \<Rightarrow> bool" where
  "render_is_valid_pos x y \<longleftrightarrow> x \<ge> 0 \<and> x < SCREEN_WIDTH \<and> y \<ge> 0 \<and> y < SCREEN_HEIGHT"

definition render_get_layer_color :: "int \<Rightarrow> color" where
  "render_get_layer_color y =
     (if y = STATUS_TOP_ROW \<or> y = STATUS_BOTTOM_ROW then render_make_color COLOR_WHITE COLOR_BLACK
      else if y \<ge> ROW_SKY_START \<and> y \<le> ROW_SKY_END then render_make_color COLOR_WHITE COLOR_BLACK
      else if y \<ge> 3 \<and> y \<le> 7 then render_make_color COLOR_WHITE COLOR_BROWN
      else if y \<ge> 8 \<and> y \<le> 12 then render_make_color COLOR_WHITE COLOR_RED
      else if y \<ge> 13 \<and> y \<le> 17 then render_make_color COLOR_WHITE COLOR_MAGENTA
      else if y \<ge> 18 \<and> y \<le> 22 then render_make_color COLOR_WHITE COLOR_BLUE
      else if y = ROW_BORDER then render_make_color COLOR_DARK_GRAY COLOR_BLACK
      else render_make_color COLOR_WHITE COLOR_BLACK)"

definition put_cell :: "int \<Rightarrow> int \<Rightarrow> char \<Rightarrow> color \<Rightarrow> screen_buffer \<Rightarrow> screen_buffer" where
  "put_cell x y c col b = b\<lparr>cells := (cells b)(y := (cells b y)(x := \<lparr>character = c, ccolor = col\<rparr>))\<rparr>"

definition on_back :: "(screen_buffer \<Rightarrow> screen_buffer) \<Rightarrow> renderer \<Rightarrow> renderer" where
  "on_back f r = r\<lparr>g_back_buffer := f (g_back_buffer r)\<rparr>"

subsection \<open>Buffers\<close>

definition render_clear_buffer :: "screen_buffer \<Rightarrow> screen_buffer" where
  "render_clear_buffer b =
     (for_rows 0 (SCREEN_WIDTH - 1) 0 (SCREEN_HEIGHT - 1)
        (\<lambda>x y. put_cell x y CHR '' '' (render_get_layer_color y)) b)\<lparr>dirty := True\<rparr>"

definition render_clear :: "renderer \<Rightarrow> renderer" where
  "render_clear r = on_back render_clear_buffer r"

definition render_clear_black :: "renderer \<Rightarrow> renderer" where
  "render_clear_black r =
     on_back (\<lambda>b. (for_rows 0 (SCREEN_WIDTH - 1) 0 (SCREEN_HEIGHT - 1)
       (\<lambda>x y. put_cell x y CHR '' '' (render_make_color COLOR_WHITE COLOR_BLACK)) b)\<lparr>dirty := True\<rparr>) r"

definition render_set_cell :: "int \<Rightarrow> int \<Rightarrow> char \<Rightarrow> color \<Rightarrow> renderer \<Rightarrow> renderer" where
  "render_set_cell x y c col r =
     (if \<not> render_is_valid_pos x y then r else on_back (\<lambda>b. (put_cell x y c col b)\<lparr>dirty := True\<rparr>) r)"

definition render_get_cell :: "int \<Rightarrow> int \<Rightarrow> renderer \<Rightarrow> screen_cell option" where
  "render_get_cell x y r = (if \<not> render_is_valid_pos x y then None else Some (cells (g_back_buffer r) y x))"

definition render_put_char :: "int \<Rightarrow> int \<Rightarrow> char \<Rightarrow> renderer \<Rightarrow> renderer" where
  "render_put_char x y c r = render_set_cell x y c (g_default_color r) r"

fun put_string_loop :: "int \<Rightarrow> int \<Rightarrow> string \<Rightarrow> color \<Rightarrow> renderer \<Rightarrow> renderer" where
  "put_string_loop xp y [] col r = r"
| "put_string_loop xp y (c # str) col r =
     (if xp < SCREEN_WIDTH then put_string_loop (xp + 1) y str col (render_set_cell xp y c col r) else r)"

definition render_put_string_colored :: "int \<Rightarrow> int \<Rightarrow> string \<Rightarrow> color \<Rightarrow> renderer \<Rightarrow> renderer" where
  "render_put_string_colored x y str col r =
     (if \<not> render_is_valid_pos x y then r else put_string_loop x y str col r)"

definition render_put_string :: "int \<Rightarrow> int \<Rightarrow> string \<Rightarrow> renderer \<Rightarrow> renderer" where
  "render_put_string x y str r = render_put_string_colored x y str (g_default_color r) r"

definition render_set_default_color :: "color \<Rightarrow> renderer \<Rightarrow> renderer" where
  "render_set_default_color col r = r\<lparr>g_default_color := col\<rparr>"

subsection \<open>Lines and rectangles\<close>

definition render_fill_rect :: "int \<Rightarrow> int \<Rightarrow> int \<Rightarrow> int \<Rightarrow> char \<Rightarrow> color \<Rightarrow> renderer \<Rightarrow> renderer" where
  "render_fill_rect x y w h c col =
     for_rows x (min (x + w) SCREEN_WIDTH - 1) y (min (y + h) SCREEN_HEIGHT - 1)
       (\<lambda>cx cy r. if render_is_valid_pos cx cy then render_set_cell cx cy c col r else r)"

definition render_draw_horizontal_line :: "int \<Rightarrow> int \<Rightarrow> int \<Rightarrow> char \<Rightarrow> color \<Rightarrow> renderer \<Rightarrow> renderer" where
  "render_draw_horizontal_line x y len c col =
     fold (\<lambda>i r. if render_is_valid_pos (x + i) y then render_set_cell (x + i) y c col r else r)
       [0..min len (SCREEN_WIDTH - x) - 1]"

definition render_draw_vertical_line :: "int \<Rightarrow> int \<Rightarrow> int \<Rightarrow> char \<Rightarrow> color \<Rightarrow> renderer \<Rightarrow> renderer" where
  "render_draw_vertical_line x y len c col =
     fold (\<lambda>i r. if render_is_valid_pos x (y + i) then render_set_cell x (y + i) c col r else r)
       [0..min len (SCREEN_HEIGHT - y) - 1]"

subsection \<open>Presentation\<close>

definition render_cell_to_vga :: "u8 list \<Rightarrow> screen_cell \<Rightarrow> nat \<Rightarrow> u8 list" where
  "render_cell_to_vga v c offset =
     v[offset := of_char (character c), offset + 1 := push_bit 4 (bg (ccolor c)) OR (fg (ccolor c) AND 0x0F)]"

definition clear_vga :: "u8 list \<Rightarrow> u8 list" where
  "clear_vga v = fold (\<lambda>i v. v[2 * i := of_char CHR '' '', 2 * i + 1 := 0x07]) [0..<SCREEN_SIZE div 2] v"

definition write_vga :: "renderer \<Rightarrow> renderer" where
  "write_vga r = r\<lparr>writes := writes r @ [g_vga_buffer r]\<rparr>"

definition copy_cells :: "screen_buffer \<Rightarrow> screen_buffer \<Rightarrow> screen_buffer" where
  "copy_cells src dst =
     for_rows 0 (SCREEN_WIDTH - 1) 0 (SCREEN_HEIGHT - 1)
       (\<lambda>x y b. b\<lparr>cells := (cells b)(y := (cells b y)(x := cells src y x))\<rparr>) dst"

definition render_init :: "renderer \<Rightarrow> renderer" where
  "render_init r =
     write_vga (r\<lparr>g_default_color := render_make_color COLOR_WHITE COLOR_BLACK,
       g_front_buffer := render_clear_buffer (g_front_buffer r),
       g_back_buffer := render_clear_buffer (g_back_buffer r),
       g_vga_buffer := clear_vga (g_vga_buffer r)\<rparr>)"

definition render_cleanup :: "renderer \<Rightarrow> renderer" where
  "render_cleanup r = write_vga (r\<lparr>g_vga_buffer := clear_vga (g_vga_buffer r)\<rparr>)"

definition render_swap_buffers :: "renderer \<Rightarrow> renderer" where
  "render_swap_buffers r = r\<lparr>g_front_buffer := (copy_cells (g_back_buffer r) (g_front_buffer r))\<lparr>dirty := False\<rparr>\<rparr>"

definition cells_to_vga :: "screen_buffer \<Rightarrow> u8 list \<Rightarrow> u8 list" where
  "cells_to_vga b v =
     snd (for_rows 0 (SCREEN_WIDTH - 1) 0 (SCREEN_HEIGHT - 1)
       (\<lambda>x y (offset, v). (offset + 2, render_cell_to_vga v (cells b y x) offset)) (0, v))"

definition render_present_buffer :: "renderer \<Rightarrow> renderer" where
  "render_present_buffer r =
     (let r = r\<lparr>g_vga_buffer := cells_to_vga (g_back_buffer r) (g_vga_buffer r)\<rparr>;
          r = write_vga r;
          r = r\<lparr>g_front_buffer := copy_cells (g_back_buffer r) (g_front_buffer r)\<rparr>
      in on_back (\<lambda>b. b\<lparr>dirty := False\<rparr>) r)"

definition render_present :: "renderer \<Rightarrow> renderer" where
  "render_present r = render_present_buffer r"

definition render_present_full :: "renderer \<Rightarrow> renderer" where
  "render_present_full r = render_present_buffer r"

subsection \<open>Numbers\<close>

text \<open>A store of \<open>'0' + n\<close> into a \<open>char\<close>.\<close>

definition digit_char :: "int \<Rightarrow> char" where
  "digit_char n = char_of (nat ((48 + n) mod 256))"

text \<open>The loop from the last digit to the first; the characters stored so far are the last
  argument.\<close>

primrec number_loop :: "nat \<Rightarrow> int \<Rightarrow> char \<Rightarrow> string \<Rightarrow> string" where
  "number_loop 0 n pad acc = acc"
| "number_loop (Suc i) n pad acc =
     (if n > 0 then number_loop i (n div 10) pad (digit_char (n mod 10) # acc) else number_loop i n pad (pad # acc))"

text \<open>\<open>None\<close> is a store outside of the sixteen bytes of \<open>buffer\<close>: before it, when a negative number
  fills the whole field, or behind it.\<close>

definition put_minus :: "nat \<Rightarrow> string \<Rightarrow> string option" where
  "put_minus digits buf =
     (case find (\<lambda>i. buf ! i \<noteq> CHR '' '') [0..<digits - 1] of
        None \<Rightarrow> Some buf
      | Some i \<Rightarrow> if i = 0 then None else Some (buf[i - 1 := CHR ''-'']))"

definition render_number_padded_char :: "int \<Rightarrow> int \<Rightarrow> int \<Rightarrow> nat \<Rightarrow> char \<Rightarrow> renderer \<Rightarrow> renderer option" where
  "render_number_padded_char x y number digits pad r =
     (if digits > 15 then None
      else
        let buf = number_loop digits \<bar>number\<bar> pad [] in
        map_option (\<lambda>buf. render_put_string x y buf r)
          (if number < 0 \<and> pad = CHR '' '' then put_minus digits buf else Some buf))"

definition render_number :: "int \<Rightarrow> int \<Rightarrow> int \<Rightarrow> nat \<Rightarrow> renderer \<Rightarrow> renderer option" where
  "render_number x y number digits r = render_number_padded_char x y number digits CHR '' '' r"

definition render_number_padded :: "int \<Rightarrow> int \<Rightarrow> int \<Rightarrow> nat \<Rightarrow> renderer \<Rightarrow> renderer option" where
  "render_number_padded x y number digits r = render_number_padded_char x y number digits CHR ''0'' r"

section \<open>What is drawn\<close>

definition shown :: "int \<Rightarrow> int \<Rightarrow> renderer \<Rightarrow> screen_cell" where
  "shown x y r = cells (g_back_buffer r) y x"

definition mk_cell :: "char \<Rightarrow> color \<Rightarrow> screen_cell" where
  "mk_cell c col = \<lparr>character = c, ccolor = col\<rparr>"

lemma mk_cell_simps [simp]: "character (mk_cell c col) = c" "ccolor (mk_cell c col) = col"
  by (simp_all add: mk_cell_def)

lemma color_simps [simp]: "fg (render_make_color f b) = f" "bg (render_make_color f b) = b"
  by (simp_all add: render_make_color_def)

lemma shown_on_back [simp]: "shown x y (r\<lparr>g_vga_buffer := v\<rparr>) = shown x y r" "shown x y (r\<lparr>writes := ws\<rparr>) = shown x y r"
  "shown x y (r\<lparr>g_front_buffer := b\<rparr>) = shown x y r" "shown x y (r\<lparr>g_score_flash_timer := t\<rparr>) = shown x y r"
  by (simp_all add: shown_def)

lemma shown_set_cell [simp]:
  "shown a b (render_set_cell x y c col r) =
     (if render_is_valid_pos a b \<and> a = x \<and> b = y then mk_cell c col else shown a b r)"
  by (auto simp: shown_def render_set_cell_def on_back_def put_cell_def mk_cell_def)

lemma mk_cell_eta [simp]: "mk_cell (character cl) (ccolor cl) = cl" for cl :: screen_cell
  by (cases cl) (simp add: mk_cell_def)

interpretation screen: grid render_is_valid_pos shown "\<lambda>x y cl. render_set_cell x y (character cl) (ccolor cl)"
  by unfold_locales auto

lemma shown_fill_rect [simp]:
  "shown a b (render_fill_rect x y w h c col r) =
     (if render_is_valid_pos a b \<and> x \<le> a \<and> a < x + w \<and> y \<le> b \<and> b < y + h then mk_cell c col else shown a b r)"
  unfolding render_fill_rect_def screen.get_rect [where v = "\<lambda>_ _. mk_cell c col", unfolded mk_cell_simps]
  by (rule if_cong) (auto simp: render_is_valid_pos_def)

lemma shown_horizontal_line [simp]:
  "shown a b (render_draw_horizontal_line x y len c col r) =
     (if render_is_valid_pos a b \<and> b = y \<and> x \<le> a \<and> a < x + len then mk_cell c col else shown a b r)"
proof -
  have "(\<exists>i\<in>set [0..min len (80 - x) - 1]. a = x + i) \<longleftrightarrow> x \<le> a \<and> a < x + len" if "render_is_valid_pos a b"
    using that by (auto simp: render_is_valid_pos_def intro: bexI [of _ "a - x"])
  then show ?thesis unfolding render_draw_horizontal_line_def
    screen.get_line [of a b "\<lambda>i. x + i" "\<lambda>_. y" "mk_cell c col", unfolded mk_cell_simps] by auto
qed

lemma shown_vertical_line [simp]:
  "shown a b (render_draw_vertical_line x y len c col r) =
     (if render_is_valid_pos a b \<and> a = x \<and> y \<le> b \<and> b < y + len then mk_cell c col else shown a b r)"
proof -
  have "(\<exists>i\<in>set [0..min len (25 - y) - 1]. b = y + i) \<longleftrightarrow> y \<le> b \<and> b < y + len" if "render_is_valid_pos a b"
    using that by (auto simp: render_is_valid_pos_def intro: bexI [of _ "b - y"])
  then show ?thesis unfolding render_draw_vertical_line_def
    screen.get_line [of a b "\<lambda>_. x" "\<lambda>i. y + i" "mk_cell c col", unfolded mk_cell_simps] by auto
qed

lemma shown_put_string_loop:
  assumes "0 \<le> xp" "0 \<le> y" "y < SCREEN_HEIGHT"
  shows "shown a b (put_string_loop xp y str col r) =
     (if b = y \<and> xp \<le> a \<and> a < xp + int (length str) \<and> a < SCREEN_WIDTH then mk_cell (str ! nat (a - xp)) col else shown a b r)"
  using assms(1)
proof (induction str arbitrary: xp r)
  case (Cons c str)
  have "nat (a - xp) = Suc (nat (a - (xp + 1)))" if "xp < a" using that by simp
  then show ?case using Cons assms(2,3) by (auto simp: render_is_valid_pos_def)
qed auto

lemma shown_put_string [simp]:
  "shown a b (render_put_string_colored x y str col r) =
     (if render_is_valid_pos x y \<and> b = y \<and> x \<le> a \<and> a < x + int (length str) \<and> a < SCREEN_WIDTH
      then mk_cell (str ! nat (a - x)) col else shown a b r)"
  using shown_put_string_loop [of x y a b str col r]
  by (auto simp: render_put_string_colored_def render_is_valid_pos_def)

lemma cells_fill:
  "cells (for_rows 0 79 0 24 (\<lambda>x y. put_cell x y c (col y)) b) y x =
     (if render_is_valid_pos x y then mk_cell c (col y) else cells b y x)"
proof -
  have "cells (for_rows 0 79 0 24 (\<lambda>x y. put_cell x y c (col y)) b) y x =
     (if 0 \<le> x \<and> x \<le> 79 \<and> 0 \<le> y \<and> y \<le> 24 then mk_cell c (col y) else cells b y x)"
    by (rule for_rows_cells [where obs = "\<lambda>x y b. cells b y x" and g = "\<lambda>_ y _. mk_cell c (col y)"])
      (simp add: put_cell_def mk_cell_def)
  then show ?thesis by (simp add: render_is_valid_pos_def)
qed

lemma shown_clear [simp]:
  "shown x y (render_clear r) = (if render_is_valid_pos x y then mk_cell CHR '' '' (render_get_layer_color y) else shown x y r)"
  "shown x y (render_clear_black r) =
     (if render_is_valid_pos x y then mk_cell CHR '' '' (render_make_color COLOR_WHITE COLOR_BLACK) else shown x y r)"
  unfolding render_clear_def render_clear_black_def render_clear_buffer_def shown_def on_back_def
  by (simp_all add: cells_fill)

lemma cells_copy: "cells (copy_cells src dst) y x = (if render_is_valid_pos x y then cells src y x else cells dst y x)"
proof -
  have "cells (copy_cells src dst) y x =
     (if 0 \<le> x \<and> x \<le> SCREEN_WIDTH - 1 \<and> 0 \<le> y \<and> y \<le> SCREEN_HEIGHT - 1 then cells src y x else cells dst y x)"
    unfolding copy_cells_def
    by (rule for_rows_cells [where obs = "\<lambda>x y b. cells b y x" and g = "\<lambda>x y _. cells src y x"]) simp
  then show ?thesis by (simp add: render_is_valid_pos_def)
qed

text \<open>Drawing changes nothing but the back buffer.\<close>

definition undrawn :: "renderer \<Rightarrow> screen_buffer \<times> u8 list \<times> color \<times> u8 list list" where
  "undrawn r = (g_front_buffer r, g_vga_buffer r, g_default_color r, writes r)"

lemma undrawn_on_back [simp]: "undrawn (on_back f r) = undrawn r"
  by (simp add: undrawn_def on_back_def)

lemma undrawn_set_cell [simp]: "undrawn (render_set_cell x y c col r) = undrawn r"
  by (simp add: render_set_cell_def)

lemma undrawn_put_string [simp]: "undrawn (render_put_string_colored x y str col r) = undrawn r"
proof -
  have "undrawn (put_string_loop x y str col r) = undrawn r" for x r by (induction str arbitrary: x r) auto
  then show ?thesis by (simp add: render_put_string_colored_def)
qed

lemma undrawn_shapes [simp]:
  "undrawn (render_fill_rect x y w h c col r) = undrawn r"
  "undrawn (render_draw_horizontal_line x y len c col r) = undrawn r"
  "undrawn (render_draw_vertical_line x y len c col r) = undrawn r"
  "undrawn (render_clear r) = undrawn r" "undrawn (render_clear_black r) = undrawn r"
proof -
  show "undrawn (render_fill_rect x y w h c col r) = undrawn r"
    unfolding render_fill_rect_def by (rule for_rows_keeps) simp
  show "undrawn (render_draw_horizontal_line x y len c col r) = undrawn r"
    unfolding render_draw_horizontal_line_def by (rule fold_keeps) simp
  show "undrawn (render_draw_vertical_line x y len c col r) = undrawn r"
    unfolding render_draw_vertical_line_def by (rule fold_keeps) simp
qed (simp_all add: render_clear_def render_clear_black_def)

section \<open>The video format\<close>

lemma for_rows_product:
  "for_rows x1 x2 y1 y2 f s = fold (\<lambda>(y, x). f x y) (List.product [y1..y2] [x1..x2]) s"
proof -
  have "fold (\<lambda>y. fold (\<lambda>x. f x y) xs) ys s = fold (\<lambda>(y, x). f x y) (List.product ys xs) s" for xs ys
    by (induction ys arbitrary: s) (simp_all add: fold_map comp_def)
  then show ?thesis by (simp add: for_rows_def)
qed

lemma vga_fold:
  assumes "fold (\<lambda>p (n, v). (n + 2, render_cell_to_vga v (f p) n)) ps (n, v) = (n', v')" "n + 2 * length ps \<le> length v"
  shows "length v' = length v \<and> (\<forall>i < n. v' ! i = v ! i) \<and>
    (\<forall>j < length ps. v' ! (n + 2 * j) = of_char (character (f (ps ! j))) \<and>
       v' ! (n + 2 * j + 1) = push_bit 4 (bg (ccolor (f (ps ! j)))) OR (fg (ccolor (f (ps ! j))) AND 0x0F))"
  using assms
proof (induction ps arbitrary: n v)
  case (Cons p ps)
  define w where "w = render_cell_to_vga v (f p) n"
  have w: "length w = length v" "\<And>i. i < n \<Longrightarrow> w ! i = v ! i" "w ! n = of_char (character (f p))"
    "w ! (n + 1) = push_bit 4 (bg (ccolor (f p))) OR (fg (ccolor (f p)) AND 0x0F)"
    using Cons.prems(2) by (simp_all add: w_def render_cell_to_vga_def)
  have IH: "length v' = length w \<and> (\<forall>i < n + 2. v' ! i = w ! i) \<and>
    (\<forall>j < length ps. v' ! (n + 2 + 2 * j) = of_char (character (f (ps ! j))) \<and>
       v' ! (n + 2 + 2 * j + 1) = push_bit 4 (bg (ccolor (f (ps ! j)))) OR (fg (ccolor (f (ps ! j))) AND 0x0F))"
    by (rule Cons.IH) (use Cons.prems w(1) in \<open>simp_all add: w_def\<close>)
  show ?case
  proof (intro conjI allI impI)
    fix j assume "j < length (p # ps)"
    then show "v' ! (n + 2 * j) = of_char (character (f ((p # ps) ! j)))"
      "v' ! (n + 2 * j + 1) = push_bit 4 (bg (ccolor (f ((p # ps) ! j)))) OR (fg (ccolor (f ((p # ps) ! j))) AND 0x0F)"
      using IH w by (cases j; simp)+
  qed (use IH w in auto)
qed simp

lemma cells_to_vga_nth:
  assumes "length v = SCREEN_SIZE"
  shows "length (cells_to_vga b v) = SCREEN_SIZE"
    "j < 2000 \<Longrightarrow> cells_to_vga b v ! (2 * j) = of_char (character (cells b (int (j div 80)) (int (j mod 80))))"
    "j < 2000 \<Longrightarrow> cells_to_vga b v ! (2 * j + 1) =
       (let col = ccolor (cells b (int (j div 80)) (int (j mod 80))) in push_bit 4 (bg col) OR (fg col AND 0x0F))"
proof -
  define xs ys where "xs = [0..79 :: int]" and "ys = [0..24 :: int]"
  have up: "[0..n] ! i = int i" if "int i \<le> n" for n i using nth_upto [of 0 i n] that by simp
  have xs: "length xs = 80" "\<And>i. i < 80 \<Longrightarrow> xs ! i = int i" and ys: "length ys = 25" "\<And>i. i < 25 \<Longrightarrow> ys ! i = int i"
    unfolding xs_def ys_def length_upto by (simp, rule up, simp, simp, rule up, simp)
  let ?ps = "List.product ys xs" and ?f = "\<lambda>(y, x). cells b y x"
  have len: "length ?ps = 2000" by (simp add: xs ys)
  have nth: "?f (?ps ! j) = cells b (int (j div 80)) (int (j mod 80))" if "j < 2000"
  proof -
    have "?ps ! j = (ys ! (j div 80), xs ! (j mod 80))" using product_nth [of j ys xs] that by (simp add: xs ys)
    moreover have "j div 80 < 25" "j mod 80 < 80" using that by auto
    ultimately show ?thesis by (simp add: xs ys)
  qed
  obtain n v' where f: "fold (\<lambda>p (n, v). (n + 2, render_cell_to_vga v (?f p) n)) ?ps (0, v) = (n, v')" by fastforce
  have "(\<lambda>(y, x). case_prod (\<lambda>n v. (n + 2, render_cell_to_vga v (cells b y x) n))) =
      (\<lambda>p (n, v). (n + 2, render_cell_to_vga v (?f p) n))" by (auto simp: fun_eq_iff)
  then have v': "cells_to_vga b v = v'" using f by (simp add: cells_to_vga_def for_rows_product xs_def [symmetric] ys_def [symmetric])
  have "0 + 2 * length ?ps \<le> length v" using len assms by linarith
  note V = vga_fold [OF f this, unfolded len add_0]
  show "length (cells_to_vga b v) = SCREEN_SIZE" using V assms v' by simp
  show "cells_to_vga b v ! (2 * j) = of_char (character (cells b (int (j div 80)) (int (j mod 80))))" if "j < 2000"
    using V v' that nth [OF that] by auto
  show "cells_to_vga b v ! (2 * j + 1) =
       (let col = ccolor (cells b (int (j div 80)) (int (j mod 80))) in push_bit 4 (bg col) OR (fg col AND 0x0F))" if "j < 2000"
    using V v' that nth [OF that] by (auto simp: Let_def)
qed

lemma clear_vga_nth:
  assumes "length v = SCREEN_SIZE"
  shows "length (clear_vga v) = SCREEN_SIZE" "j < 2000 \<Longrightarrow> clear_vga v ! (2 * j + 1) = 0x07"
proof -
  let ?f = "\<lambda>i (v :: u8 list). v[2 * i := of_char CHR '' '', 2 * i + 1 := 0x07]"
  have "length (fold ?f [0..<n] v) = length v \<and> (\<forall>j < n. fold ?f [0..<n] v ! (2 * j + 1) = 0x07)" if "2 * n \<le> length v" for n
    using that by (induction n) (auto simp: nth_list_update less_Suc_eq)
  from this [of 2000] show "length (clear_vga v) = SCREEN_SIZE" "j < 2000 \<Longrightarrow> clear_vga v ! (2 * j + 1) = 0x07"
    using assms by (simp_all add: clear_vga_def)
qed

section \<open>Well-formed screens\<close>

text \<open>A foreground has four bits, a background three: the eighth bit of an attribute makes the cell
  blink.\<close>

named_theorems draw_intros "drawing keeps the renderer well formed"

definition palette :: "color \<Rightarrow> bool" where
  "palette col \<longleftrightarrow> fg col < 16 \<and> bg col < 8"

definition buffer_ok :: "screen_buffer \<Rightarrow> bool" where
  "buffer_ok b \<longleftrightarrow> (\<forall>x y. render_is_valid_pos x y \<longrightarrow> palette (ccolor (cells b y x)))"

definition renderer_ok :: "renderer \<Rightarrow> bool" where
  "renderer_ok r \<longleftrightarrow> buffer_ok (g_front_buffer r) \<and> buffer_ok (g_back_buffer r) \<and> palette (g_default_color r) \<and>
     length (g_vga_buffer r) = SCREEN_SIZE"

lemma palette_color [simp]: "palette (render_make_color f b) \<longleftrightarrow> f < 16 \<and> b < 8"
  by (simp add: palette_def)

lemma palette_layer [simp]: "palette (render_get_layer_color y)" "bg (render_get_layer_color y) < 8"
  by (simp_all add: render_get_layer_color_def)

lemma renderer_okD: "renderer_ok r \<Longrightarrow> render_is_valid_pos x y \<Longrightarrow> palette (ccolor (shown x y r))"
  by (simp add: renderer_ok_def buffer_ok_def shown_def)

lemma drawn_ok:
  assumes "undrawn r' = undrawn r" "renderer_ok r"
    "\<And>x y. render_is_valid_pos x y \<Longrightarrow> palette (ccolor (shown x y r)) \<Longrightarrow> palette (ccolor (shown x y r'))"
  shows "renderer_ok r'"
  using assms renderer_okD [OF assms(2)] by (auto simp: renderer_ok_def buffer_ok_def undrawn_def shown_def)

lemma drawing_ok [draw_intros]:
  assumes "renderer_ok r" "palette col"
  shows "renderer_ok (render_set_cell x y c col r)" "renderer_ok (render_put_string_colored x y str col r)"
    "renderer_ok (render_fill_rect x y w h c col r)" "renderer_ok (render_draw_horizontal_line x y len c col r)"
    "renderer_ok (render_draw_vertical_line x y len c col r)"
  by (rule drawn_ok [OF _ assms(1)]; simp add: assms(2))+

lemma clearing_ok [draw_intros]:
  assumes "renderer_ok r"
  shows "renderer_ok (render_clear r)" "renderer_ok (render_clear_black r)"
  by (rule drawn_ok [OF _ assms]; simp)+

lemma fold_ok: "renderer_ok r \<Longrightarrow> (\<And>i r. renderer_ok r \<Longrightarrow> renderer_ok (f i r)) \<Longrightarrow> renderer_ok (fold f is r)"
  by (induction "is" arbitrary: r) simp_all

text \<open>What a presented frame holds.\<close>

definition vga_shows :: "u8 list \<Rightarrow> renderer \<Rightarrow> bool" where
  "vga_shows v r \<longleftrightarrow> length v = SCREEN_SIZE \<and> (\<forall>j < 2000. let cl = shown (int (j mod 80)) (int (j div 80)) r in
     v ! (2 * j) = of_char (character cl) \<and> v ! (2 * j + 1) = push_bit 4 (bg (ccolor cl)) OR (fg (ccolor cl) AND 0x0F))"

lemma render_present_shows:
  assumes "length (g_vga_buffer r) = SCREEN_SIZE"
  shows "vga_shows (g_vga_buffer (render_present r)) (render_present r)"
    "writes (render_present r) = writes r @ [g_vga_buffer (render_present r)]"
    "shown x y (render_present r) = shown x y r" "g_default_color (render_present r) = g_default_color r"
    "render_is_valid_pos x y \<Longrightarrow> cells (g_front_buffer (render_present r)) y x = shown x y r"
  using cells_to_vga_nth [OF assms, where b = "g_back_buffer r"]
  by (auto simp: render_present_def render_present_buffer_def write_vga_def on_back_def vga_shows_def shown_def cells_copy Let_def)

lemma present_ok [draw_intros]: "renderer_ok r \<Longrightarrow> renderer_ok (render_present r)"
  using render_present_shows [of r]
  by (auto simp: renderer_ok_def buffer_ok_def vga_shows_def shown_def [symmetric])

lemma small_word: "w < of_nat n \<Longrightarrow> n < 256 \<Longrightarrow> w \<in> set (map of_nat [0..<n])" for w :: u8
  by (auto simp: word_less_nat_alt unat_of_nat image_iff intro!: bexI [of _ "unat w"])

lemma attribute_bits:
  assumes "palette col"
  shows "(push_bit 4 (bg col) OR (fg col AND 0x0F)) AND 0x0F = fg col \<and>
    drop_bit 4 (push_bit 4 (bg col) OR (fg col AND 0x0F)) = bg col \<and> push_bit 4 (bg col) OR (fg col AND 0x0F) < 128"
proof -
  have "fg col \<in> set (map of_nat [0..<16])" "bg col \<in> set (map of_nat [0..<8])"
    using assms by (intro small_word; simp add: palette_def)+
  moreover have "\<forall>f \<in> set (map of_nat [0..<16]). \<forall>b \<in> set (map of_nat [0..<8]). (push_bit 4 b OR (f AND 0x0F)) AND 0x0F = f \<and>
    drop_bit 4 (push_bit 4 b OR (f AND 0x0F)) = b \<and> push_bit 4 b OR (f AND 0x0F) < (128 :: u8)"
    by code_simp
  ultimately show ?thesis by blast
qed

text \<open>A frame for the screen device: all cells, none of them blinking.\<close>

definition vga_ok :: "u8 list \<Rightarrow> bool" where
  "vga_ok v \<longleftrightarrow> length v = SCREEN_SIZE \<and> (\<forall>j < 2000. v ! (2 * j + 1) < 128)"

lemma vga_shows_ok: "vga_shows v r \<Longrightarrow> renderer_ok r \<Longrightarrow> vga_ok v"
proof -
  assume v: "vga_shows v r" and r: "renderer_ok r"
  have "v ! (2 * j + 1) < 128" if "j < 2000" for j
  proof -
    have "render_is_valid_pos (int (j mod 80)) (int (j div 80))" using that by (auto simp: render_is_valid_pos_def)
    then show ?thesis using v that attribute_bits [OF renderer_okD [OF r]] by (simp add: vga_shows_def Let_def)
  qed
  then show ?thesis using v by (simp add: vga_ok_def vga_shows_def)
qed

text \<open>Two defects of the number output that the game never meets: a negative number that fills its
  field stores the sign before the buffer, and zero is drawn as blanks.\<close>

lemma render_number_underflow: "render_number x y (-12345) 5 r = None"
proof -
  have "put_minus 5 (number_loop 5 12345 CHR '' '' []) = None" by code_simp
  then show ?thesis by (simp add: render_number_def render_number_padded_char_def)
qed

lemma render_number_zero: "render_number x y 0 d r = (if d > 15 then None else Some (render_put_string x y (replicate d CHR '' '') r))"
proof -
  have "number_loop d 0 c acc = replicate d c @ acc" for c acc
    by (induction d arbitrary: acc) (simp_all add: replicate_append_same [symmetric])
  then show ?thesis by (simp add: render_number_def render_number_padded_char_def)
qed

end
