(* ===== verification/Game_UI.thy ===== *)
theory Game_UI
  imports Game_Screen
begin

text \<open>
  \<open>project/game_ui.c\<close>: the status bars, the screens with text and the number formatting. Each
  routine draws into the back buffer of the renderer; a character array that is filled and then
  drawn is the list of its characters before the terminator.
\<close>

section \<open>Definitions\<close>

abbreviation (input) TICKS_PER_SECOND :: int where "TICKS_PER_SECOND \<equiv> ONE_SECOND"
abbreviation (input) LIFE_LOST_FLASH_TIME :: int where "LIFE_LOST_FLASH_TIME \<equiv> QUARTER_SECOND"
abbreviation (input) HUD_TIME_X :: int where "HUD_TIME_X \<equiv> 0"
abbreviation (input) HUD_LIVES_X :: int where "HUD_LIVES_X \<equiv> 0"
abbreviation (input) CHAR_HEART :: char where "CHAR_HEART \<equiv> CHR ''*''"
abbreviation (input) CHAR_BORDER_H :: char where "CHAR_BORDER_H \<equiv> CHR ''-''"
abbreviation (input) CHAR_BORDER_V :: char where "CHAR_BORDER_V \<equiv> CHR 0x7C"
abbreviation (input) CHAR_CORNER :: char where "CHAR_CORNER \<equiv> CHR ''+''"

definition ui_strlen :: "string \<Rightarrow> int" where
  "ui_strlen str = int (length str)"

primrec ui_number_loop :: "nat \<Rightarrow> int \<Rightarrow> bool \<Rightarrow> char \<Rightarrow> string \<Rightarrow> string" where
  "ui_number_loop 0 n has_digit pad acc = acc"
| "ui_number_loop (Suc i) n has_digit pad acc =
     (if n > 0 \<or> \<not> has_digit then ui_number_loop i (n div 10) True pad (digit_char (n mod 10) # acc)
      else ui_number_loop i n has_digit pad (pad # acc))"

definition ui_put_minus :: "nat \<Rightarrow> string \<Rightarrow> string" where
  "ui_put_minus digits buf =
     (case find (\<lambda>i. buf ! i \<noteq> CHR '' '') [0..<digits - 1] of
        None \<Rightarrow> buf
      | Some i \<Rightarrow> if i > 0 then buf[i - 1 := CHR ''-''] else buf[0 := CHR ''-''])"

definition ui_number_to_string :: "int \<Rightarrow> nat \<Rightarrow> char \<Rightarrow> string" where
  "ui_number_to_string number digits pad =
     (let buf = ui_number_loop digits \<bar>number\<bar> False pad []
      in if number < 0 \<and> pad = CHR '' '' then ui_put_minus digits buf else buf)"

subsection \<open>Status bars\<close>

definition time_string :: "int \<Rightarrow> string" where
  "time_string ticks =
     (let secs = cdiv ticks TICKS_PER_SECOND;
          millis = cdiv (cmod ticks TICKS_PER_SECOND * 1000) TICKS_PER_SECOND;
          secs = (if secs > 9999 then 9999 else secs)
      in [digit_char (cmod (cdiv secs 1000) 10), digit_char (cmod (cdiv secs 100) 10), digit_char (cmod (cdiv secs 10) 10),
          digit_char (cmod secs 10), CHR '':'',
          digit_char (cmod (cdiv millis 100) 10), digit_char (cmod (cdiv millis 10) 10), digit_char (cmod millis 10)])"

definition ui_draw_time :: "int \<Rightarrow> renderer \<Rightarrow> renderer" where
  "ui_draw_time ticks r =
     render_put_string_colored HUD_TIME_X STATUS_TOP_ROW (time_string ticks) (render_make_color COLOR_CYAN COLOR_BLACK) r"

definition ui_draw_fps :: "int \<Rightarrow> renderer \<Rightarrow> renderer" where
  "ui_draw_fps fps r =
     (let fps_str = ui_number_to_string fps 3 CHR '' '' @ '' FPS'';
          x = SCREEN_WIDTH - ui_strlen fps_str
      in render_put_string_colored x STATUS_TOP_ROW fps_str (render_make_color COLOR_YELLOW COLOR_BLACK) r)"

definition ui_draw_lives :: "int \<Rightarrow> renderer \<Rightarrow> renderer" where
  "ui_draw_lives n r =
     (let r = render_put_string_colored HUD_LIVES_X STATUS_BOTTOM_ROW ''LIVES: '' (render_make_color COLOR_WHITE COLOR_BLACK) r
      in fold (\<lambda>i. render_set_cell (HUD_LIVES_X + 7 + i) STATUS_BOTTOM_ROW CHAR_HEART (render_make_color COLOR_LIGHT_RED COLOR_BLACK))
           [0..min n 5 - 1] r)"

definition ui_draw_score :: "int \<Rightarrow> renderer \<Rightarrow> renderer" where
  "ui_draw_score n r =
     (let (score_color, r) =
            (if g_score_flash_timer r > 0
             then (render_make_color COLOR_WHITE COLOR_RED, r\<lparr>g_score_flash_timer := g_score_flash_timer r - 1\<rparr>)
             else (render_make_color COLOR_YELLOW COLOR_BLACK, r));
          score_text = ''SCORE: '' @ take 6 (ui_number_to_string n 5 CHR ''0'');
          x = cdiv (SCREEN_WIDTH - ui_strlen score_text) 2
      in render_put_string_colored x STATUS_BOTTOM_ROW score_text score_color r)"

definition ui_draw_round :: "int \<Rightarrow> renderer \<Rightarrow> renderer" where
  "ui_draw_round n r =
     (let round_digits = ui_number_to_string n 2 CHR '' '';
          j = (if round_digits ! 0 = CHR '' '' then 1 else 0);
          round_text = ''ROUND:  '' @ take 3 (drop j round_digits);
          x = SCREEN_WIDTH - ui_strlen round_text
      in render_put_string_colored x STATUS_BOTTOM_ROW round_text (render_make_color COLOR_CYAN COLOR_BLACK) r)"

definition ui_draw_enemies_left :: "int \<Rightarrow> renderer \<Rightarrow> renderer" where
  "ui_draw_enemies_left n r =
     (let n = (if n > 9 then 9 else n);
          n = (if n < 0 then 0 else n);
          enemy_text = ''ENEMIES LEFT: '' @ [digit_char n];
          x = SCREEN_WIDTH - 11 - 15
      in render_put_string_colored x STATUS_BOTTOM_ROW enemy_text (render_make_color COLOR_LIGHT_RED COLOR_BLACK) r)"

definition ui_draw_top_bar :: "int \<Rightarrow> int \<Rightarrow> renderer \<Rightarrow> renderer" where
  "ui_draw_top_bar time_ticks fps r =
     (let r = render_fill_rect 0 STATUS_TOP_ROW SCREEN_WIDTH 1 CHR '' '' (render_make_color COLOR_WHITE COLOR_BLACK) r;
          r = ui_draw_time time_ticks r
      in ui_draw_fps fps r)"

definition ui_draw_bottom_bar :: "int \<Rightarrow> int \<Rightarrow> int \<Rightarrow> renderer \<Rightarrow> renderer" where
  "ui_draw_bottom_bar n_lives n_score n_round r =
     (let r = render_fill_rect 0 STATUS_BOTTOM_ROW SCREEN_WIDTH 1 CHR '' '' (render_make_color COLOR_WHITE COLOR_BLACK) r;
          r = ui_draw_lives n_lives r;
          r = ui_draw_score n_score r
      in ui_draw_round n_round r)"

definition ui_draw_bottom_bar_extended :: "int \<Rightarrow> int \<Rightarrow> int \<Rightarrow> int \<Rightarrow> renderer \<Rightarrow> renderer" where
  "ui_draw_bottom_bar_extended n_lives n_score n_round enemies_left r =
     (let r = render_fill_rect 0 STATUS_BOTTOM_ROW SCREEN_WIDTH 1 CHR '' '' (render_make_color COLOR_WHITE COLOR_BLACK) r;
          r = ui_draw_lives n_lives r;
          r = ui_draw_score n_score r;
          r = ui_draw_enemies_left enemies_left r
      in ui_draw_round n_round r)"

definition ui_draw_hud :: "int \<Rightarrow> int \<Rightarrow> int \<Rightarrow> int \<Rightarrow> int \<Rightarrow> renderer \<Rightarrow> renderer" where
  "ui_draw_hud n_lives n_score n_round time_ticks fps r =
     ui_draw_bottom_bar n_lives n_score n_round (ui_draw_top_bar time_ticks fps r)"

definition ui_draw_hud_extended :: "int \<Rightarrow> int \<Rightarrow> int \<Rightarrow> int \<Rightarrow> int \<Rightarrow> int \<Rightarrow> renderer \<Rightarrow> renderer" where
  "ui_draw_hud_extended n_lives n_score n_round time_ticks fps enemies_left r =
     ui_draw_bottom_bar_extended n_lives n_score n_round enemies_left (ui_draw_top_bar time_ticks fps r)"

subsection \<open>Text and boxes\<close>

definition ui_draw_centered_text :: "int \<Rightarrow> string \<Rightarrow> color \<Rightarrow> renderer \<Rightarrow> renderer" where
  "ui_draw_centered_text y text col r =
     (let x = cdiv (SCREEN_WIDTH - ui_strlen text) 2;
          x = (if x < 0 then 0 else x)
      in render_put_string_colored x y text col r)"

definition ui_draw_border :: "int \<Rightarrow> int \<Rightarrow> int \<Rightarrow> int \<Rightarrow> color \<Rightarrow> renderer \<Rightarrow> renderer" where
  "ui_draw_border x y w h col r =
     (let r = render_draw_horizontal_line x y w CHAR_BORDER_H col r;
          r = render_draw_horizontal_line x (y + h - 1) w CHAR_BORDER_H col r;
          r = render_draw_vertical_line x y h CHAR_BORDER_V col r;
          r = render_draw_vertical_line (x + w - 1) y h CHAR_BORDER_V col r;
          r = render_set_cell x y CHAR_CORNER col r;
          r = render_set_cell (x + w - 1) y CHAR_CORNER col r;
          r = render_set_cell x (y + h - 1) CHAR_CORNER col r
      in render_set_cell (x + w - 1) (y + h - 1) CHAR_CORNER col r)"

definition ui_draw_message_box :: "string \<Rightarrow> string \<Rightarrow> renderer \<Rightarrow> renderer" where
  "ui_draw_message_box title message r =
     (let box_color = render_make_color COLOR_BLACK COLOR_WHITE;
          title_color = render_make_color COLOR_BLUE COLOR_WHITE;
          text_color = render_make_color COLOR_BLACK COLOR_WHITE;
          title_len = ui_strlen title;
          msg_len = ui_strlen message;
          box_width = (if title_len > msg_len then title_len else msg_len) + 4;
          box_x = cdiv (SCREEN_WIDTH - box_width) 2;
          box_y = 10;
          r = render_fill_rect box_x box_y box_width 5 CHR '' '' box_color r;
          r = ui_draw_border box_x box_y box_width 5 box_color r;
          title_x = box_x + cdiv (box_width - title_len) 2;
          msg_x = box_x + cdiv (box_width - msg_len) 2;
          r = render_put_string_colored title_x (box_y + 1) title title_color r
      in render_put_string_colored msg_x (box_y + 3) message text_color r)"

subsection \<open>Screens\<close>

definition ui_draw_menu_screen :: "renderer \<Rightarrow> renderer" where
  "ui_draw_menu_screen r =
     (let title_color = render_make_color COLOR_YELLOW COLOR_BLACK;
          text_color = render_make_color COLOR_WHITE COLOR_BLACK;
          highlight_color = render_make_color COLOR_LIGHT_GREEN COLOR_BLACK;
          r = ui_draw_centered_text 5 ''========================'' title_color r;
          r = ui_draw_centered_text 6 ''         DIG DUG        '' title_color r;
          r = ui_draw_centered_text 7 ''      ZeOS Edition      '' title_color r;
          r = ui_draw_centered_text 8 ''========================'' title_color r;
          r = ui_draw_centered_text 11 ''CONTROLS:'' text_color r;
          r = ui_draw_centered_text 13 ''W/A/S/D or Arrows - Move'' text_color r;
          r = ui_draw_centered_text 14 ''SPACE - Inflate enemies'' text_color r;
          r = ui_draw_centered_text 15 ''P - Pause game'' text_color r;
          r = ui_draw_centered_text 16 ''Q - Quit game'' text_color r;
          r = ui_draw_centered_text 18 ''OBJECTIVE:'' text_color r;
          r = ui_draw_centered_text 19 ''Eliminate all enemies'' text_color r;
          r = ui_draw_centered_text 20 ''Deeper = More points'' text_color r;
          r = ui_draw_centered_text 23 ''Press ENTER to start'' highlight_color r
      in ui_draw_centered_text 1 ''SOA Project 2025-2026'' (render_make_color COLOR_DARK_GRAY COLOR_BLACK) r)"

definition ui_draw_pause_screen :: "renderer \<Rightarrow> renderer" where
  "ui_draw_pause_screen r =
     (let box_color = render_make_color COLOR_WHITE COLOR_BLUE;
          title_color = render_make_color COLOR_YELLOW COLOR_BLUE;
          text_color = render_make_color COLOR_WHITE COLOR_BLACK;
          box_x = (SCREEN_WIDTH - 20) div 2; box_y = 10; box_w = 20; box_h = 5;
          r = render_fill_rect box_x box_y box_w box_h CHR '' '' box_color r;
          r = ui_draw_border box_x box_y box_w box_h box_color r;
          r = ui_draw_centered_text (box_y + 2) ''PAUSED'' title_color r
      in ui_draw_centered_text (box_y + box_h + 1) ''Press P to continue'' text_color r)"

definition ui_draw_game_over_screen :: "int \<Rightarrow> renderer \<Rightarrow> renderer" where
  "ui_draw_game_over_screen final_score r =
     (let title_color = render_make_color COLOR_LIGHT_RED COLOR_BLACK;
          text_color = render_make_color COLOR_WHITE COLOR_BLACK;
          score_color = render_make_color COLOR_YELLOW COLOR_BLACK;
          r = ui_draw_centered_text 7 ''========================'' title_color r;
          r = ui_draw_centered_text 8 ''      GAME  OVER        '' title_color r;
          r = ui_draw_centered_text 9 ''========================'' title_color r;
          r = ui_draw_centered_text 12 ''FINAL SCORE:'' text_color r;
          r = ui_draw_centered_text 14 (ui_number_to_string final_score 5 CHR ''0'') score_color r;
          r = ui_draw_centered_text 18 ''Press ENTER to restart'' text_color r
      in ui_draw_centered_text 19 ''Press Q to quit'' text_color r)"

definition ui_draw_level_clear_screen :: "int \<Rightarrow> int \<Rightarrow> renderer \<Rightarrow> renderer" where
  "ui_draw_level_clear_screen n_round n_score r =
     (let text_color = render_make_color COLOR_WHITE COLOR_BLACK;
          next_round = n_round + 1;
          msg = ''Preparing round '' @ (if next_round \<ge> 10 then [digit_char (cdiv next_round 10)] else [])
                @ [digit_char (cmod next_round 10)]
      in ui_draw_centered_text 12 msg text_color r)"

definition ui_draw_victory_screen :: "int \<Rightarrow> renderer \<Rightarrow> renderer" where
  "ui_draw_victory_screen final_score r =
     (let title_color = render_make_color COLOR_LIGHT_GREEN COLOR_BLACK;
          text_color = render_make_color COLOR_WHITE COLOR_BLACK;
          score_color = render_make_color COLOR_YELLOW COLOR_BLACK;
          subtitle_color = render_make_color COLOR_CYAN COLOR_BLACK;
          r = ui_draw_centered_text 5 ''========================'' title_color r;
          r = ui_draw_centered_text 6 ''       YOU WIN!         '' title_color r;
          r = ui_draw_centered_text 7 ''========================'' title_color r;
          r = ui_draw_centered_text 9 ''Finally, Baka Baka is defeated'' subtitle_color r;
          r = ui_draw_centered_text 12 ''TOTAL SCORE:'' text_color r;
          r = ui_draw_centered_text 14 (ui_number_to_string final_score 5 CHR ''0'') score_color r;
          r = ui_draw_centered_text 18 ''Press ENTER to play again'' text_color r;
          r = ui_draw_centered_text 19 ''Press C for credits'' text_color r
      in ui_draw_centered_text 20 ''Press ESC for main menu'' text_color r)"

definition ui_draw_credits_screen :: "renderer \<Rightarrow> renderer" where
  "ui_draw_credits_screen r =
     (let title_color = render_make_color COLOR_LIGHT_CYAN COLOR_BLACK;
          text_color = render_make_color COLOR_WHITE COLOR_BLACK;
          name_color = render_make_color COLOR_YELLOW COLOR_BLACK;
          r = ui_draw_centered_text 5 ''========================'' title_color r;
          r = ui_draw_centered_text 6 ''        CREDITS         '' title_color r;
          r = ui_draw_centered_text 7 ''========================'' title_color r;
          r = ui_draw_centered_text 10 ''Developed by:'' text_color r;
          r = ui_draw_centered_text 12 ''ERMIAS VALLS'' name_color r;
          r = ui_draw_centered_text 14 '' MARC DE RIALP'' name_color r;
          r = ui_draw_centered_text 17 ''SOA - FIB UPC'' text_color r;
          r = ui_draw_centered_text 18 ''2025-2026'' text_color r
      in ui_draw_centered_text 21 ''Press ESC to return'' text_color r)"

subsection \<open>Effects\<close>

definition ui_flash_score :: "int \<Rightarrow> renderer \<Rightarrow> renderer" where
  "ui_flash_score duration r = r\<lparr>g_score_flash_timer := duration\<rparr>"

definition ui_animate_life_lost :: "renderer \<Rightarrow> renderer" where
  "ui_animate_life_lost r = r\<lparr>g_life_lost_timer := LIFE_LOST_FLASH_TIME\<rparr>"

definition ui_clear_game_area :: "renderer \<Rightarrow> renderer" where
  "ui_clear_game_area =
     fold (\<lambda>y. render_fill_rect 0 y SCREEN_WIDTH 1 CHR '' '' (render_get_layer_color y)) [ROW_SKY_START..ROW_GROUND_END]"

section \<open>Lemmas\<close>

text \<open>A number that fits its field of zero-padded digits is drawn in decimal.\<close>

lemma digit_char_zero: "digit_char 0 = CHR ''0''"
  by code_simp

lemma ui_number_loop_zero_padded:
  "0 \<le> n \<Longrightarrow> n < 10 ^ i \<Longrightarrow>
   ui_number_loop i n h CHR ''0'' acc = map (\<lambda>k. digit_char (n div 10 ^ (i - 1 - k) mod 10)) [0..<i] @ acc"
proof (induction i arbitrary: n h acc)
  case (Suc i)
  have d: "n div 10 div 10 ^ (i - 1 - k) = n div 10 ^ (i - k)" if "k < i" for k
  proof -
    have "(10 :: int) * 10 ^ (i - 1 - k) = 10 ^ (i - k)" using that by (simp flip: power_Suc add: Suc_diff_Suc)
    then show ?thesis using zdiv_zmult2_eq [of "10 ^ (i - 1 - k)" n 10] by simp
  qed
  have IH: "ui_number_loop i (n div 10) True CHR ''0'' acc' = map (\<lambda>k. digit_char (n div 10 ^ (i - k) mod 10)) [0..<i] @ acc'" for acc'
    using Suc.IH [of "n div 10"] Suc.prems d by (auto simp: cong: map_cong)
  show ?case
  proof (cases "n > 0 \<or> \<not> h")
    case True
    then show ?thesis using IH by simp
  next
    case False
    then have "n = 0" using Suc.prems by simp
    then show ?thesis using False Suc.IH [of 0 h] by (simp add: digit_char_zero)
  qed
qed simp

definition score_digits :: "int \<Rightarrow> string" where
  "score_digits n = map (\<lambda>k. digit_char (n div 10 ^ (4 - k) mod 10)) [0..<5]"

lemma ui_score_digits:
  assumes "0 \<le> n" "n \<le> MAX_SCORE"
  shows "ui_number_to_string n 5 CHR ''0'' = score_digits n" "length (score_digits n) = 5"
  using ui_number_loop_zero_padded [of n 5 False "[]"] assms
  by (simp_all add: ui_number_to_string_def score_digits_def)

lemma length_ui_number: "length (ui_number_to_string n d pad) = d"
proof -
  have "length (ui_number_loop d m h c acc) = d + length acc" for m h c acc by (induction d arbitrary: m h acc) simp_all
  then show ?thesis by (simp add: ui_number_to_string_def ui_put_minus_def Let_def split: option.split)
qed

text \<open>Every screen and bar keeps the renderer well formed and touches the back buffer only.\<close>

lemma score_timer_ok [simp]: "renderer_ok (r\<lparr>g_score_flash_timer := t\<rparr>) = renderer_ok r"
  "undrawn (r\<lparr>g_score_flash_timer := t\<rparr>) = undrawn r"
  by (simp_all add: renderer_ok_def undrawn_def)

lemma undrawn_text [simp]: "undrawn (ui_draw_centered_text y text col r) = undrawn r"
  by (simp add: ui_draw_centered_text_def Let_def)

lemma undrawn_border [simp]: "undrawn (ui_draw_border x y w h col r) = undrawn r"
  by (simp add: ui_draw_border_def Let_def)

lemma text_ok [draw_intros]: "renderer_ok r \<Longrightarrow> palette col \<Longrightarrow> renderer_ok (ui_draw_centered_text y text col r)"
  by (simp add: ui_draw_centered_text_def Let_def drawing_ok)

lemma border_ok [draw_intros]: "renderer_ok r \<Longrightarrow> palette col \<Longrightarrow> renderer_ok (ui_draw_border x y w h col r)"
  by (simp add: ui_draw_border_def Let_def drawing_ok)

lemmas ui_bar_defs = ui_draw_hud_extended_def ui_draw_hud_def ui_draw_bottom_bar_extended_def ui_draw_bottom_bar_def
  ui_draw_top_bar_def ui_draw_time_def ui_draw_fps_def ui_draw_score_def ui_draw_round_def ui_draw_enemies_left_def

lemmas ui_screen_defs = ui_draw_menu_screen_def ui_draw_pause_screen_def ui_draw_game_over_screen_def
  ui_draw_level_clear_screen_def ui_draw_victory_screen_def ui_draw_credits_screen_def

lemma lives_ok [draw_intros]: "renderer_ok r \<Longrightarrow> renderer_ok (ui_draw_lives n r)"
  unfolding ui_draw_lives_def Let_def by (intro fold_ok drawing_ok) simp_all

lemma undrawn_lives [simp]: "undrawn (ui_draw_lives n r) = undrawn r"
  unfolding ui_draw_lives_def Let_def by (subst fold_keeps) simp_all

lemma bars_ok [draw_intros]:
  assumes "renderer_ok r"
  shows "renderer_ok (ui_draw_hud l s n t f r)" "renderer_ok (ui_draw_hud_extended l s n t f e r)"
  using assms by (simp_all add: ui_bar_defs Let_def drawing_ok lives_ok split: prod.split)

lemma screens_ok [draw_intros]:
  assumes "renderer_ok r"
  shows "renderer_ok (ui_draw_menu_screen r)" "renderer_ok (ui_draw_pause_screen r)"
    "renderer_ok (ui_draw_game_over_screen s r)" "renderer_ok (ui_draw_level_clear_screen n s r)"
    "renderer_ok (ui_draw_victory_screen s r)" "renderer_ok (ui_draw_credits_screen r)"
  using assms by (simp_all only: ui_screen_defs Let_def) (simp_all add: draw_intros)

lemma undrawn_ui [simp]:
  "undrawn (ui_draw_menu_screen r) = undrawn r" "undrawn (ui_draw_pause_screen r) = undrawn r"
  "undrawn (ui_draw_game_over_screen s r) = undrawn r" "undrawn (ui_draw_level_clear_screen n s r) = undrawn r"
  "undrawn (ui_draw_victory_screen s r) = undrawn r" "undrawn (ui_draw_credits_screen r) = undrawn r"
  "undrawn (ui_draw_hud_extended l s n t f e r) = undrawn r"
  by (simp_all only: ui_screen_defs Let_def) (simp_all add: ui_bar_defs Let_def split: prod.split)

text \<open>The score is in the middle of the bottom bar; the bars drawn after it do not reach it.\<close>

lemma shown_round: "a < 70 \<Longrightarrow> shown a b (ui_draw_round n r) = shown a b r"
  by (auto simp: ui_draw_round_def ui_strlen_def length_ui_number Let_def)

lemma shown_enemies_left: "a < 54 \<Longrightarrow> shown a b (ui_draw_enemies_left n r) = shown a b r"
  by (simp add: ui_draw_enemies_left_def Let_def)

lemma shown_score:
  assumes "0 \<le> n" "n \<le> MAX_SCORE" "34 \<le> a" "a < 46"
  shows "character (shown a 24 (ui_draw_score n r)) = (''SCORE: '' @ score_digits n) ! nat (a - 34)"
  using assms(3,4) ui_score_digits [OF assms(1,2)]
  by (simp add: ui_draw_score_def ui_strlen_def render_is_valid_pos_def Let_def)

lemma shown_hud_score:
  assumes "0 \<le> n" "n \<le> MAX_SCORE" "34 \<le> a" "a < 46"
  shows "character (shown a 24 (ui_draw_hud_extended l n m t f e r)) = (''SCORE: '' @ score_digits n) ! nat (a - 34)"
  using assms by (simp add: ui_draw_hud_extended_def ui_draw_bottom_bar_extended_def shown_round shown_enemies_left shown_score Let_def)

end
