(* ===== verification/Game_Draw.thy ===== *)
theory Game_Draw
  imports Game_Logic Game_UI
begin

text \<open>
  The drawing of the game in \<open>project/game_render.c\<close>: the map, the entities and the effects. A
  routine that reads the map takes it as an argument. The lemmas show that every routine keeps
  the renderer well formed and touches nothing but the back buffer.
\<close>

section \<open>The map\<close>

definition tile_look :: "tile_type \<Rightarrow> int \<Rightarrow> char \<times> color" where
  "tile_look tile y =
     (let layer_color = render_get_layer_color y;
          empty_color = render_make_color COLOR_WHITE COLOR_BLACK
      in case tile of
           TILE_DIRT \<Rightarrow> (CHR '' '', layer_color)
         | TILE_EMPTY \<Rightarrow> (CHR '' '', empty_color)
         | TILE_SKY \<Rightarrow> (CHR '' '', render_make_color COLOR_WHITE COLOR_BLACK)
         | TILE_WALL \<Rightarrow> (CHR '' '', layer_color)
         | TILE_GEM \<Rightarrow> (CHR ''$'', render_make_color COLOR_YELLOW COLOR_BLACK)
         | TILE_BONUS \<Rightarrow> (CHR ''+'', render_make_color COLOR_YELLOW (bg layer_color))
         | TILE_BORDER \<Rightarrow> (CHR ''#'', render_make_color COLOR_DARK_GRAY COLOR_BLACK))"

definition render_map :: "game_map \<Rightarrow> renderer \<Rightarrow> renderer" where
  "render_map m =
     fold (\<lambda>y r. if y = STATUS_TOP_ROW \<or> y = STATUS_BOTTOM_ROW then r
                 else fold (\<lambda>x r. let (display_char, cell_color) = tile_look (map_get_tile x y m) y
                                  in render_set_cell x y display_char cell_color r) [0..SCREEN_WIDTH - 1] r)
       [0..SCREEN_HEIGHT - 1]"

section \<open>Entities\<close>

definition render_entity :: "entity \<Rightarrow> char \<Rightarrow> color \<Rightarrow> renderer \<Rightarrow> renderer" where
  "render_entity e display_char col r =
     (if \<not> active e then r else render_set_cell (pos_x (pos e)) (pos_y (pos e)) display_char col r)"

definition render_entity_at :: "int \<Rightarrow> int \<Rightarrow> char \<Rightarrow> color \<Rightarrow> renderer \<Rightarrow> renderer" where
  "render_entity_at x y display_char col r = render_set_cell x y display_char col r"

subsection \<open>The player\<close>

text \<open>The loop stops at the edge of the screen and at a solid block.\<close>

primrec attack_loop :: "nat \<Rightarrow> int \<Rightarrow> int \<Rightarrow> int \<Rightarrow> int \<Rightarrow> int \<Rightarrow> char \<Rightarrow> game_map \<Rightarrow> renderer \<Rightarrow> renderer" where
  "attack_loop 0 i px py dx dy c m r = r"
| "attack_loop (Suc n) i px py dx dy c m r =
     (let ax = px + dx * i; ay = py + dy * i in
      if ax < 0 \<or> ax \<ge> SCREEN_WIDTH \<or> ay < 0 \<or> ay \<ge> SCREEN_HEIGHT then r
      else if map_is_solid ax ay m then r
      else attack_loop n (i + 1) px py dx dy c m (render_set_cell ax ay c (render_make_color COLOR_WHITE COLOR_BLACK) r))"

definition render_player_attack :: "player \<Rightarrow> game_map \<Rightarrow> renderer \<Rightarrow> renderer" where
  "render_player_attack p m r =
     (let px = pos_x (pos (p_base p)); py = pos_y (pos (p_base p)) in
      case facing_dir p of
        DIR_UP \<Rightarrow> attack_loop (nat ATTACK_RANGE_V) 1 px py 0 (-1) CHR 0x7C m r
      | DIR_DOWN \<Rightarrow> attack_loop (nat ATTACK_RANGE_V) 1 px py 0 1 CHR 0x7C m r
      | DIR_LEFT \<Rightarrow> attack_loop (nat ATTACK_RANGE_H) 1 px py (-1) 0 CHR ''-'' m r
      | DIR_RIGHT \<Rightarrow> attack_loop (nat ATTACK_RANGE_H) 1 px py 1 0 CHR ''-'' m r
      | DIR_NONE \<Rightarrow> r)"

definition render_player :: "player \<Rightarrow> game_map \<Rightarrow> renderer \<Rightarrow> renderer" where
  "render_player p m r =
     (if p_state p = PLAYER_DEAD then r
      else
        let display_char = (case facing_dir p of DIR_UP \<Rightarrow> CHR ''P'' | DIR_DOWN \<Rightarrow> CHR ''P'' | DIR_LEFT \<Rightarrow> CHR ''P'' | _ \<Rightarrow> CHR ''P'');
            f = (case p_state p of PLAYER_PUMPING \<Rightarrow> COLOR_WHITE | PLAYER_ATTACKING \<Rightarrow> COLOR_WHITE | _ \<Rightarrow> COLOR_YELLOW);
            r = render_entity (p_base p) display_char (render_make_color f COLOR_BLACK) r
        in if is_attacking p \<and> attack_timer p > 0 then render_player_attack p m r else r)"

definition render_pump :: "player \<Rightarrow> renderer \<Rightarrow> renderer" where
  "render_pump p r =
     (if \<not> is_pumping p \<or> pump_length p \<le> 0 then r
      else if pump_dir p = DIR_NONE then r
      else
        let x = pos_x (pos (p_base p)); y = pos_y (pos (p_base p));
            pump_char = (if pump_dir p = DIR_UP \<or> pump_dir p = DIR_DOWN then CHR 0x7C else CHR ''-'');
            dx = dir_dx (pump_dir p); dy = dir_dy (pump_dir p);
            on_screen = (\<lambda>px py. px \<ge> 0 \<and> px < SCREEN_WIDTH \<and> py \<ge> 0 \<and> py < SCREEN_HEIGHT);
            r = fold (\<lambda>i r.
                  let px = x + dx * i; py = y + dy * i in
                  if on_screen px py
                  then render_set_cell px py pump_char (render_make_color COLOR_CYAN (bg (render_get_layer_color py))) r
                  else r) [1..pump_length p] r;
            tip_x = x + dx * pump_length p; tip_y = y + dy * pump_length p
        in if on_screen tip_x tip_y
           then render_set_cell tip_x tip_y CHR ''+'' (render_make_color COLOR_YELLOW (bg (render_get_layer_color tip_y))) r
           else r)"

subsection \<open>Enemies and rocks\<close>

definition render_fire :: "int \<Rightarrow> int \<Rightarrow> direction \<Rightarrow> renderer \<Rightarrow> renderer" where
  "render_fire x y d r =
     (case d of
        DIR_LEFT \<Rightarrow> fold (\<lambda>i r. let fx = x + -1 * i in if fx \<ge> 0 \<and> fx < SCREEN_WIDTH
          then render_set_cell fx y CHR ''*'' (render_make_color COLOR_RED COLOR_BLACK) r else r) [1..FYGAR_FIRE_RANGE] r
      | DIR_RIGHT \<Rightarrow> fold (\<lambda>i r. let fx = x + 1 * i in if fx \<ge> 0 \<and> fx < SCREEN_WIDTH
          then render_set_cell fx y CHR ''*'' (render_make_color COLOR_RED COLOR_BLACK) r else r) [1..FYGAR_FIRE_RANGE] r
      | _ \<Rightarrow> r)"

definition enemy_look :: "enemy \<Rightarrow> char \<times> color" where
  "enemy_look e =
     (let (display_char, f) =
            (if etype (e_base e) = ENTITY_POOKA then (CHR ''O'', COLOR_LIGHT_RED)
             else if etype (e_base e) = ENTITY_FYGAR then (CHR ''F'', COLOR_GREEN)
             else (CHR ''?'', COLOR_WHITE))
      in case e_state e of
           ENEMY_INFLATING \<Rightarrow>
             (if inflate_level e = 1 then CHR ''o''
              else if inflate_level e = 2 then CHR ''0''
              else if inflate_level e = 3 then CHR ''O''
              else display_char, render_make_color COLOR_LIGHT_MAGENTA COLOR_BLACK)
         | ENEMY_GHOST \<Rightarrow> (display_char, render_make_color COLOR_WHITE (bg (render_get_layer_color (pos_y (pos (e_base e))))))
         | ENEMY_PARALYZED \<Rightarrow>
             (display_char, render_make_color (if cmod (paralyzed_timer e) 2 = 0 then COLOR_LIGHT_CYAN else COLOR_BLACK) COLOR_BLACK)
         | _ \<Rightarrow> (display_char, render_make_color f COLOR_BLACK))"

definition render_enemy :: "enemy \<Rightarrow> renderer \<Rightarrow> renderer" where
  "render_enemy e r =
     (if \<not> active (e_base e) \<or> e_state e = ENEMY_DEAD then r
      else
        let (display_char, enemy_color) = enemy_look e;
            r = render_entity (e_base e) display_char enemy_color r
        in if etype (e_base e) = ENTITY_FYGAR \<and> fire_active e
           then render_fire (pos_x (pos (e_base e))) (pos_y (pos (e_base e))) (dir (e_base e)) r else r)"

definition render_enemies :: "enemy list \<Rightarrow> nat \<Rightarrow> renderer \<Rightarrow> renderer" where
  "render_enemies es n = fold (\<lambda>i. render_enemy (es ! i)) [0..<n]"

definition render_rock :: "rock \<Rightarrow> renderer \<Rightarrow> renderer" where
  "render_rock k r =
     (if \<not> active (r_base k) then r
      else
        let b = (if r_state k = ROCK_FALLING \<or> r_state k = ROCK_BLINKING then COLOR_BLACK
                 else bg (render_get_layer_color (pos_y (pos (r_base k)))));
            f = (if r_state k = ROCK_BLINKING then if cmod (r_blink_timer k) 2 = 0 then COLOR_WHITE else COLOR_DARK_GRAY
                 else if r_state k = ROCK_WOBBLING then if cmod (wobble_timer k) 2 = 0 then COLOR_LIGHT_GRAY else COLOR_DARK_GRAY
                 else COLOR_DARK_GRAY)
        in render_entity (r_base k) CHR ''#'' (render_make_color f b) r)"

definition render_rocks :: "rock list \<Rightarrow> nat \<Rightarrow> renderer \<Rightarrow> renderer" where
  "render_rocks ks n = fold (\<lambda>i. render_rock (ks ! i)) [0..<n]"

definition render_entities :: "world \<Rightarrow> renderer \<Rightarrow> renderer" where
  "render_entities w r =
     (let s = gl w;
          r = render_rocks (rocks s) (nat (rock_count s)) r;
          r = render_enemies (enemies s) (nat (enemy_count s)) r;
          r = (if is_pumping (plyr s) then render_pump (plyr s) r else r)
      in render_player (plyr s) (gm w) r)"

subsection \<open>Effects\<close>

definition render_explosion :: "int \<Rightarrow> int \<Rightarrow> renderer \<Rightarrow> renderer" where
  "render_explosion x y r =
     (let col = render_make_color COLOR_YELLOW COLOR_RED;
          r = render_set_cell x y CHR ''*'' col r;
          r = (if x > 0 then render_set_cell (x - 1) y CHR ''+'' col r else r);
          r = (if x < SCREEN_WIDTH - 1 then render_set_cell (x + 1) y CHR ''+'' col r else r);
          r = (if y > 0 then render_set_cell x (y - 1) CHR ''+'' col r else r)
      in if y < SCREEN_HEIGHT - 1 then render_set_cell x (y + 1) CHR ''+'' col r else r)"

definition render_dig_particles :: "int \<Rightarrow> int \<Rightarrow> renderer \<Rightarrow> renderer" where
  "render_dig_particles x y r =
     render_set_cell x y CHR ''.'' (render_make_color COLOR_BROWN (bg (render_get_layer_color y))) r"

section \<open>Frames\<close>

definition render_game :: "world \<Rightarrow> renderer \<Rightarrow> renderer" where
  "render_game w r =
     (let s = gl w;
          r = render_clear r;
          r = render_map (gm w) r;
          r = render_entities w r;
          r = ui_draw_hud (lives s) (score s) (round_nr s) (time_elapsed s) 0 r;
          r = (case scene s of
                 SCENE_PAUSED \<Rightarrow> ui_draw_pause_screen r
               | SCENE_ROUND_CLEAR \<Rightarrow> ui_draw_level_clear_screen (round_nr s) (score s) r
               | SCENE_GAME_OVER \<Rightarrow> ui_draw_game_over_screen (score s) r
               | SCENE_MENU \<Rightarrow> ui_draw_menu_screen r
               | _ \<Rightarrow> r)
      in render_present r)"

section \<open>Drawing is well formed\<close>

text \<open>One lemma for both facts about a drawing routine: it keeps the screen in the palette and
  touches the back buffer only.\<close>

definition draws :: "(renderer \<Rightarrow> renderer) \<Rightarrow> bool" where
  "draws f \<longleftrightarrow> (\<forall>r. renderer_ok r \<longrightarrow> renderer_ok (f r) \<and> undrawn (f r) = undrawn r)"

lemma drawsI: "(\<And>r. renderer_ok r \<Longrightarrow> renderer_ok (f r)) \<Longrightarrow> (\<And>r. undrawn (f r) = undrawn r) \<Longrightarrow> draws f"
  by (simp add: draws_def)

lemma draws_id [draw_intros]: "draws (\<lambda>r. r)"
  by (simp add: draws_def)

lemma draws_if [draw_intros]: "draws f \<Longrightarrow> draws g \<Longrightarrow> draws (\<lambda>r. if b then f r else g r)"
  by (cases b) simp_all

lemma draws_comp: "draws f \<Longrightarrow> draws g \<Longrightarrow> draws (\<lambda>r. f (g r))"
  by (simp add: draws_def)

lemma draws_set_cell: "palette col \<Longrightarrow> draws (render_set_cell x y c col)"
  by (rule drawsI) (simp_all add: drawing_ok)

lemma draws_fold: "(\<And>i. draws (f i)) \<Longrightarrow> draws (fold f is)"
proof (induction "is")
  case (Cons i "is")
  then show ?case using draws_comp [of "fold f is" "f i"] by (simp add: comp_def)
qed (simp add: draws_def)

lemma draws_map: "draws (render_map m)"
proof -
  have p: "palette (snd (tile_look t y))" for t y by (cases t) (simp_all add: tile_look_def)
  have "draws (\<lambda>r. let (c, col) = tile_look t y in render_set_cell x y c col r)" for t x y
  proof -
    obtain c col where "tile_look t y = (c, col)" by (rule prod.exhaust)
    then show ?thesis using p [of t y] by (simp add: draws_set_cell)
  qed
  then show ?thesis unfolding render_map_def by (intro draws_fold draws_if draws_id)
qed

lemma draws_entity: "palette col \<Longrightarrow> draws (render_entity e c col)"
  unfolding render_entity_def by (intro draws_if draws_id draws_set_cell)

lemma draws_attack: "draws (render_player_attack p m)"
proof -
  have "draws (attack_loop n i px py dx dy c m)" for n i px py dx dy c
  proof (induction n arbitrary: i)
    case (Suc n)
    show ?case unfolding attack_loop.simps Let_def
      by (intro draws_if draws_id draws_comp [OF Suc draws_set_cell]) simp
  qed (simp add: draws_def)
  then show ?thesis unfolding render_player_attack_def Let_def by (cases "facing_dir p") (simp_all add: draws_id)
qed

lemma draws_player: "draws (render_player p m)"
proof -
  have "draws (\<lambda>r. render_player_attack p m (render_entity e c col r))" "draws (render_entity e c col)" if "palette col" for e c col
    using that draws_comp [OF draws_attack draws_entity] draws_entity by blast+
  then show ?thesis unfolding render_player_def Let_def
    by (intro draws_if draws_id) (auto split: player_state.split)
qed

lemma draws_pump: "draws (render_pump p)"
  unfolding render_pump_def Let_def
  by (intro draws_if draws_id draws_comp [OF draws_set_cell] draws_fold draws_set_cell) simp_all

lemma draws_fire: "draws (render_fire x y d)"
  unfolding render_fire_def Let_def
  by (cases d) (auto intro!: draws_fold draws_if draws_id draws_set_cell)

lemma palette_enemy: "palette (snd (enemy_look e))"
  by (simp add: enemy_look_def Let_def split: prod.split enemy_state.split)

lemma draws_enemy: "draws (render_enemy e)"
proof -
  obtain c col where l: "enemy_look e = (c, col)" by (rule prod.exhaust)
  then have "draws (render_entity (e_base e) c col)" using palette_enemy [of e] by (simp add: draws_entity)
  then show ?thesis unfolding render_enemy_def Let_def l prod.case
    by (intro draws_if draws_id draws_comp [OF draws_fire])
qed

lemma draws_rock: "draws (render_rock k)"
  unfolding render_rock_def Let_def by (intro draws_if draws_id draws_entity) simp

lemma draws_rocks: "draws (render_rocks ks n)"
  unfolding render_rocks_def by (intro draws_fold draws_rock)

lemma draws_enemies: "draws (render_enemies es n)"
  unfolding render_enemies_def by (intro draws_fold draws_enemy)

lemma draws_entities: "draws (render_entities w)"
  unfolding render_entities_def Let_def
  by (intro draws_comp [OF draws_player] draws_if draws_comp [OF draws_pump] draws_comp [OF draws_enemies draws_rocks])

end
