(* ===== verification/Game_Render.thy ===== *)
theory Game_Render
  imports Game_Main Game_Draw
begin

text \<open>
  The scenes drawn by \<open>render_thread_func\<close> of \<open>project/game.c\<close>, and the program with both threads: an
  application state is the game of \<open>Game_Main\<close> and the renderer. A pass of the render thread is
  taken as one step; the source synchronises the threads by \<open>g_frame_ready\<close> only, so that on the
  machine a logic frame can overlap a pass.
\<close>

section \<open>Frames\<close>

definition draw_scene :: "game \<Rightarrow> renderer \<Rightarrow> renderer" where
  "draw_scene g r =
     (let w = gw g; s = gl w;
          r = (if g_scene g = SCENE_PLAYING \<or> g_scene g = SCENE_PAUSED then render_clear r else render_clear_black r)
      in case g_scene g of
           SCENE_MENU \<Rightarrow> ui_draw_menu_screen r
         | SCENE_PLAYING \<Rightarrow>
             (let r = render_map (gm w) r;
                  r = render_entities w r;
                  r = render_player (plyr s) (gm w) r;
                  r = render_enemies (enemies s) (nat (enemy_count s)) r;
                  r = render_rocks (rocks s) (nat (rock_count s)) r
              in ui_draw_hud_extended (g_lives g) (g_score g) (g_level g) (time_elapsed s) 0 (enemies_remaining s) r)
         | SCENE_PAUSED \<Rightarrow> ui_draw_pause_screen (render_entities w (render_map (gm w) r))
         | SCENE_ROUND_CLEAR \<Rightarrow> ui_draw_level_clear_screen (g_level g) (g_score g) r
         | SCENE_GAME_OVER \<Rightarrow> ui_draw_game_over_screen (g_score g) r
         | SCENE_ROUND_START \<Rightarrow> ui_draw_level_clear_screen (g_level g - 1) (g_score g) r
         | SCENE_VICTORY \<Rightarrow> ui_draw_victory_screen (g_score g) r
         | SCENE_CREDITS \<Rightarrow> ui_draw_credits_screen r)"

text \<open>One pass of the loop of the render thread: it waits for a frame while the game runs.\<close>

definition render_pass :: "game \<times> renderer \<Rightarrow> game \<times> renderer" where
  "render_pass a =
     (let (g, r) = a in
      if g_running g \<and> g_frame_ready g
      then (g\<lparr>g_frame_ready := False\<rparr>, render_present (draw_scene g r))
      else (g, r))"

text \<open>The initialisation and the end of the program, with their effect on the screen.\<close>

definition app_init :: "int \<Rightarrow> game \<times> renderer \<Rightarrow> game \<times> renderer" where
  "app_init now a = (let (g, r) = a in (game_init now g, render_present (render_clear (render_init r))))"

definition app_cleanup :: "game \<times> renderer \<Rightarrow> game \<times> renderer" where
  "app_cleanup a = (let (g, r) = a in (game_cleanup g, render_cleanup r))"

inductive app_run :: "game \<times> renderer \<Rightarrow> bool" where
  app_start: "length (enemies (gl (gw g))) = MAX_ENEMIES \<Longrightarrow> length (rocks (gl (gw g))) = MAX_ROCKS \<Longrightarrow>
    length (g_vga_buffer r) = SCREEN_SIZE \<Longrightarrow> writes r = [] \<Longrightarrow> app_run (app_init now (g, r))"
| app_frame: "app_run (g, r) \<Longrightarrow> g_running g \<Longrightarrow> game_frame now g = Some g' \<Longrightarrow> app_run (g', r)"
| app_key: "app_run (g, r) \<Longrightarrow> app_run (g\<lparr>inp := input_keyboard_handler k pressed (inp g)\<rparr>, r)"
| app_render: "app_run a \<Longrightarrow> app_run (render_pass a)"

section \<open>Invariant of the program\<close>

lemma drawsD: "draws f \<Longrightarrow> renderer_ok r \<Longrightarrow> renderer_ok (f r)" "draws f \<Longrightarrow> renderer_ok r \<Longrightarrow> undrawn (f r) = undrawn r"
  by (simp_all add: draws_def)

lemmas game_drawsD = drawsD [OF draws_map] drawsD [OF draws_entities] drawsD [OF draws_player] drawsD [OF draws_enemies]
  drawsD [OF draws_rocks]

lemma draws_scene: "draws (draw_scene g)"
  unfolding draws_def draw_scene_def Let_def
  by (cases "g_scene g") (simp_all add: clearing_ok screens_ok bars_ok game_drawsD)

definition app_ok :: "game \<times> renderer \<Rightarrow> bool" where
  "app_ok a \<longleftrightarrow> (let (g, r) = a in ginv g \<and> renderer_ok r \<and> list_all vga_ok (writes r))"

lemma present_app:
  assumes "renderer_ok r" "list_all vga_ok (writes r)"
  shows "list_all vga_ok (writes (render_present r))"
proof -
  have "length (g_vga_buffer r) = SCREEN_SIZE" using assms(1) by (simp add: renderer_ok_def)
  note p = render_present_shows [OF this]
  show ?thesis using vga_shows_ok [OF p(1) present_ok [OF assms(1)]] assms(2) by (simp add: p(2))
qed

lemma init_screen_ok:
  assumes "length (g_vga_buffer r) = SCREEN_SIZE" "writes r = []"
  shows "renderer_ok (render_init r)" "list_all vga_ok (writes (render_init r))"
  using clear_vga_nth [OF assms(1)] assms(2)
  by (simp_all add: render_init_def write_vga_def renderer_ok_def buffer_ok_def render_clear_buffer_def cells_fill vga_ok_def)

lemma render_pass_ok: "app_ok a \<Longrightarrow> app_ok (render_pass a)"
proof -
  assume a: "app_ok a"
  obtain g r where gr: "a = (g, r)" by (rule prod.exhaust)
  have r: "renderer_ok (draw_scene g r)" "undrawn (draw_scene g r) = undrawn r"
    using drawsD [OF draws_scene, of r g] a gr by (simp_all add: app_ok_def)
  then show ?thesis using a gr present_ok [OF r(1)] present_app [OF r(1)] by (simp add: app_ok_def render_pass_def undrawn_def)
qed

lemma app_run_ok: "app_run a \<Longrightarrow> app_ok a"
proof (induction rule: app_run.induct)
  case (app_start g r now)
  have "ginv (game_init now g)" by (rule game_run_inv, rule game_run.start) (use app_start in simp_all)
  moreover note i = init_screen_ok [OF app_start(3,4)]
  have "renderer_ok (render_clear (render_init r))" "list_all vga_ok (writes (render_clear (render_init r)))"
    using i clearing_ok(1) by (blast, simp add: render_clear_def on_back_def)
  ultimately show ?case using present_ok present_app by (simp add: app_ok_def app_init_def)
next
  case (app_frame g r now g')
  then show ?case using game_frame_ok [of g now] by (auto simp: app_ok_def frame_ok_def)
next
  case (app_key g r k pressed)
  then show ?case by (simp add: app_ok_def)
next
  case (app_render a)
  then show ?case by (simp add: render_pass_ok)
qed

section \<open>From the menu to play\<close>

lemma round_start_frame:
  assumes "g_scene g = SCENE_ROUND_START"
  shows "\<exists>g'. game_frame now g = Some g' \<and> g_running g' = g_running g \<and> g_frame_ready g' \<and>
    (if round_start_timer (gl (gw g)) \<le> 1 then g_scene g' = SCENE_PLAYING
     else g_scene g' = SCENE_ROUND_START \<and> round_start_timer (gl (gw g')) = round_start_timer (gl (gw g)) - 1)"
  using assms
  by (simp add: game_frame_def process_scene_def process_round_start_def timer_down_def set_scene_def on_w_def Let_def)

lemma play_begins:
  assumes "app_run (g, r)" "g_scene g = SCENE_ROUND_START" "g_running g"
  shows "\<exists>g'. app_run (g', r) \<and> g_scene g' = SCENE_PLAYING \<and> g_running g' \<and> g_frame_ready g'"
  using assms
proof (induction "nat (round_start_timer (gl (gw g)))" arbitrary: g rule: less_induct)
  case less
  obtain g' where g': "game_frame 0 g = Some g'" "g_running g'" "g_frame_ready g'"
    "if round_start_timer (gl (gw g)) \<le> 1 then g_scene g' = SCENE_PLAYING
     else g_scene g' = SCENE_ROUND_START \<and> round_start_timer (gl (gw g')) = round_start_timer (gl (gw g)) - 1"
    using round_start_frame [OF less.prems(2), of 0] less.prems(3) by blast
  have run: "app_run (g', r)" using app_frame [OF less.prems(1,3) g'(1)] .
  show ?case
  proof (cases "round_start_timer (gl (gw g)) \<le> 1")
    case True
    then show ?thesis using run g' by auto
  next
    case False
    then show ?thesis using less.hyps [of g'] run g' by auto
  qed
qed

text \<open>Pressing the action key in the menu starts a game.\<close>

lemma menu_starts:
  assumes "app_run (g, r)" "g_scene g = SCENE_MENU" "g_running g"
    "\<not> input_is_quit_pressed (input_update (input_new_frame (inp g)))" "fst (input_is_action_pressed (input_update (input_new_frame (inp g))))"
  shows "\<exists>g'. app_run (g', r) \<and> g_scene g' = SCENE_ROUND_START \<and> g_running g'"
proof -
  have len: "length (enemies (gl (gw g))) = 8" "length (rocks (gl (gw g))) = 10"
    using app_run_ok [OF assms(1)] ginv_lengths by (simp_all add: app_ok_def)
  let ?g = "snd (read_input input_is_action_pressed (g\<lparr>inp := input_update (input_new_frame (inp g))\<rparr>))"
  have g: "gw ?g = gw g" "g_running ?g = g_running g" by (simp_all add: read_input_eq)
  obtain g' where g': "start_game ?g = Some g'" "g_scene g' = SCENE_ROUND_START" "g_running g' = g_running ?g"
    using start_game_ok [of ?g] len g by auto
  define g2 where "g2 = g'\<lparr>inp := input_clear (inp g'), g_frame_ready := True, g_ticks_elapsed := g_ticks_elapsed g' + 1\<rparr>"
  have "game_frame 0 g = Some g2"
    using g'(1) assms(2,4,5) read_input_eq(2) [of input_is_action_pressed "g\<lparr>inp := input_update (input_new_frame (inp g))\<rparr>"]
    by (auto simp: g2_def game_frame_def process_scene_def process_menu_state_def Let_def split: prod.split)
  then have "app_run (g2, r)" using app_frame [OF assms(1,3)] by blast
  moreover have "g_scene g2 = SCENE_ROUND_START" "g_running g2" using g' g(2) assms(3) by (simp_all add: g2_def)
  ultimately show ?thesis by blast
qed

section \<open>The score on the screen\<close>

lemma drawn_score:
  assumes "app_run (g, r)" "g_scene g = SCENE_PLAYING" "34 \<le> a" "a < 46"
  shows "character (shown a 24 (draw_scene g r)) = (''SCORE: '' @ score_digits (g_score g)) ! nat (a - 34)"
proof -
  have "0 \<le> g_score g" "g_score g \<le> MAX_SCORE" using app_run_ok [OF assms(1)] by (simp_all add: app_ok_def ginv_def linv_def Let_def)
  from shown_hud_score [OF this assms(3,4)] show ?thesis by (simp add: draw_scene_def assms(2) Let_def)
qed

lemma render_pass_frame:
  assumes "app_run (g, r)" "g_running g" "g_frame_ready g" "render_pass (g, r) = (g', r')"
  shows "vga_shows (last (writes r')) r'" "renderer_ok r'" "shown x y r' = shown x y (draw_scene g r)"
proof -
  have r: "renderer_ok (draw_scene g r)" using drawsD(1) [OF draws_scene] app_run_ok [OF assms(1)] by (simp add: app_ok_def)
  then have "length (g_vga_buffer (draw_scene g r)) = SCREEN_SIZE" by (simp add: renderer_ok_def)
  note p = render_present_shows [OF this]
  have r': "r' = render_present (draw_scene g r)" using assms(2-4) by (simp add: render_pass_def)
  show "vga_shows (last (writes r')) r'" using p(1,2) by (simp add: r')
  show "renderer_ok r'" using r by (simp add: r' present_ok)
  show "shown x y r' = shown x y (draw_scene g r)" by (simp add: r' p(3))
qed

section \<open>Properties\<close>

text \<open>Property C17 (frames_typed). In every state the program can reach, with keys, frames and passes of the
  render thread in any order, each cell of both buffers has a foreground of four and a
  background of three bits, and every frame ever written to the screen device is exactly 4000
  bytes long with no blinking attribute.\<close>

theorem frames_typed:
  assumes "app_run (g, r)"
  shows "renderer_ok r \<and> list_all vga_ok (writes r)"
  using app_run_ok [OF assms] by (simp add: app_ok_def)

definition renderer_example :: renderer where
  "renderer_example =
     (let b = \<lparr>cells = (\<lambda>_ _. mk_cell CHR 0x00 (render_make_color 0 0)), dirty = False\<rparr>
      in \<lparr>g_front_buffer = b, g_back_buffer = b, g_vga_buffer = replicate 4000 0, g_default_color = render_make_color 0 0,
          writes = [], g_score_flash_timer = 0, g_life_lost_timer = 0\<rparr>)"

lemma app_example: "app_run (app_init 5 (game_example, renderer_example))"
  by (rule app_start) (simp_all add: game_example_def example_lengths renderer_example_def Let_def)

theorem frames_typed_witness:
  "renderer_ok (snd (app_init 5 (game_example, renderer_example))) \<and>
   list_all vga_ok (writes (snd (app_init 5 (game_example, renderer_example))))"
  using frames_typed [of "fst (app_init 5 (game_example, renderer_example))" "snd (app_init 5 (game_example, renderer_example))"]
    app_example by simp

text \<open>A reachable state of play with a frame to draw.\<close>

lemma play_example: "\<exists>g r. app_run (g, r) \<and> g_scene g = SCENE_PLAYING \<and> g_running g \<and> g_frame_ready g"
proof -
  define g where "g = (game_init 5 game_example)\<lparr>inp := input_keyboard_handler KEY_ENTER True (inp (game_init 5 game_example))\<rparr>"
  define r where "r = render_present (render_clear (render_init renderer_example))"
  have run: "app_run (g, r)" unfolding g_def
    by (rule app_key) (use app_example in \<open>simp add: app_init_def r_def\<close>)
  have "g_scene g = SCENE_MENU" "g_running g" by (simp_all add: g_def game_init_def Let_def on_w_def)
  moreover have "\<not> input_is_quit_pressed (input_update (input_new_frame (inp g)))"
    "fst (input_is_action_pressed (input_update (input_new_frame (inp g))))"
    by (simp_all add: g_def game_init_def game_example_def on_w_def Let_def input_init_def input_reset_def input_example_def
      input_keyboard_handler_def input_update_def input_new_frame_def input_is_quit_pressed_def input_is_action_pressed_def
      key_direction_def)
  ultimately obtain g' where "app_run (g', r)" "g_scene g' = SCENE_ROUND_START" "g_running g'"
    using menu_starts [OF run] by blast
  from play_begins [OF this] show ?thesis by blast
qed

end
