(* ===== verification/Spec2Isabelle.thy ===== *)
theory Spec2Isabelle
  imports Zeos_Run Zeos_Boot Game_Entities Game_Render
begin

text \<open>
  A verification development for ZeOS, a small teaching kernel for the 32-bit x86, and for the Dig
  Dug game that runs on it (the directory \<open>src/project\<close>).

  \<^bold>\<open>The program.\<close> The kernel boots in \<open>main\<close> (\<open>system.c\<close>), sets up page tables (\<open>mm.c\<close>) and the idle and
  initial tasks (\<open>sched.c\<close>), and then runs on clock ticks, key presses, page faults
  (\<open>interrupt.c\<close>, \<open>keyboard.c\<close>) and system calls (\<open>sys.c\<close>). Tasks are kept in intrusive lists (\<open>list.c\<close>) and
  share the processor by round robin. A write goes to the text console, to a debug port or as a
  whole frame to the screen (\<open>io.c\<close>, \<open>devices.c\<close>, \<open>screen.c\<close>). The game has two threads: one
  computes a frame of the game (\<open>game.c\<close>, \<open>game_logic.c\<close>, \<open>game_data.c\<close>, \<open>game_input.c\<close>,
  \<open>game_map.c\<close>), the other draws it (\<open>game_render.c\<close>, \<open>game_ui.c\<close>) and writes it to the screen.

  \<^bold>\<open>The kernel theories.\<close>
  \<^item> \<open>Zeos_Prelude\<close>: machine integers, C division, faults as \<open>None\<close>, loops over a fault monad.
  \<^item> \<open>Zeos_List\<close> (\<open>list.c\<close>): the pointer operations, and the locale \<open>list_ops\<close> with the laws that the queues
    rely on, interpreted on the pointer code.
  \<^item> \<open>Zeos_Mm\<close> (\<open>mm.c\<close>): frames, page tables, directories; the locale \<open>frame_pool\<close>.
  \<^item> \<open>Zeos_Task\<close> and \<open>Zeos_Sched\<close> (\<open>sched.c\<close>, \<open>kernel_asm.S\<close>): the control blocks, the switch of stacks,
    the initial tasks, the scheduler, and the specification \<open>rr_schedule\<close> that it refines.
  \<^item> \<open>Zeos_Helpers\<close> (\<open>kernel_helpers.c\<close>), \<open>Zeos_Utils\<close> (\<open>utils.c\<close>), \<open>Zeos_Libc\<close> (\<open>libc.c\<close>).
  \<^item> \<open>Zeos_Console\<close> (\<open>io.c\<close>, \<open>devices.c\<close>, \<open>screen.c\<close>) and \<open>Zeos_Keyboard\<close> (\<open>keyboard.c\<close>).
  \<^item> \<open>Zeos_Syscalls\<close> and \<open>Zeos_System\<close> (\<open>sys.c\<close>, \<open>interrupt.c\<close>): every system call, the call table, the
    gates; the locale \<open>char_device\<close>, interpreted on the console and on the debug port.
  \<^item> \<open>Zeos_Boot\<close> (\<open>system.c\<close>): the whole of \<open>main\<close>, the segment table, the splash screen.
  \<^item> \<open>Zeos_Run\<close>: runs of the kernel as an inductive relation.

  \<^bold>\<open>The game theories.\<close>
  \<^item> \<open>Game_Types\<close> (\<open>include/game_types.h\<close>), \<open>Game_Map\<close> (\<open>game_map.c\<close>) with the locale \<open>grid\<close>, which is
    interpreted on the tiles of the map and on the cells of the screen.
  \<^item> \<open>Game_PQ\<close> and \<open>Game_Path\<close>: the heap and the path search of \<open>game_logic.c\<close>; the locale \<open>min_queue\<close>.
  \<^item> \<open>Game_Entities\<close> (\<open>game_entities.c\<close>), \<open>Game_Logic\<close> (\<open>game_logic.c\<close>), \<open>Game_Data\<close> (\<open>game_data.c\<close>),
    \<open>Game_Input\<close> (\<open>game_input.c\<close>), \<open>Game_Main\<close> (\<open>game.c\<close>).
  \<^item> \<open>Game_Safety\<close> and \<open>Game_Rocks\<close>: the invariant of the game logic, and the life of a rock.
  \<^item> \<open>Game_Screen\<close>, \<open>Game_Draw\<close> (\<open>game_render.c\<close>), \<open>Game_UI\<close> (\<open>game_ui.c\<close>), and \<open>Game_Render\<close> with the render
    thread of \<open>game.c\<close> and the program of both threads.

  \<^bold>\<open>State and operations.\<close> A structure of the source is a record with its fields, an enumeration a
  datatype, and a routine a definition of the same name that takes and returns the state it
  works on. In the kernel, a load or store through a null pointer is the result \<open>None\<close>. Addresses
  and registers are words of 32 bits, bytes words of 8 bits; an \<open>int\<close> that cannot overflow in the
  program is an integer. Loops are recursive functions. Those that wait for a clock and the loop
  that digs a tunnel are partial functions in the option monad, and it is proved that they
  return. Values that come from outside are arguments: clock and counter readings, keys, the
  vectors filled by the precompiled library, addresses of the linker.

  \<^bold>\<open>What is shown.\<close> The queues are well formed in every state the kernel reaches and its
  transitions never fault; the scheduler refines round robin, and a ready task runs within as many
  ticks as its place in the queue. A context switch gives a task its registers back. Frames are
  allocated lowest first and returned on failure; stack growth stays in its region. Copies are
  exact, checked addresses are in user pages, numbers are formatted in decimal, and formatted
  output stays in its buffer. A system call checks its arguments in order and hands the device the
  bytes of the user. A keyboard callback returns to the interrupted thread as it was. For the game:
  the heap refines a multiset with minimum extraction, and the search returns the first step of a
  shortest path. Levels load completely; falling rocks come to rest; in every reachable state the
  next frame completes and keeps player, enemies, rocks, score and lives in their ranges; scenes
  change along a fixed graph. Every frame written to the screen is well formed, and the theory below
  follows the score from the game through the system call to the video memory.

  \<^bold>\<open>Bounds.\<close> The only fuel is the number of attempts that the code itself counts when it looks for
  random positions. The priority queue holds 256 nodes; the theorem on shortest paths covers
  searches in which it does not overflow, a hypothesis on the run with a witness; that a returned
  direction starts a path holds for all.

  \<^bold>\<open>Not modelled.\<close> Assembly at the kernel border (\<open>entry.S\<close>, \<open>sys_call_wrappers.S\<close>, \<open>bootsect.S\<close>) and single
  instructions (\<open>hardware.c\<close>) have no state in the model. \<open>map_draw_line\<close> computes in floating point
  and is not used by the game. The host tool \<open>build.c\<close>, the test programs and the sample screens are
  not part of the running system; debug output is compiled out. Page faults of the kernel on a
  checked user buffer are not modelled. The two threads of the game interleave by whole frames and
  whole passes. The directories \<open>src/zeos\<close> and \<open>src/lab_exams\<close> hold other versions of the kernel
  sources.
\<close>

section \<open>From the game to the screen\<close>

lemma screen_write:
  assumes "access_ok 0 b 4000" "\<not> in_keyboard_context (kern s)" "sys_write FD_SCREEN b 4000 s = (n, s')" "80 \<le> j" "j < 2000"
  shows "n = 4000" "video (con s') (2 * j) = mem_bytes b 4000 (mem s) ! (2 * j)"
    "video (con s') (2 * j + 1) = mem_bytes b 4000 (mem s) ! (2 * j + 1)"
proof -
  obtain d c where w: "sys_write_screen (mem_bytes b 4000 (mem s)) 4000 (disp s) (con s) = (n, d, c)" "s' = s\<lparr>disp := d, con := c\<rparr>"
    using assms(1-3) by (auto simp: sys_write_def check_fd_def Let_def split: prod.splits)
  note v = sys_write_screen_video [OF _ w(1)]
  show "n = 4000" using v(1) by simp
  then show "video (con s') (2 * j) = mem_bytes b 4000 (mem s) ! (2 * j)"
    "video (con s') (2 * j + 1) = mem_bytes b 4000 (mem s) ! (2 * j + 1)"
    using v(4) assms(4,5) w(2) by simp_all
qed

text \<open>Property C3 (score_on_screen). The path from the game to the video memory, through the system call:
  in every reachable state of play, when the render thread has drawn a frame and writes its
  buffer to the screen device, the call accepts all 4000 bytes, each cell below the kernel's status
  row shows the character and the colours drawn, and the bottom row shows the five decimal
  digits of the score.\<close>

theorem score_on_screen:
  assumes "app_run (g, r)" "g_scene g = SCENE_PLAYING" "g_running g" "g_frame_ready g" "render_pass (g, r) = (g', r')"
    and "mem_bytes b 4000 (mem s) = last (writes r')" "access_ok 0 b 4000" "\<not> in_keyboard_context (kern s)"
      "sys_write FD_SCREEN b 4000 s = (n, s')"
  shows "n = 4000 \<and>
    (\<forall>x y. x < 80 \<and> 1 \<le> y \<and> y < 25 \<longrightarrow> (let cl = shown (int x) (int y) r'; i = 2 * (80 * y + x) in
       video (con s') i = of_char (character cl) \<and> video (con s') (i + 1) AND 0x0F = fg (ccolor cl) \<and>
       drop_bit 4 (video (con s') (i + 1)) = bg (ccolor cl))) \<and>
    map (\<lambda>k. video (con s') (2 * (80 * 24 + (34 + k)))) [0..<12] = map of_char (''SCORE: '' @ score_digits (g_score g))"
proof (intro conjI allI impI)
  note f = render_pass_frame [OF assms(1,3-5)]
  note w = screen_write [OF assms(7-9)]
  show "n = 4000" using w(1) [of 80] by simp
  have cell: "let cl = shown (int x) (int y) r'; i = 2 * (80 * y + x) in
       video (con s') i = of_char (character cl) \<and> video (con s') (i + 1) AND 0x0F = fg (ccolor cl) \<and>
       drop_bit 4 (video (con s') (i + 1)) = bg (ccolor cl)" if "x < 80" "1 \<le> y" "y < 25" for x y
  proof -
    define j where "j = 80 * y + x"
    have j: "80 \<le> j" "j < 2000" "j mod 80 = x" "j div 80 = y" using that by (auto simp: j_def)
    have "render_is_valid_pos (int x) (int y)" using that by (simp add: render_is_valid_pos_def)
    note bits = attribute_bits [OF renderer_okD [OF f(2) this]]
    let ?v = "last (writes r')" and ?cl = "shown (int x) (int y) r'"
    have "?v ! (2 * j) = of_char (character ?cl)" "?v ! (2 * j + 1) = push_bit 4 (bg (ccolor ?cl)) OR (fg (ccolor ?cl) AND 0x0F)"
      using f(1) j unfolding vga_shows_def Let_def by auto
    then show ?thesis using w(2,3) [OF j(1,2)] bits by (simp add: assms(6) Let_def flip: j_def)
  qed
  then show "let cl = shown (int x) (int y) r'; i = 2 * (80 * y + x) in
       video (con s') i = of_char (character cl) \<and> video (con s') (i + 1) AND 0x0F = fg (ccolor cl) \<and>
       drop_bit 4 (video (con s') (i + 1)) = bg (ccolor cl)" if "x < 80 \<and> 1 \<le> y \<and> y < 25" for x y
    using that by blast
  define shown_text where "shown_text = ''SCORE: '' @ score_digits (g_score g)"
  have len: "length shown_text = 12" by (simp add: shown_text_def score_digits_def)
  have "map (\<lambda>k. video (con s') (2 * (80 * 24 + (34 + k)))) [0..<12] = map of_char shown_text"
  proof (rule nth_equalityI)
    fix k assume "k < length (map (\<lambda>k. video (con s') (2 * (80 * 24 + (34 + k)))) [0..<12])"
    then have k: "k < 12" by simp
    have "video (con s') (2 * (80 * 24 + (34 + k))) = of_char (character (shown (int (34 + k)) (int 24) r'))"
      using cell [of "34 + k" 24] k by (simp add: Let_def)
    also have "\<dots> = of_char (shown_text ! k)"
      using drawn_score [OF assms(1,2), of "int (34 + k)"] k by (simp add: f(3) shown_text_def)
    finally show "map (\<lambda>k. video (con s') (2 * (80 * 24 + (34 + k)))) [0..<12] ! k = map of_char shown_text ! k"
      using k len by simp
  qed (simp add: len)
  then show "map (\<lambda>k. video (con s') (2 * (80 * 24 + (34 + k)))) [0..<12] = map of_char (''SCORE: '' @ score_digits (g_score g))"
    by (simp only: shown_text_def)
qed

theorem score_on_screen_witness:
  "\<exists>(g :: game) s n s'. g_scene g = SCENE_PLAYING \<and> sys_write FD_SCREEN 0x100000 4000 s = (n, s') \<and> n = 4000 \<and>
     map (\<lambda>k. video (con s') (2 * (80 * 24 + (34 + k)))) [0..<12] = map of_char (''SCORE: '' @ score_digits (g_score g))"
proof -
  obtain g r where a: "app_run (g, r)" "g_scene g = SCENE_PLAYING" "g_running g" "g_frame_ready g" using play_example by blast
  obtain g' r' where p: "render_pass (g, r) = (g', r')" by fastforce
  have len: "length (last (writes r')) = 4000" using render_pass_frame(1) [OF a(1,3,4) p] by (simp add: vga_shows_def)
  define s where "s = \<lparr>kern = kernel_zero, con = \<lparr>cur_x = 0, cur_y = 0, video = (\<lambda>_. 0), port_e9 = []\<rparr>,
       disp = \<lparr>zeos_ticks = 0, frame_count = 0, last_fps_update_tick = 0, last_frame_count = 0, current_fps = 0,
         cached_time = [0], cached_fps = [0]\<rparr>, mem = (\<lambda>x. last (writes r') ! unat (x - 0x100000)), buffer_k = 0x12000\<rparr>"
  have m: "mem_bytes 0x100000 4000 (mem s) = last (writes r')"
    by (rule nth_equalityI) (simp_all add: s_def mem_bytes_def len unat_of_nat)
  have ok: "access_ok 0 0x100000 4000" "\<not> in_keyboard_context (kern s)"
    by (simp_all add: s_def access_ok_def in_keyboard_context_def kernel_zero_def)
  obtain n s' where w: "sys_write FD_SCREEN 0x100000 4000 s = (n, s')" by fastforce
  show ?thesis using score_on_screen [OF a p m ok w] a(2) w by blast
qed

end
